(* ===== verification/Prelude.thy ===== *)
theory Prelude
  imports Main "HOL-Library.AList" "HOL-Library.Char_ord" "HOL-Library.List_Lexorder"
    "HOL-Library.Product_Lexorder" "HOL-Library.Word" "HOL-Library.Multiset"
    "HOL-Library.Signed_Division"
begin

section \<open>Shared vocabulary of the development\<close>

text \<open>
  This theory holds what every component uses: the combinators that stand for Rust's
  \<open>Result\<close> and \<open>?\<close>, the association-list reading of \<open>HashMap\<close>, checked and saturating
  machine arithmetic at the widths the code uses, decimal printing and parsing of
  integers (\<open>to_string\<close> and \<open>parse\<close> of the standard library), and sorting with
  deduplication. A Rust \<open>String\<close> is its UTF-8 byte sequence: an Isabelle \<^typ>\<open>char\<close>
  is exactly one byte, so \<^typ>\<open>string\<close> serves both as \<open>String\<close> and as \<open>Vec<u8>\<close>,
  \<open>as_bytes\<close> is the identity, and the byte-lexicographic \<open>Ord\<close> of \<open>String\<close> is the
  order that \<open>Char_ord\<close> and \<open>List_Lexorder\<close> put on \<^typ>\<open>string\<close>.
\<close>

named_theorems result_simps \<open>rewriting of results and of early returns\<close>
named_theorems hm_simps \<open>lookups after hash-map updates\<close>

subsection \<open>Results and early returns\<close>

type_synonym ('e, 'a) result = "'e + 'a"

text \<open>\<open>r?\<close> followed by the rest of the function body.\<close>

fun and_then :: "('e, 'a) result \<Rightarrow> ('a \<Rightarrow> ('e, 'b) result) \<Rightarrow> ('e, 'b) result" where
  "and_then (Inl e) f = Inl e"
| "and_then (Inr x) f = f x"

definition map_err :: "('e \<Rightarrow> 'f) \<Rightarrow> ('e, 'a) result \<Rightarrow> ('f, 'a) result" where
  "map_err f r = (case r of Inl e \<Rightarrow> Inl (f e) | Inr x \<Rightarrow> Inr x)"

definition ok_or :: "'e \<Rightarrow> 'a option \<Rightarrow> ('e, 'a) result" where
  "ok_or e v = (case v of None \<Rightarrow> Inl e | Some x \<Rightarrow> Inr x)"

definition is_ok :: "('e, 'a) result \<Rightarrow> bool" where
  "is_ok r = (case r of Inl _ \<Rightarrow> False | Inr _ \<Rightarrow> True)"

lemma and_then_Inr [result_simps]:
  "and_then r f = Inr y \<longleftrightarrow> (\<exists>x. r = Inr x \<and> f x = Inr y)"
  by (cases r) auto

lemma and_then_Inl [result_simps]:
  "and_then r f = Inl e \<longleftrightarrow> r = Inl e \<or> (\<exists>x. r = Inr x \<and> f x = Inl e)"
  by (cases r) auto

lemma map_err_simps [simp]: "map_err f (Inl e) = Inl (f e)" "map_err f (Inr x) = Inr x"
  by (simp_all add: map_err_def)

lemma map_err_Inr [result_simps]: "map_err f r = Inr x \<longleftrightarrow> r = Inr x"
  by (cases r) auto

lemma map_err_Inl [result_simps]: "map_err f r = Inl e \<longleftrightarrow> (\<exists>d. r = Inl d \<and> e = f d)"
  by (cases r) auto

lemma ok_or_simps [simp]: "ok_or e None = Inl e" "ok_or e (Some x) = Inr x"
  by (simp_all add: ok_or_def)

lemma ok_or_Inr [result_simps]: "ok_or e v = Inr x \<longleftrightarrow> v = Some x"
  by (cases v) auto

lemma ok_or_Inl [result_simps]: "ok_or e v = Inl d \<longleftrightarrow> v = None \<and> d = e"
  by (cases v) auto

lemma is_ok_simps [simp]: "is_ok (Inr x)" "\<not> is_ok (Inl e)"
  by (simp_all add: is_ok_def)

text \<open>\<open>r?\<close> in an operation on mutable state: the state reached so far survives the early return.\<close>

definition and_then_st :: "('e, 'a) result \<times> 's \<Rightarrow> ('a \<Rightarrow> 's \<Rightarrow> ('e, 'b) result \<times> 's) \<Rightarrow> ('e, 'b) result \<times> 's"
where
  "and_then_st rs f = (case rs of (Inl e, s) \<Rightarrow> (Inl e, s) | (Inr x, s) \<Rightarrow> f x s)"

lemma and_then_st_simps [simp]:
  "and_then_st (Inl e, s) f = (Inl e, s)" "and_then_st (Inr x, s) f = f x s"
  by (simp_all add: and_then_st_def)

lemma and_then_st_Inr [result_simps]:
  "and_then_st rs f = (Inr y, t) \<longleftrightarrow> (\<exists>x s. rs = (Inr x, s) \<and> f x s = (Inr y, t))"
  by (cases rs; cases "fst rs") auto

subsection \<open>Hash maps\<close>

text \<open>
  A \<open>HashMap\<close> is an association list with distinct keys. Lookups go through
  \<^const>\<open>map_of\<close>; iteration visits the list, one of the orders the standard library may
  choose, and the code sorts whatever it collects that way.
\<close>

type_synonym ('k, 'v) hashmap = "('k \<times> 'v) list"

abbreviation hm_get :: "('k, 'v) hashmap \<Rightarrow> 'k \<Rightarrow> 'v option" where
  "hm_get m k \<equiv> map_of m k"

definition hm_insert :: "'k \<Rightarrow> 'v \<Rightarrow> ('k, 'v) hashmap \<Rightarrow> ('k, 'v) hashmap" where
  "hm_insert k v m = AList.update k v m"

text \<open>\<open>entry(k).or_insert(v)\<close>: an existing binding is left alone.\<close>

definition hm_or_insert :: "'k \<Rightarrow> 'v \<Rightarrow> ('k, 'v) hashmap \<Rightarrow> ('k, 'v) hashmap" where
  "hm_or_insert k v m = (if map_of m k = None then hm_insert k v m else m)"

definition hm_wf :: "('k, 'v) hashmap \<Rightarrow> bool" where
  "hm_wf m \<longleftrightarrow> distinct (map fst m)"

lemma hm_get_insert [simp, hm_simps]:
  "map_of (hm_insert k v m) k' = (if k' = k then Some v else map_of m k')"
  by (simp add: hm_insert_def update_conv')

lemma hm_get_or_insert [simp, hm_simps]:
  "map_of (hm_or_insert k v m) k' =
     (if k' = k \<and> map_of m k = None then Some v else map_of m k')"
  by (auto simp: hm_or_insert_def)

lemma hm_wf_Nil [simp]: "hm_wf []"
  by (simp add: hm_wf_def)

lemma hm_wf_insert [simp, intro]: "hm_wf m \<Longrightarrow> hm_wf (hm_insert k v m)"
  by (simp add: hm_wf_def hm_insert_def distinct_update)

lemma hm_wf_or_insert [simp, intro]: "hm_wf m \<Longrightarrow> hm_wf (hm_or_insert k v m)"
  by (simp add: hm_or_insert_def)

lemma hm_wf_get_iff: "hm_wf m \<Longrightarrow> map_of m k = Some v \<longleftrightarrow> (k, v) \<in> set m"
  by (simp add: hm_wf_def)

subsection \<open>Ordered maps\<close>

text \<open>A \<open>BTreeMap\<close> is an association list with strictly increasing keys, which is its iteration order.\<close>

type_synonym ('k, 'v) btreemap = "('k \<times> 'v) list"

abbreviation bt_get :: "('k, 'v) btreemap \<Rightarrow> 'k \<Rightarrow> 'v option" where
  "bt_get m k \<equiv> map_of m k"

fun bt_insert :: "'k::linorder \<Rightarrow> 'v \<Rightarrow> ('k, 'v) btreemap \<Rightarrow> ('k, 'v) btreemap" where
  "bt_insert k v [] = [(k, v)]"
| "bt_insert k v ((k', v') # m) =
     (if k < k' then (k, v) # (k', v') # m else if k = k' then (k, v) # m else (k', v') # bt_insert k v m)"

definition bt_wf :: "('k::linorder, 'v) btreemap \<Rightarrow> bool" where
  "bt_wf m \<longleftrightarrow> sorted_wrt (<) (map fst m)"

lemma bt_wf_simps [simp]:
  "bt_wf []" "bt_wf ((k, v) # m) \<longleftrightarrow> (\<forall>k' \<in> set (map fst m). k < k') \<and> bt_wf m"
  by (simp_all add: bt_wf_def)

lemma bt_get_insert [simp]: "map_of (bt_insert k v m) k' = (if k' = k then Some v else map_of m k')" if "bt_wf m"
  using that
proof (induction m)
  case (Cons x m)
  then show ?case by (cases x) (auto simp: map_of_eq_None_iff [symmetric])
qed simp

lemma bt_keys_insert [simp]: "fst ` set (bt_insert k v m) = insert k (fst ` set m)"
  by (induction k v m rule: bt_insert.induct) auto

lemma bt_wf_insert [simp, intro]: "bt_wf m \<Longrightarrow> bt_wf (bt_insert k v m)"
proof (induction k v m rule: bt_insert.induct)
  case (2 k v k' v' m)
  then show ?case by (fastforce simp: bt_keys_insert [simplified image_def])
qed simp

lemma bt_get_iff: "bt_wf m \<Longrightarrow> map_of m k = Some v \<longleftrightarrow> (k, v) \<in> set m"
  by (intro map_of_eq_Some_iff) (auto simp: bt_wf_def strict_sorted_iff)

lemma map_of_None_keys: "map_of m k = None \<longleftrightarrow> k \<notin> fst ` set m"
  by (simp add: map_of_eq_None_iff)

subsection \<open>Sorting and deduplication\<close>

text \<open>\<open>sort_unstable(); dedup()\<close>, and the contents of a \<open>BTreeSet\<close> in iteration order.\<close>

definition sort_dedup :: "'a::linorder list \<Rightarrow> 'a list" where
  "sort_dedup xs = remdups_adj (sort xs)"

lemma set_sort_dedup [simp]: "set (sort_dedup xs) = set xs"
  by (simp add: sort_dedup_def)

lemma sorted_sort_dedup [simp]: "sorted (sort_dedup xs)"
  by (simp add: sort_dedup_def)

lemma distinct_remdups_adj_sorted: "sorted xs \<Longrightarrow> distinct (remdups_adj xs)"
  by (induction xs rule: remdups_adj.induct) auto

lemma distinct_sort_dedup [simp]: "distinct (sort_dedup xs)"
  by (simp add: sort_dedup_def distinct_remdups_adj_sorted)

lemma sort_dedup_eq: "set xs = set ys \<Longrightarrow> sort_dedup xs = sort_dedup ys"
  by (intro sorted_distinct_set_unique) simp_all

lemma in_set_map_filter: "x \<in> set (List.map_filter f xs) \<longleftrightarrow> (\<exists>y \<in> set xs. f y = Some x)"
  by (force simp: map_filter_def)

subsection \<open>Machine integers\<close>

text \<open>
  \<open>i128\<close> and \<open>i64\<close> values are \<^typ>\<open>int\<close>s in range; the checked operations return
  \<^const>\<open>None\<close> where the exact result leaves the range. \<open>u64\<close> values are 64-bit words.
  Rust's integer division truncates towards zero, which is \<open>sdiv\<close>. A \<open>usize\<close> that
  counts or indexes a slice is a \<^typ>\<open>nat\<close>.
\<close>

definition in_i128 :: "int \<Rightarrow> bool" where
  "in_i128 x \<longleftrightarrow> - (2 ^ 127) \<le> x \<and> x < 2 ^ 127"

definition in_i64 :: "int \<Rightarrow> bool" where
  "in_i64 x \<longleftrightarrow> - (2 ^ 63) \<le> x \<and> x < 2 ^ 63"

definition i128_opt :: "int \<Rightarrow> int option" where
  "i128_opt x = (if in_i128 x then Some x else None)"

definition i128_add :: "int \<Rightarrow> int \<Rightarrow> int option" where
  "i128_add a b = i128_opt (a + b)"

definition i128_sub :: "int \<Rightarrow> int \<Rightarrow> int option" where
  "i128_sub a b = i128_opt (a - b)"

definition i128_mul :: "int \<Rightarrow> int \<Rightarrow> int option" where
  "i128_mul a b = i128_opt (a * b)"

definition i128_div :: "int \<Rightarrow> int \<Rightarrow> int option" where
  "i128_div a b = (if b = 0 then None else i128_opt (a sdiv b))"

definition i128_neg :: "int \<Rightarrow> int option" where
  "i128_neg a = i128_opt (- a)"

definition i128_abs :: "int \<Rightarrow> int option" where
  "i128_abs a = i128_opt \<bar>a\<bar>"

definition i128_saturating_add :: "int \<Rightarrow> int \<Rightarrow> int" where
  "i128_saturating_add a b = max (- (2 ^ 127)) (min (2 ^ 127 - 1) (a + b))"

definition i64_saturating_add :: "int \<Rightarrow> int \<Rightarrow> int" where
  "i64_saturating_add a b = max (- (2 ^ 63)) (min (2 ^ 63 - 1) (a + b))"

definition i64_sub :: "int \<Rightarrow> int \<Rightarrow> int option" where
  "i64_sub a b = (if in_i64 (a - b) then Some (a - b) else None)"

lemma i128_opt_Some [simp]: "i128_opt x = Some y \<longleftrightarrow> y = x \<and> in_i128 x"
  by (auto simp: i128_opt_def)

lemma i128_opt_None [simp]: "i128_opt x = None \<longleftrightarrow> \<not> in_i128 x"
  by (simp add: i128_opt_def)

lemmas i128_ops = i128_add_def i128_sub_def i128_mul_def i128_div_def i128_neg_def i128_abs_def

lemma sdiv_nonneg: "0 \<le> a \<Longrightarrow> 0 < b \<Longrightarrow> a sdiv b = a div (b::int)"
  by (simp add: signed_divide_int_def sgn_if)

type_synonym u64 = "64 word"

definition u64_saturating_add :: "u64 \<Rightarrow> u64 \<Rightarrow> u64" where
  "u64_saturating_add a b = (if unat a + unat b < 2 ^ 64 then a + b else - 1)"

definition u64_saturating_sub :: "u64 \<Rightarrow> u64 \<Rightarrow> u64" where
  "u64_saturating_sub a b = (if b \<le> a then a - b else 0)"

definition u64_checked_sub :: "u64 \<Rightarrow> u64 \<Rightarrow> u64 option" where
  "u64_checked_sub a b = (if b \<le> a then Some (a - b) else None)"

definition usize_max :: nat where
  "usize_max = 2 ^ 64 - 1"

definition usize_saturating_mul :: "nat \<Rightarrow> nat \<Rightarrow> nat" where
  "usize_saturating_mul a b = min (a * b) usize_max"

lemma unat_u64_saturating_add:
  "unat (u64_saturating_add a b) = min (unat a + unat b) (2 ^ 64 - 1)"
proof -
  have "unat (- 1 :: u64) = 2 ^ 64 - 1" by (simp add: unsigned_minus_1_eq_mask mask_eq_exp_minus_1)
  moreover have "unat a + unat b < 2 ^ 64 \<Longrightarrow> unat (a + b) = unat a + unat b"
    by (simp add: unat_word_ariths)
  ultimately show ?thesis by (auto simp: u64_saturating_add_def min_def)
qed

lemma unat_u64_saturating_sub: "unat (u64_saturating_sub a b) = unat a - unat b"
  by (auto simp: u64_saturating_sub_def unat_sub word_le_nat_alt)

lemma u64_checked_sub_Some:
  "u64_checked_sub a b = Some c \<longleftrightarrow> unat b \<le> unat a \<and> c = a - b"
  by (auto simp: u64_checked_sub_def word_le_nat_alt)

subsection \<open>Decimal text\<close>

text \<open>\<open>to_string\<close> of an integer, and \<open>parse\<close> with its optional sign and range check.\<close>

definition digit_char :: "nat \<Rightarrow> char" where
  "digit_char d = char_of (48 + d)"

fun show_nat :: "nat \<Rightarrow> string" where
  "show_nat n = (if n < 10 then [digit_char n] else show_nat (n div 10) @ [digit_char (n mod 10)])"

declare show_nat.simps [simp del]

definition show_int :: "int \<Rightarrow> string" where
  "show_int x = (if x < 0 then CHR ''-'' # show_nat (nat (- x)) else show_nat (nat x))"

definition char_digit :: "char \<Rightarrow> nat option" where
  "char_digit c = (let n = of_char c in if 48 \<le> n \<and> n \<le> 57 then Some (n - 48) else None)"

fun parse_digits :: "nat \<Rightarrow> string \<Rightarrow> nat option" where
  "parse_digits acc [] = Some acc"
| "parse_digits acc (c # cs) =
     (case char_digit c of None \<Rightarrow> None | Some d \<Rightarrow> parse_digits (10 * acc + d) cs)"

definition parse_int :: "string \<Rightarrow> int option" where
  "parse_int s =
     (case s of [] \<Rightarrow> None
      | c # cs \<Rightarrow>
          (if c = CHR ''-'' then (if cs = [] then None else map_option (\<lambda>n. - int n) (parse_digits 0 cs))
           else if c = CHR ''+'' then (if cs = [] then None else map_option int (parse_digits 0 cs))
           else map_option int (parse_digits 0 s)))"

definition parse_i128 :: "string \<Rightarrow> int option" where
  "parse_i128 s = Option.bind (parse_int s) i128_opt"

definition parse_i64 :: "string \<Rightarrow> int option" where
  "parse_i64 s = Option.bind (parse_int s) (\<lambda>x. if in_i64 x then Some x else None)"

lemma char_digit_digit_char [simp]: "d < 10 \<Longrightarrow> char_digit (digit_char d) = Some d"
  by (simp add: char_digit_def digit_char_def Let_def)

lemma parse_digits_append:
  "parse_digits acc (xs @ ys) = Option.bind (parse_digits acc xs) (\<lambda>a. parse_digits a ys)"
  by (induction xs arbitrary: acc) (auto split: option.splits)

lemma parse_digits_show_nat: "parse_digits 0 (show_nat n) = Some n"
proof (induction n rule: show_nat.induct)
  case (1 n)
  then show ?case
    by (subst show_nat.simps) (auto simp: parse_digits_append)
qed

lemma show_nat_digits: "c \<in> set (show_nat n) \<Longrightarrow> 48 \<le> (of_char c :: nat) \<and> (of_char c :: nat) \<le> 57"
proof (induction n rule: show_nat.induct)
  case (1 n)
  then show ?case
    by (subst (asm) (2) show_nat.simps) (auto simp: digit_char_def split: if_splits)
qed

lemma show_nat_nonempty [simp]: "show_nat n \<noteq> []"
  by (subst show_nat.simps) simp

lemma parse_int_show_int [simp]: "parse_int (show_int x) = Some x"
proof (cases "x < 0")
  case True
  then show ?thesis by (simp add: show_int_def parse_int_def parse_digits_show_nat)
next
  case False
  obtain c cs where s: "show_nat (nat x) = c # cs" by (cases "show_nat (nat x)") auto
  then have "48 \<le> (of_char c :: nat)" using show_nat_digits [of c "nat x"] by simp
  then have "c \<noteq> CHR ''-''" "c \<noteq> CHR ''+''" by auto
  with False s show ?thesis
    using parse_digits_show_nat [of "nat x"] by (simp add: show_int_def parse_int_def)
qed

lemma show_int_inject: "show_int x = show_int y \<longleftrightarrow> x = y"
  by (metis option.inject parse_int_show_int)

lemma parse_i128_show_int [simp]: "in_i128 x \<Longrightarrow> parse_i128 (show_int x) = Some x"
  by (simp add: parse_i128_def)

lemma parse_i64_show_int [simp]: "in_i64 x \<Longrightarrow> parse_i64 (show_int x) = Some x"
  by (simp add: parse_i64_def)

end
