(* ===== verification/Core.thy ===== *)
theory Core
  imports Prelude
begin

section \<open>Identifiers, timestamps and content hashes (treasury-core)\<close>

text \<open>
  Models \<open>crates/treasury-core/src/\<close> \<open>hash.rs\<close>, \<open>ids.rs\<close> and \<open>time.rs\<close>. The identifier
  newtypes wrap a \<open>String\<close> and are strings here; a timestamp is its \<open>i64\<close> of nanoseconds.
  A content hash is a type of its own, inhabited by exactly the 32-byte sequences and
  ordered bytewise, as \<open>[u8; 32]\<close> is.

  The record \<open>libs\<close> collects the functions of third-party crates that the code calls:
  SHA-256 (crate \<open>sha2\<close>), the JSON string encoder (\<open>serde_json::to_string\<close> on a string)
  and hex encoding and decoding (crate \<open>hex\<close>). They are parameters of every definition
  that uses them; \<open>libs_ok\<close> states the documented behaviour the code relies on, and
  \<open>no_collision L S\<close> says that SHA-256 does not collide on the particular inputs \<open>S\<close>.
\<close>

subsection \<open>Identifiers and timestamps\<close>

type_synonym tenant_id = string
type_synonym asset_id = string
type_synonym venue_id = string
type_synonym actor_id = string
type_synonym source_id = string

type_synonym timestamp_ns = int

subsection \<open>Content hashes\<close>

typedef content_hash = "{bs :: string. length bs = 32}"
  morphisms as_bytes ContentHash
  by (rule exI [of _ "replicate 32 (CHR 0x00)"]) simp

setup_lifting type_definition_content_hash

instantiation content_hash :: linorder
begin

lift_definition less_eq_content_hash :: "content_hash \<Rightarrow> content_hash \<Rightarrow> bool" is "(\<le>)" .

lift_definition less_content_hash :: "content_hash \<Rightarrow> content_hash \<Rightarrow> bool" is "(<)" .

instance
  by standard (transfer; auto)+

end

instantiation content_hash :: equal
begin

definition equal_content_hash :: "content_hash \<Rightarrow> content_hash \<Rightarrow> bool" where
  "equal_content_hash a b \<longleftrightarrow> as_bytes a = as_bytes b"

instance
  by standard (simp add: equal_content_hash_def as_bytes_inject)

end

lemma length_as_bytes [simp]: "length (as_bytes h) = 32"
  using as_bytes by auto

lemma as_bytes_eq_iff [simp]: "as_bytes a = as_bytes b \<longleftrightarrow> a = b"
  by (rule as_bytes_inject)

text \<open>\<open>ContentHash([n; 32])\<close>, the hash with all bytes equal that the tests are written with.\<close>

lift_definition hash_of_byte :: "char \<Rightarrow> content_hash" is "\<lambda>c. replicate 32 c"
  by simp

lemma hash_of_byte_inject [simp]: "hash_of_byte a = hash_of_byte b \<longleftrightarrow> a = b"
  by transfer (simp add: replicate_eq_replicate)

lemma hash_of_byte_less [simp]: "hash_of_byte a < hash_of_byte b \<longleftrightarrow> a < b"
proof -
  have "replicate (Suc n) a < replicate (Suc n) b \<longleftrightarrow> a < b" for n
    by (induction n) auto
  from this [of 31] show ?thesis by transfer (simp add: numeral_eq_Suc)
qed

lemma hash_of_byte_le [simp]: "hash_of_byte a \<le> hash_of_byte b \<longleftrightarrow> a \<le> b"
  by (simp add: le_less)

subsection \<open>Third-party functions\<close>

record libs =
  sha2_digest :: "string \<Rightarrow> content_hash"
  serde_str :: "string \<Rightarrow> (string, string) result"
  hex_encode :: "string \<Rightarrow> string"
  hex_decode :: "string \<Rightarrow> string option"

text \<open>
  What the code relies on: hex text decodes to the bytes it was made from, and the JSON
  encoder succeeds on every string with a literal that opens with a quote and ends where
  its closing quote is (no literal is a proper prefix of another).
\<close>

definition libs_ok :: "libs \<Rightarrow> bool" where
  "libs_ok L \<longleftrightarrow>
     (\<forall>bs. hex_decode L (hex_encode L bs) = Some bs) \<and>
     (\<forall>s. \<exists>e. serde_str L s = Inr (CHR 0x22 # e)) \<and>
     (\<forall>s t e f r u. serde_str L s = Inr e \<longrightarrow> serde_str L t = Inr f \<longrightarrow> e @ r = f @ u \<longrightarrow>
        s = t \<and> r = u)"

definition no_collision :: "libs \<Rightarrow> string set \<Rightarrow> bool" where
  "no_collision L S \<longleftrightarrow> inj_on (sha2_digest L) S"

lemma libs_okD:
  assumes "libs_ok L"
  shows "hex_decode L (hex_encode L bs) = Some bs"
    and "\<exists>e. serde_str L s = Inr (CHR 0x22 # e)"
    and "serde_str L s = Inr e \<Longrightarrow> serde_str L t = Inr f \<Longrightarrow> e @ r = f @ u \<Longrightarrow> s = t \<and> r = u"
  using assms unfolding libs_ok_def by blast+

lemma hex_encode_inject: "libs_ok L \<Longrightarrow> hex_encode L a = hex_encode L b \<longleftrightarrow> a = b"
  by (metis libs_okD(1) option.inject)

lemma no_collisionD:
  "no_collision L S \<Longrightarrow> a \<in> S \<Longrightarrow> b \<in> S \<Longrightarrow> sha2_digest L a = sha2_digest L b \<Longrightarrow> a = b"
  by (simp add: no_collision_def inj_on_def)

lemma no_collision_mono: "no_collision L T \<Longrightarrow> S \<subseteq> T \<Longrightarrow> no_collision L S"
  by (auto simp: no_collision_def intro: inj_on_subset)

subsection \<open>Hex text of a hash\<close>

datatype hash_parse_error = InvalidHex | WrongLength

definition to_hex :: "libs \<Rightarrow> content_hash \<Rightarrow> string" where
  "to_hex L h = hex_encode L (as_bytes h)"

definition from_hex :: "libs \<Rightarrow> string \<Rightarrow> (hash_parse_error, content_hash) result" where
  "from_hex L s =
     and_then (ok_or InvalidHex (hex_decode L s))
       (\<lambda>bytes. if length bytes = 32 then Inr (ContentHash bytes) else Inl WrongLength)"

definition sha256 :: "libs \<Rightarrow> string \<Rightarrow> content_hash" where
  "sha256 L bytes = sha2_digest L bytes"

lemma to_hex_inject [simp]: "libs_ok L \<Longrightarrow> to_hex L a = to_hex L b \<longleftrightarrow> a = b"
  by (simp add: to_hex_def hex_encode_inject)

lemma from_hex_to_hex: "libs_ok L \<Longrightarrow> from_hex L (to_hex L h) = Inr h"
  by (simp add: from_hex_def to_hex_def libs_okD(1) as_bytes_inverse)

subsection \<open>A concrete instance of the third-party functions\<close>

text \<open>
  Used where a statement is evaluated at a concrete input: a quoting encoder that escapes
  the quote and the backslash, lowercase hex, and any hash function one likes.
\<close>

definition quote_char :: "char \<Rightarrow> string" where
  "quote_char c = (if c = CHR 0x22 \<or> c = CHR 0x5C then [CHR 0x5C, c] else [c])"

definition quote_string :: "string \<Rightarrow> string" where
  "quote_string s = CHR 0x22 # concat (map quote_char s) @ [CHR 0x22]"

definition hex_nibble :: "nat \<Rightarrow> char" where
  "hex_nibble n = (if n < 10 then char_of (48 + n) else char_of (87 + n))"

definition nibble_value :: "char \<Rightarrow> nat option" where
  "nibble_value c =
     (let n = of_char c in
      if 48 \<le> n \<and> n \<le> 57 then Some (n - 48)
      else if 97 \<le> n \<and> n \<le> 102 then Some (n - 87)
      else if 65 \<le> n \<and> n \<le> 70 then Some (n - 55) else None)"

fun hex_enc_bytes :: "string \<Rightarrow> string" where
  "hex_enc_bytes [] = []"
| "hex_enc_bytes (c # cs) =
     hex_nibble (of_char c div 16) # hex_nibble (of_char c mod 16) # hex_enc_bytes cs"

fun hex_dec_bytes :: "string \<Rightarrow> string option" where
  "hex_dec_bytes [] = Some []"
| "hex_dec_bytes [c] = None"
| "hex_dec_bytes (a # b # cs) =
     (case (nibble_value a, nibble_value b, hex_dec_bytes cs) of
        (Some x, Some y, Some r) \<Rightarrow> Some (char_of (16 * x + y) # r)
      | _ \<Rightarrow> None)"

definition demo_libs :: "(string \<Rightarrow> content_hash) \<Rightarrow> libs" where
  "demo_libs h = \<lparr>sha2_digest = h, serde_str = (\<lambda>s. Inr (quote_string s)),
                  hex_encode = hex_enc_bytes, hex_decode = hex_dec_bytes\<rparr>"

lemma nibble_value_hex_nibble [simp]: "n < 16 \<Longrightarrow> nibble_value (hex_nibble n) = Some n"
  by (auto simp: nibble_value_def hex_nibble_def Let_def)

lemma hex_dec_enc_bytes: "hex_dec_bytes (hex_enc_bytes bs) = Some bs"
proof (induction bs)
  case (Cons c cs)
  have "(of_char c :: nat) div 16 < 16"
    by (rule less_mult_imp_div_less) (use nat_of_char_less_256 [of c] in simp)
  with Cons show ?case by simp
qed simp

lemma quote_char_delimits: "quote_char c @ x = quote_char d @ y \<Longrightarrow> c = d \<and> x = y"
  by (auto simp: quote_char_def split: if_splits)

lemma quote_char_not_quote [simp]:
  "quote_char c @ x \<noteq> CHR 0x22 # y" "CHR 0x22 # y \<noteq> quote_char c @ x"
  by (auto simp: quote_char_def)

lemma quote_body_delimits:
  "concat (map quote_char s) @ CHR 0x22 # r = concat (map quote_char t) @ CHR 0x22 # u
     \<Longrightarrow> s = t \<and> r = u"
proof (induction s arbitrary: t)
  case Nil
  then show ?case by (cases t) auto
next
  case (Cons c s)
  then show ?case by (cases t) (auto dest: quote_char_delimits)
qed

lemma demo_libs_ok [simp]: "libs_ok (demo_libs h)"
  by (auto simp: libs_ok_def demo_libs_def hex_dec_enc_bytes quote_string_def
      dest!: quote_body_delimits)

lemma demo_libs_sha [simp]: "sha2_digest (demo_libs h) = h"
  by (simp add: demo_libs_def)

end
