(* ===== verification/Dual_Control.thy ===== *)
theory Dual_Control
  imports Core
begin

section \<open>Dual control (treasury-core, dual_control.rs)\<close>

text \<open>
  Models \<open>crates/treasury-core/src/dual_control.rs\<close>: items keyed by content hash move from
  asserted to confirmed or rejected. An operation that takes \<open>&mut self\<close> and returns a
  \<open>Result\<close> becomes a function to the result paired with the state afterwards.

  The locale \<open>two_person\<close> is the contract every approval queue of the suite gives its
  clients, stated over the queue's step relation: nothing is ever removed, a terminal
  item never changes, and an item becomes confirmed only from an assertion by somebody
  else. Its lemmas hold in every reachable state. It is interpreted here on the generic
  queue, and in \<open>Queues\<close> on the confirmation and designation queues of the matcher.
\<close>

subsection \<open>The contract of an approval queue\<close>

locale two_person =
  fixes view :: "'q \<Rightarrow> 'i \<Rightarrow> 's option"
    and step :: "'q \<Rightarrow> 'q \<Rightarrow> bool"
    and init :: 'q
    and asserted_by :: "'s \<Rightarrow> 'actor option"
    and confirmed_by :: "'s \<Rightarrow> ('actor \<times> 'actor) option"
    and terminal :: "'s \<Rightarrow> bool"
  assumes view_init: "view init i = None"
    and terminal_keep: "step q q' \<Longrightarrow> view q i = Some s \<Longrightarrow> terminal s \<Longrightarrow> view q' i = Some s"
    and present_keep: "step q q' \<Longrightarrow> view q i = Some s \<Longrightarrow> \<exists>s'. view q' i = Some s'"
    and confirmed_from: "step q q' \<Longrightarrow> view q' i = Some s' \<Longrightarrow> confirmed_by s' = Some (p, a) \<Longrightarrow>
        view q i = Some s' \<or> (\<exists>s. view q i = Some s \<and> asserted_by s = Some p \<and> p \<noteq> a)"
begin

lemma terminal_forever:
  "step\<^sup>*\<^sup>* q q' \<Longrightarrow> view q i = Some s \<Longrightarrow> terminal s \<Longrightarrow> view q' i = Some s"
  by (induction rule: rtranclp_induct) (auto dest: terminal_keep)

lemma present_forever:
  "step\<^sup>*\<^sup>* q q' \<Longrightarrow> view q i = Some s \<Longrightarrow> \<exists>s'. view q' i = Some s'"
  by (induction rule: rtranclp_induct) (auto dest: present_keep)

lemma confirmed_two_actors:
  "step\<^sup>*\<^sup>* init q \<Longrightarrow> view q i = Some s \<Longrightarrow> confirmed_by s = Some (p, a) \<Longrightarrow> p \<noteq> a"
proof (induction arbitrary: s rule: rtranclp_induct)
  case base
  then show ?case by (simp add: view_init)
next
  case (step q q')
  then show ?case using confirmed_from [OF step(2,4,5)] by blast
qed

end

subsection \<open>The generic queue\<close>

datatype dual_control_state =
    DC_Asserted actor_id
  | DC_Confirmed actor_id actor_id
  | DC_Rejected actor_id string

fun dc_is_terminal :: "dual_control_state \<Rightarrow> bool" where
  "dc_is_terminal (DC_Asserted p) = False"
| "dc_is_terminal (DC_Confirmed p a) = True"
| "dc_is_terminal (DC_Rejected a r) = True"

record 'p dual_control_queue =
  dc_items :: "(content_hash, 'p \<times> dual_control_state) hashmap"

datatype dual_control_error =
    DC_UnknownItem content_hash
  | DC_InvalidTransition
  | DC_Violation

definition dc_new :: "'p dual_control_queue" where
  "dc_new = \<lparr>dc_items = []\<rparr>"

definition dc_propose ::
  "'p dual_control_queue \<Rightarrow> content_hash \<Rightarrow> 'p \<Rightarrow> actor_id \<Rightarrow> 'p dual_control_queue" where
  "dc_propose q iid payload preparer =
     q\<lparr>dc_items := hm_or_insert iid (payload, DC_Asserted preparer) (dc_items q)\<rparr>"

definition dc_confirm :: "'p dual_control_queue \<Rightarrow> content_hash \<Rightarrow> actor_id
    \<Rightarrow> (dual_control_error, unit) result \<times> 'p dual_control_queue" where
  "dc_confirm q iid approver =
     (case hm_get (dc_items q) iid of
        None \<Rightarrow> (Inl (DC_UnknownItem iid), q)
      | Some (payload, state) \<Rightarrow>
          (case state of
             DC_Asserted preparer \<Rightarrow>
               (if preparer = approver then (Inl DC_Violation, q)
                else (Inr (),
                  q\<lparr>dc_items := hm_insert iid (payload, DC_Confirmed preparer approver) (dc_items q)\<rparr>))
           | _ \<Rightarrow> (Inl DC_InvalidTransition, q)))"

definition dc_reject :: "'p dual_control_queue \<Rightarrow> content_hash \<Rightarrow> actor_id \<Rightarrow> string
    \<Rightarrow> (dual_control_error, unit) result \<times> 'p dual_control_queue" where
  "dc_reject q iid actor reason =
     (case hm_get (dc_items q) iid of
        None \<Rightarrow> (Inl (DC_UnknownItem iid), q)
      | Some (payload, state) \<Rightarrow>
          (if dc_is_terminal state then (Inl DC_InvalidTransition, q)
           else (Inr (),
             q\<lparr>dc_items := hm_insert iid (payload, DC_Rejected actor reason) (dc_items q)\<rparr>)))"

definition dc_state :: "'p dual_control_queue \<Rightarrow> content_hash \<Rightarrow> dual_control_state option" where
  "dc_state q iid = map_option snd (hm_get (dc_items q) iid)"

definition dc_payload :: "'p dual_control_queue \<Rightarrow> content_hash \<Rightarrow> 'p option" where
  "dc_payload q iid = map_option fst (hm_get (dc_items q) iid)"

definition dc_open_items :: "'p dual_control_queue \<Rightarrow> content_hash list" where
  "dc_open_items q = sort (map fst (filter (\<lambda>(iid, _, state). \<not> dc_is_terminal state) (dc_items q)))"

subsection \<open>What each operation does\<close>

fun dc_asserted_by :: "dual_control_state \<Rightarrow> actor_id option" where
  "dc_asserted_by (DC_Asserted p) = Some p"
| "dc_asserted_by _ = None"

fun dc_confirmed_by :: "dual_control_state \<Rightarrow> (actor_id \<times> actor_id) option" where
  "dc_confirmed_by (DC_Confirmed p a) = Some (p, a)"
| "dc_confirmed_by _ = None"

lemma dc_confirmed_by_Some [simp]: "dc_confirmed_by s = Some (p, a) \<longleftrightarrow> s = DC_Confirmed p a"
  by (cases s) auto

lemma dc_asserted_by_Some [simp]: "dc_asserted_by s = Some p \<longleftrightarrow> s = DC_Asserted p"
  by (cases s) auto

lemma dc_state_new [simp]: "dc_state dc_new iid = None" "dc_payload dc_new iid = None"
  by (simp_all add: dc_state_def dc_payload_def dc_new_def)

lemma dc_propose_state:
  "dc_state (dc_propose q iid p a) i =
     (if i = iid \<and> dc_state q iid = None then Some (DC_Asserted a) else dc_state q i)"
  by (simp add: dc_state_def dc_propose_def)

lemma dc_propose_payload:
  "dc_payload (dc_propose q iid p a) i =
     (if i = iid \<and> dc_payload q iid = None then Some p else dc_payload q i)"
  by (simp add: dc_payload_def dc_propose_def)

lemma dc_state_payload: "dc_state q i = None \<longleftrightarrow> dc_payload q i = None"
  by (simp add: dc_state_def dc_payload_def)

lemma dc_confirm_Inr:
  "dc_confirm q iid a = (Inr (), q') \<longleftrightarrow>
     (\<exists>p payload. hm_get (dc_items q) iid = Some (payload, DC_Asserted p) \<and> p \<noteq> a \<and>
        q' = q\<lparr>dc_items := hm_insert iid (payload, DC_Confirmed p a) (dc_items q)\<rparr>)"
  by (auto simp: dc_confirm_def split: option.splits dual_control_state.splits)

lemma dc_confirm_Inl: "dc_confirm q iid a = (Inl e, q') \<Longrightarrow> q' = q"
  by (auto simp: dc_confirm_def split: option.splits dual_control_state.splits if_splits)

lemma dc_confirm_error:
  "fst (dc_confirm q iid a) =
     (case dc_state q iid of
        None \<Rightarrow> Inl (DC_UnknownItem iid)
      | Some (DC_Asserted p) \<Rightarrow> if p = a then Inl DC_Violation else Inr ()
      | Some _ \<Rightarrow> Inl DC_InvalidTransition)"
  by (auto simp: dc_confirm_def dc_state_def split: option.splits dual_control_state.splits)

lemma dc_confirm_state:
  assumes "dc_confirm q iid a = (Inr (), q')"
  shows "\<exists>p. dc_state q iid = Some (DC_Asserted p) \<and> p \<noteq> a \<and>
    dc_state q' i = (if i = iid then Some (DC_Confirmed p a) else dc_state q i)"
    and "dc_payload q' i = dc_payload q i"
  using assms by (auto simp: dc_confirm_Inr dc_state_def dc_payload_def)

lemma dc_reject_Inr:
  "dc_reject q iid a r = (Inr (), q') \<longleftrightarrow>
     (\<exists>s payload. hm_get (dc_items q) iid = Some (payload, s) \<and> \<not> dc_is_terminal s \<and>
        q' = q\<lparr>dc_items := hm_insert iid (payload, DC_Rejected a r) (dc_items q)\<rparr>)"
  by (auto simp: dc_reject_def split: option.splits)

lemma dc_reject_Inl: "dc_reject q iid a r = (Inl e, q') \<Longrightarrow> q' = q"
  by (auto simp: dc_reject_def split: option.splits if_splits)

lemma dc_reject_state:
  assumes "dc_reject q iid a r = (Inr (), q')"
  shows "\<exists>p. dc_state q iid = Some (DC_Asserted p) \<and>
    dc_state q' i = (if i = iid then Some (DC_Rejected a r) else dc_state q i)"
    and "dc_payload q' i = dc_payload q i"
proof -
  from assms obtain s payload where s: "hm_get (dc_items q) iid = Some (payload, s)"
    "\<not> dc_is_terminal s" "q' = q\<lparr>dc_items := hm_insert iid (payload, DC_Rejected a r) (dc_items q)\<rparr>"
    by (auto simp: dc_reject_Inr)
  then show "dc_payload q' i = dc_payload q i" by (simp add: dc_payload_def)
  from s show "\<exists>p. dc_state q iid = Some (DC_Asserted p) \<and>
    dc_state q' i = (if i = iid then Some (DC_Rejected a r) else dc_state q i)"
    by (cases s) (auto simp: dc_state_def)
qed

subsection \<open>Runs of the queue\<close>

inductive dc_step :: "'p dual_control_queue \<Rightarrow> 'p dual_control_queue \<Rightarrow> bool" where
  dc_step_propose: "dc_step q (dc_propose q iid payload preparer)"
| dc_step_confirm: "dc_confirm q iid approver = (r, q') \<Longrightarrow> dc_step q q'"
| dc_step_reject: "dc_reject q iid actor reason = (r, q') \<Longrightarrow> dc_step q q'"

lemma dc_step_state:
  assumes "dc_step q q'"
  shows "dc_state q' i = dc_state q i \<or>
    (dc_state q i = None \<and> (\<exists>p. dc_state q' i = Some (DC_Asserted p))) \<or>
    (\<exists>p. dc_state q i = Some (DC_Asserted p) \<and>
      ((\<exists>a. a \<noteq> p \<and> dc_state q' i = Some (DC_Confirmed p a)) \<or>
       (\<exists>a r. dc_state q' i = Some (DC_Rejected a r))))"
  using assms
proof cases
  case (dc_step_propose iid payload preparer)
  then show ?thesis by (simp add: dc_propose_state)
next
  case (dc_step_confirm iid approver r)
  show ?thesis
  proof (cases r)
    case (Inl e)
    with dc_step_confirm dc_confirm_Inl show ?thesis by blast
  next
    case (Inr u)
    with dc_step_confirm have "dc_confirm q iid approver = (Inr (), q')" by simp
    from dc_confirm_state(1) [OF this, of i] show ?thesis by (auto split: if_splits)
  qed
next
  case (dc_step_reject iid actor reason r)
  show ?thesis
  proof (cases r)
    case (Inl e)
    with dc_step_reject dc_reject_Inl show ?thesis by blast
  next
    case (Inr u)
    with dc_step_reject have "dc_reject q iid actor reason = (Inr (), q')" by simp
    from dc_reject_state(1) [OF this, of i] show ?thesis by (auto split: if_splits)
  qed
qed

lemma dc_step_payload: "dc_step q q' \<Longrightarrow> dc_payload q i = Some p \<Longrightarrow> dc_payload q' i = Some p"
proof (induction rule: dc_step.induct)
  case (dc_step_confirm q iid approver r q')
  then show ?case by (cases r) (auto dest: dc_confirm_Inl simp: dc_confirm_state(2))
next
  case (dc_step_reject q iid actor reason r q')
  then show ?case by (cases r) (auto dest: dc_reject_Inl simp: dc_reject_state(2))
qed (auto simp: dc_propose_payload)

lemma dc_steps_payload: "dc_step\<^sup>*\<^sup>* q q' \<Longrightarrow> dc_payload q i = Some p \<Longrightarrow> dc_payload q' i = Some p"
  by (induction rule: rtranclp_induct) (auto dest: dc_step_payload)

interpretation dcq: two_person dc_state dc_step dc_new dc_asserted_by dc_confirmed_by dc_is_terminal
proof unfold_locales
  show "dc_state dc_new i = None" for i by simp
next
  fix q q' :: "'a dual_control_queue" and i s
  assume "dc_step q q'" "dc_state q i = Some s" "dc_is_terminal s"
  then show "dc_state q' i = Some s" using dc_step_state [of q q' i] by auto
next
  fix q q' :: "'a dual_control_queue" and i s
  assume "dc_step q q'" "dc_state q i = Some s"
  then show "\<exists>s'. dc_state q' i = Some s'" using dc_step_state [of q q' i] by auto
next
  fix q q' :: "'a dual_control_queue" and i s' p a
  assume "dc_step q q'" "dc_state q' i = Some s'" "dc_confirmed_by s' = Some (p, a)"
  then show "dc_state q i = Some s' \<or>
      (\<exists>s. dc_state q i = Some s \<and> dc_asserted_by s = Some p \<and> p \<noteq> a)"
    using dc_step_state [of q q' i] by auto
qed

subsection \<open>Properties\<close>

text \<open>C7: Whatever is done to a queue from the start, a confirmed item was confirmed by somebody other
  than its preparer, and a confirmed or rejected item keeps that state forever.\<close>

theorem dual_control_two_actors:
  assumes "dc_step\<^sup>*\<^sup>* dc_new q" and "dc_step\<^sup>*\<^sup>* q q'" and "dc_state q i = Some (DC_Confirmed p a)"
  shows "p \<noteq> a \<and> dc_state q' i = Some (DC_Confirmed p a)"
  using dcq.confirmed_two_actors [OF assms(1,3)] dcq.terminal_forever [OF assms(2,3)] by simp

theorem dual_control_two_actors_witness:
  "dc_state (snd (dc_confirm (dc_propose dc_new (hash_of_byte (CHR 0x01)) () ''alice'') (hash_of_byte (CHR 0x01)) ''bob''))
     (hash_of_byte (CHR 0x01)) = Some (DC_Confirmed ''alice'' ''bob'')"
proof -
  let ?i = "hash_of_byte (CHR 0x01)"
  let ?asserted = "dc_propose dc_new ?i () ''alice''"
  let ?q = "snd (dc_confirm ?asserted ?i ''bob'')"
  have "dc_step dc_new ?asserted" "dc_step ?asserted ?q"
    by (rule dc_step_propose) (rule dc_step_confirm, rule surjective_pairing)
  then have "dc_step\<^sup>*\<^sup>* dc_new ?q" by (rule converse_rtranclp_into_rtranclp [OF _ r_into_rtranclp])
  moreover have "dc_state ?q ?i = Some (DC_Confirmed ''alice'' ''bob'')"
    by (simp add: dc_confirm_def dc_propose_def dc_new_def dc_state_def)
  ultimately show ?thesis using dual_control_two_actors [of ?q ?q ?i "''alice''" "''bob''"] by simp
qed

end
