(* ===== verification/Merkle.thy ===== *)
theory Merkle
  imports Core "HOL-Library.While_Combinator"
begin

section \<open>RFC 6962 tree heads (treasury-evidence, merkle.rs)\<close>

text \<open>
  Models \<open>crates/treasury-evidence/src/merkle.rs\<close>. The loop that finds the split point keeps
  the saturating doubling of the code on \<open>usize\<close>; a slice never has more than
  \<^const>\<open>usize_max\<close> elements, which is the guard of the loop and a hypothesis where the
  split point matters. The lemmas show that the head determines the list of leaves unless SHA-256
  collides on the strings hashed to compute it.
\<close>

subsection \<open>Tree heads\<close>

definition leaf_prefix :: char where "leaf_prefix = CHR 0x00"

definition node_prefix :: char where "node_prefix = CHR 0x01"

definition leaf_hash :: "libs \<Rightarrow> content_hash \<Rightarrow> content_hash" where
  "leaf_hash L entry = sha256 L (leaf_prefix # as_bytes entry)"

definition node_hash :: "libs \<Rightarrow> content_hash \<Rightarrow> content_hash \<Rightarrow> content_hash" where
  "node_hash L left right = sha256 L (node_prefix # as_bytes left @ as_bytes right)"

lemma saturating_double_grows:
  "0 < k \<Longrightarrow> n \<le> usize_max \<Longrightarrow> usize_saturating_mul k 2 < n \<Longrightarrow> k < usize_saturating_mul k 2"
  by (auto simp: usize_saturating_mul_def min_def split: if_splits)

function double_below :: "nat \<Rightarrow> nat \<Rightarrow> nat" where
  "double_below k n =
     (if 0 < k \<and> n \<le> usize_max \<and> usize_saturating_mul k 2 < n
      then double_below (usize_saturating_mul k 2) n else k)"
  by pat_completeness auto
termination
proof (relation "measure (\<lambda>(k, n). n - k)")
  fix k n :: nat
  assume "0 < k \<and> n \<le> usize_max \<and> usize_saturating_mul k 2 < n"
  then show "((usize_saturating_mul k 2, n), k, n) \<in> measure (\<lambda>(k, n). n - k)"
    using saturating_double_grows [of k n] by (simp, linarith)
qed simp

declare double_below.simps [simp del]

definition largest_power_of_two_below :: "nat \<Rightarrow> nat" where
  "largest_power_of_two_below n = double_below 1 n"

lemma double_below_bounds: "0 < k \<Longrightarrow> k < n \<Longrightarrow> 0 < double_below k n \<and> double_below k n < n"
proof (induction k n rule: double_below.induct)
  case (1 k n)
  then show ?case
    using saturating_double_grows [of k n] by (subst (1 2) double_below.simps) auto
qed

lemma largest_power_bounds:
  "2 \<le> n \<Longrightarrow> 0 < largest_power_of_two_below n" "2 \<le> n \<Longrightarrow> largest_power_of_two_below n < n"
  using double_below_bounds [of 1 n] by (simp_all add: largest_power_of_two_below_def)

lemma double_below_power:
  "n \<le> usize_max \<Longrightarrow> 2 ^ i < n \<Longrightarrow>
     \<exists>j. double_below (2 ^ i) n = 2 ^ j \<and> 2 ^ j < n \<and> n \<le> 2 ^ Suc j"
proof (induction "2 ^ i :: nat" n arbitrary: i rule: double_below.induct)
  case (1 n)
  show ?case
  proof (cases "usize_saturating_mul (2 ^ i) 2 < n")
    case True
    then have eq: "usize_saturating_mul (2 ^ i) 2 = 2 ^ Suc i"
      using "1.prems"(1) by (auto simp: usize_saturating_mul_def min_def split: if_splits)
    have "\<exists>j. double_below (2 ^ Suc i) n = 2 ^ j \<and> 2 ^ j < n \<and> n \<le> 2 ^ Suc j"
      by (rule "1.hyps" [of "Suc i", unfolded eq]) (use True eq "1.prems" in auto)
    with True "1.prems" eq show ?thesis by (simp add: double_below.simps [of "2 ^ i"])
  next
    case False
    then have "n \<le> 2 ^ Suc i"
      using "1.prems"(1) by (auto simp: usize_saturating_mul_def min_def split: if_splits)
    with False "1.prems" show ?thesis
      by (intro exI [of _ i]) (simp add: double_below.simps [of "2 ^ i"])
  qed
qed

lemma largest_power:
  assumes "2 \<le> n" and "n \<le> usize_max"
  obtains j where "largest_power_of_two_below n = 2 ^ j" "2 ^ j < n" "n \<le> 2 ^ Suc j"
  using double_below_power [of n 0] assms by (auto simp: largest_power_of_two_below_def)

function merkle_root :: "libs \<Rightarrow> content_hash list \<Rightarrow> content_hash" where
  "merkle_root L leaves =
     (if leaves = [] then sha256 L []
      else if length leaves = 1 then leaf_hash L (hd leaves)
      else (let k = largest_power_of_two_below (length leaves) in
            node_hash L (merkle_root L (take k leaves)) (merkle_root L (drop k leaves))))"
  by pat_completeness auto
termination
proof (relation "measure (\<lambda>(L, leaves). length leaves)", simp_all)
  fix leaves :: "content_hash list"
  assume "leaves \<noteq> []" "length leaves \<noteq> Suc 0"
  then have "2 \<le> length leaves" by (cases leaves rule: list.exhaust; cases "tl leaves") auto
  from largest_power_bounds [OF this]
  show "min (length leaves) (largest_power_of_two_below (length leaves)) < length leaves"
    and "length leaves - largest_power_of_two_below (length leaves) < length leaves"
    using \<open>2 \<le> length leaves\<close> by linarith+
qed

declare merkle_root.simps [simp del]

lemma merkle_root_Nil [simp]: "merkle_root L [] = sha256 L []"
  by (simp add: merkle_root.simps)

lemma merkle_root_single [simp]: "merkle_root L [h] = leaf_hash L h"
  by (simp add: merkle_root.simps)

lemma merkle_root_many:
  "2 \<le> length hs \<Longrightarrow> merkle_root L hs =
     node_hash L (merkle_root L (take (largest_power_of_two_below (length hs)) hs))
       (merkle_root L (drop (largest_power_of_two_below (length hs)) hs))"
  by (subst merkle_root.simps) (auto simp: Let_def)

text \<open>Induction over the shape of the tree: empty, one leaf, or two parts.\<close>

lemma tree_induct [case_names Nil Single Split]:
  assumes "P []" and "\<And>h. P [h]"
    and "\<And>hs. 2 \<le> length hs \<Longrightarrow> P (take (largest_power_of_two_below (length hs)) hs) \<Longrightarrow>
      P (drop (largest_power_of_two_below (length hs)) hs) \<Longrightarrow> P hs"
  shows "P hs"
proof (induction hs rule: length_induct)
  case (1 hs)
  show ?case
  proof (cases "2 \<le> length hs")
    case True
    let ?k = "largest_power_of_two_below (length hs)"
    have "length (take ?k hs) < length hs" "length (drop ?k hs) < length hs"
      using largest_power_bounds [OF True] by (simp_all add: min_def)
    with "1.IH" have "P (take ?k hs)" "P (drop ?k hs)" by blast+
    with True show ?thesis by (rule assms(3))
  next
    case False
    then have "hs = [] \<or> (\<exists>h. hs = [h])" by (cases hs; cases "tl hs") auto
    with assms(1,2) show ?thesis by blast
  qed
qed

subsection \<open>The head determines the leaves\<close>

text \<open>The strings hashed to compute a head.\<close>

function merkle_preimages :: "libs \<Rightarrow> content_hash list \<Rightarrow> string set" where
  "merkle_preimages L leaves =
     (if leaves = [] then {[]}
      else if length leaves = 1 then {leaf_prefix # as_bytes (hd leaves)}
      else (let k = largest_power_of_two_below (length leaves) in
            insert (node_prefix # as_bytes (merkle_root L (take k leaves)) @
                      as_bytes (merkle_root L (drop k leaves)))
              (merkle_preimages L (take k leaves) \<union> merkle_preimages L (drop k leaves))))"
  by pat_completeness auto
termination
proof (relation "measure (\<lambda>(L, leaves). length leaves)", simp_all)
  fix leaves :: "content_hash list"
  assume "leaves \<noteq> []" "length leaves \<noteq> Suc 0"
  then have "2 \<le> length leaves" by (cases leaves rule: list.exhaust; cases "tl leaves") auto
  from largest_power_bounds [OF this]
  show "min (length leaves) (largest_power_of_two_below (length leaves)) < length leaves"
    and "length leaves - largest_power_of_two_below (length leaves) < length leaves"
    using \<open>2 \<le> length leaves\<close> by linarith+
qed

declare merkle_preimages.simps [simp del]

lemma merkle_preimages_Nil [simp]: "merkle_preimages L [] = {[]}"
  by (simp add: merkle_preimages.simps)

lemma merkle_preimages_single [simp]:
  "merkle_preimages L [h] = {leaf_prefix # as_bytes h}"
  by (simp add: merkle_preimages.simps)

lemma merkle_preimages_many:
  "2 \<le> length hs \<Longrightarrow> merkle_preimages L hs =
     (let k = largest_power_of_two_below (length hs) in
      insert (node_prefix # as_bytes (merkle_root L (take k hs)) @ as_bytes (merkle_root L (drop k hs)))
        (merkle_preimages L (take k hs) \<union> merkle_preimages L (drop k hs)))"
  by (subst merkle_preimages.simps) (auto simp: Let_def)

lemma two_hashes_inject:
  "as_bytes a @ as_bytes b = as_bytes c @ as_bytes d \<longleftrightarrow> a = c \<and> b = d"
  by (simp add: append_eq_append_conv)

definition root_preimage :: "libs \<Rightarrow> content_hash list \<Rightarrow> string" where
  "root_preimage L hs =
     (if hs = [] then []
      else if length hs = 1 then leaf_prefix # as_bytes (hd hs)
      else (let k = largest_power_of_two_below (length hs) in
        node_prefix # as_bytes (merkle_root L (take k hs)) @ as_bytes (merkle_root L (drop k hs))))"

lemma merkle_root_preimage: "merkle_root L hs = sha256 L (root_preimage L hs)"
  by (subst merkle_root.simps) (simp add: root_preimage_def leaf_hash_def node_hash_def Let_def)

lemma root_preimage_in: "root_preimage L hs \<in> merkle_preimages L hs"
  by (subst merkle_preimages.simps) (simp add: root_preimage_def Let_def)

lemma prefixes_differ [simp]: "leaf_prefix \<noteq> node_prefix" "node_prefix \<noteq> leaf_prefix"
  by (simp_all add: leaf_prefix_def node_prefix_def)

lemma length_ge_2: "2 \<le> length xs \<longleftrightarrow> xs \<noteq> [] \<and> length xs \<noteq> 1"
  by (cases xs; cases "tl xs") auto

lemma same_root_preimage:
  assumes "merkle_root L xs = merkle_root L ys"
    and "no_collision L (merkle_preimages L xs \<union> merkle_preimages L ys)"
  shows "root_preimage L xs = root_preimage L ys"
  by (rule no_collisionD [OF assms(2)])
    (use assms(1) root_preimage_in in \<open>auto simp: merkle_root_preimage sha256_def\<close>)

lemma merkle_root_inject:
  assumes "merkle_root L xs = merkle_root L ys"
    and "no_collision L (merkle_preimages L xs \<union> merkle_preimages L ys)"
  shows "xs = ys"
  using assms
proof (induction xs arbitrary: ys rule: tree_induct)
  case Nil
  have "root_preimage L [] = root_preimage L ys"
    by (rule same_root_preimage [OF Nil.prems])
  then show ?case by (auto simp: root_preimage_def Let_def split: if_splits)
next
  case (Single h)
  have "root_preimage L [h] = root_preimage L ys"
    by (rule same_root_preimage [OF Single.prems])
  then show ?case
    by (cases ys) (auto simp: root_preimage_def Let_def split: if_splits)
next
  case (Split xs)
  have eq: "root_preimage L xs = root_preimage L ys"
    by (rule same_root_preimage [OF Split.prems])
  with Split.hyps have ys: "2 \<le> length ys"
    by (auto simp: root_preimage_def Let_def length_ge_2 split: if_splits)
  let ?k = "largest_power_of_two_below (length xs)" and ?l = "largest_power_of_two_below (length ys)"
  from eq Split.hyps ys have
    "merkle_root L (take ?k xs) = merkle_root L (take ?l ys)"
    "merkle_root L (drop ?k xs) = merkle_root L (drop ?l ys)"
    by (simp_all add: root_preimage_def Let_def length_ge_2 two_hashes_inject)
  moreover have
    "no_collision L (merkle_preimages L (take ?k xs) \<union> merkle_preimages L (take ?l ys))"
    "no_collision L (merkle_preimages L (drop ?k xs) \<union> merkle_preimages L (drop ?l ys))"
    by (rule no_collision_mono [OF Split.prems(2)];
      auto simp: merkle_preimages_many [OF Split.hyps] merkle_preimages_many [OF ys] Let_def)+
  ultimately have "take ?k xs = take ?l ys" "drop ?k xs = drop ?l ys"
    using Split.IH by blast+
  then show ?case by (metis append_take_drop_id)
qed

subsection \<open>Properties\<close>

text \<open>The RFC 6962 tree head commits to the evidence: two lists of entries with the same head
  are equal, in length and order, unless SHA-256 collides on the strings hashed for the two heads.\<close>

theorem tree_head_commits:
  assumes "merkle_root L xs = merkle_root L ys"
    and "no_collision L (merkle_preimages L xs \<union> merkle_preimages L ys)"
  shows "xs = ys"
  using assms by (rule merkle_root_inject)

theorem tree_head_commits_witness:
  "\<exists>L. libs_ok L \<and> merkle_root L [hash_of_byte (CHR 0x01)] \<noteq> merkle_root L []"
proof (intro exI conjI notI)
  let ?L = "demo_libs (\<lambda>s. hash_of_byte (if s = [] then CHR 0x00 else CHR 0x01))"
  show "libs_ok ?L" by simp
  assume "merkle_root ?L [hash_of_byte (CHR 0x01)] = merkle_root ?L []"
  from tree_head_commits [OF this] show False by (simp add: no_collision_def)
qed

text \<open>The loop as the code writes it, with no guard but its condition.\<close>

lemma while_double_below:
  "0 < k \<Longrightarrow> n \<le> usize_max \<Longrightarrow>
     while_option (\<lambda>k. usize_saturating_mul k 2 < n) (\<lambda>k. usize_saturating_mul k 2) k = Some (double_below k n)"
proof (induction k n rule: double_below.induct)
  case (1 k n)
  then show ?case
    using saturating_double_grows [of k n]
    by (subst while_option_unfold, subst double_below.simps) auto
qed

text \<open>C35: The search for the split point ends: for every length a slice can have, the loop \<open>while
  k.saturating_mul(2) < n\<close> starting from one halts, although the doubling saturates at the end of
  the machine range, and for at least two leaves it yields the largest power of two below their number, so
  that both parts of the split are shorter and the recursion over the tree ends too.\<close>

theorem split_search_halts:
  assumes "n \<le> usize_max"
  shows "while_option (\<lambda>k. usize_saturating_mul k 2 < n) (\<lambda>k. usize_saturating_mul k 2) 1 =
      Some (largest_power_of_two_below n) \<and>
    (2 \<le> n \<longrightarrow> (\<exists>j. largest_power_of_two_below n = 2 ^ j \<and> 2 ^ j < n \<and> n \<le> 2 ^ Suc j \<and>
      n - largest_power_of_two_below n < n))"
proof -
  have "\<exists>j. largest_power_of_two_below n = 2 ^ j \<and> 2 ^ j < n \<and> n \<le> 2 ^ Suc j \<and> n - largest_power_of_two_below n < n" if two: "2 \<le> n"
  proof -
    obtain j where "largest_power_of_two_below n = 2 ^ j" "2 ^ j < n" "n \<le> 2 ^ Suc j" using largest_power [OF two assms] by blast
    then show ?thesis using largest_power_bounds [OF two] by auto
  qed
  with while_double_below [of 1 n] assms show ?thesis by (simp add: largest_power_of_two_below_def)
qed

theorem split_search_halts_witness:
  "while_option (\<lambda>k. usize_saturating_mul k 2 < usize_max) (\<lambda>k. usize_saturating_mul k 2) 1 =
     Some (largest_power_of_two_below usize_max) \<and> largest_power_of_two_below usize_max < usize_max"
  using split_search_halts [of usize_max] by (auto simp: usize_max_def)

end
