(* ===== verification/Aggregation.thy ===== *)
theory Aggregation
  imports Merkle
begin

section \<open>Merkle aggregation and inclusion proofs (treasury-anchor, aggregation.rs)\<close>

text \<open>
  Models \<open>crates/treasury-anchor/src/aggregation.rs\<close>: the audit paths that
  \<open>merkle_root\<close> does not return, and their verification, which walks from the leaf to the
  root while it shifts the leaf's index and the index of the last leaf. \<open>verify_step\<close> is
  the body of the loop over the audit path and \<open>shift_even\<close> its inner loop.
\<close>

record inclusion_proof =
  leaf_index :: nat
  tree_size :: nat
  audit_path_of :: "content_hash list"

record aggregation =
  agg_root :: content_hash
  agg_proofs :: "inclusion_proof list"

definition agg_leaf_prefix :: char where "agg_leaf_prefix = CHR 0x00"

definition agg_node_prefix :: char where "agg_node_prefix = CHR 0x01"

definition agg_leaf_hash :: "libs \<Rightarrow> content_hash \<Rightarrow> content_hash" where
  "agg_leaf_hash L entry = sha256 L ([agg_leaf_prefix] @ as_bytes entry)"

definition agg_node_hash :: "libs \<Rightarrow> content_hash \<Rightarrow> content_hash \<Rightarrow> content_hash" where
  "agg_node_hash L left right = sha256 L (([agg_node_prefix] @ as_bytes left) @ as_bytes right)"

definition subtree_root :: "libs \<Rightarrow> content_hash list \<Rightarrow> content_hash" where
  "subtree_root L entries = merkle_root L entries"

definition split_entries :: "content_hash list \<Rightarrow> nat \<Rightarrow> (content_hash list \<times> content_hash list) option"
where
  "split_entries entries k =
     (if k \<le> length entries then Some (take k entries, drop k entries) else None)"

text \<open>The crate's own copy of the search for the split point, and that it is the one of the tree heads.\<close>

function agg_double_below :: "nat \<Rightarrow> nat \<Rightarrow> nat" where
  "agg_double_below k n =
     (if 0 < k \<and> n \<le> usize_max \<and> usize_saturating_mul k 2 < n
      then agg_double_below (usize_saturating_mul k 2) n else k)"
  by pat_completeness auto
termination
  by (relation "measure (\<lambda>(k, n). n - k)") (auto dest!: saturating_double_grows intro: diff_less_mono2)

definition agg_largest_power_of_two_below :: "nat \<Rightarrow> nat" where
  "agg_largest_power_of_two_below n = agg_double_below 1 n"

lemma agg_double_below_eq: "agg_double_below k n = double_below k n"
  by (induction k n rule: agg_double_below.induct) (simp add: double_below.simps)

declare agg_double_below.simps [simp del]

lemma agg_split_point [simp]: "agg_largest_power_of_two_below = largest_power_of_two_below"
  by (simp add: fun_eq_iff agg_largest_power_of_two_below_def largest_power_of_two_below_def agg_double_below_eq)

function audit_path :: "libs \<Rightarrow> nat \<Rightarrow> content_hash list \<Rightarrow> content_hash list" where
  "audit_path L m entries =
     (if length entries \<le> 1 then []
      else (let k = agg_largest_power_of_two_below (length entries) in
        (case split_entries entries k of
           None \<Rightarrow> []
         | Some (left, right) \<Rightarrow>
             (if m < k then audit_path L m left @ [subtree_root L right]
              else audit_path L (m - k) right @ [subtree_root L left]))))"
  by pat_completeness auto
termination
proof (relation "measure (\<lambda>(L, m, entries). length entries)")
  fix L :: libs and m k :: nat and entries left right :: "content_hash list" and lr
  assume long: "\<not> length entries \<le> 1" and k: "k = agg_largest_power_of_two_below (length entries)"
    and split: "split_entries entries k = Some lr" "(left, right) = lr"
  have "0 < k" "k < length entries" using long k largest_power_bounds [of "length entries"] by auto
  with split have "length left < length entries" "length right < length entries"
    by (auto simp: split_entries_def)
  then show "((L, m, left), L, m, entries) \<in> measure (\<lambda>(L, m, entries). length entries)"
    and "((L, m - k, right), L, m, entries) \<in> measure (\<lambda>(L, m, entries). length entries)"
    by simp_all
qed simp

declare audit_path.simps [simp del]

definition aggregate :: "libs \<Rightarrow> content_hash list \<Rightarrow> aggregation option" where
  "aggregate L heads =
     (if heads = [] then None
      else Some \<lparr>agg_root = merkle_root L heads,
        agg_proofs = map (\<lambda>index. \<lparr>leaf_index = index, tree_size = length heads,
                                    audit_path_of = audit_path L index heads\<rparr>) [0..<length heads]\<rparr>)"

fun shift_even :: "nat \<Rightarrow> nat \<Rightarrow> nat \<times> nat" where
  "shift_even fn_idx sn =
     (if fn_idx \<noteq> 0 \<and> even fn_idx then shift_even (fn_idx div 2) (sn div 2) else (fn_idx, sn))"

declare shift_even.simps [simp del]

definition verify_step :: "libs \<Rightarrow> content_hash \<Rightarrow> nat \<times> nat \<times> content_hash
  \<Rightarrow> (nat \<times> nat \<times> content_hash) option" where
  "verify_step L sibling st =
     (case st of (fn_idx, sn, hash) \<Rightarrow>
        if sn = 0 then None
        else if odd fn_idx \<or> fn_idx = sn
        then (let (f, s) = shift_even fn_idx sn
              in Some (f div 2, s div 2, agg_node_hash L sibling hash))
        else Some (fn_idx div 2, sn div 2, agg_node_hash L hash sibling))"

fun verify_path :: "libs \<Rightarrow> content_hash list \<Rightarrow> nat \<times> nat \<times> content_hash
  \<Rightarrow> (nat \<times> nat \<times> content_hash) option" where
  "verify_path L [] st = Some st"
| "verify_path L (sibling # path) st = Option.bind (verify_step L sibling st) (verify_path L path)"

definition verify_inclusion :: "libs \<Rightarrow> content_hash \<Rightarrow> inclusion_proof \<Rightarrow> content_hash \<Rightarrow> bool" where
  "verify_inclusion L head proof root =
     (if tree_size proof \<le> leaf_index proof then False
      else (case verify_path L (audit_path_of proof)
                   (leaf_index proof, tree_size proof - 1, agg_leaf_hash L head) of
              None \<Rightarrow> False
            | Some (_, sn, hash) \<Rightarrow> sn = 0 \<and> hash = root))"

subsection \<open>The walk along a path\<close>

lemma agg_hash_simps [simp]: "agg_leaf_hash = leaf_hash" "agg_node_hash = node_hash"
  by (auto simp: fun_eq_iff agg_leaf_hash_def leaf_hash_def agg_node_hash_def node_hash_def
      agg_leaf_prefix_def leaf_prefix_def agg_node_prefix_def node_prefix_def)

text \<open>The strings hashed while a path is walked.\<close>

fun walk_preimages :: "libs \<Rightarrow> content_hash list \<Rightarrow> nat \<times> nat \<times> content_hash \<Rightarrow> string set" where
  "walk_preimages L [] st = {}"
| "walk_preimages L (sibling # path) (f, s, hash) =
     insert (if odd f \<or> f = s then node_prefix # as_bytes sibling @ as_bytes hash
             else node_prefix # as_bytes hash @ as_bytes sibling)
       (case verify_step L sibling (f, s, hash) of
          None \<Rightarrow> {} | Some st \<Rightarrow> walk_preimages L path st)"

lemma walk_preimages_append:
  "verify_path L p (f, s, h) = Some (f', s', h') \<Longrightarrow>
     walk_preimages L (p @ q) (f, s, h) = walk_preimages L p (f, s, h) \<union> walk_preimages L q (f', s', h')"
proof (induction p arbitrary: f s h)
  case (Cons x p)
  then obtain f1 s1 h1 where "verify_step L x (f, s, h) = Some (f1, s1, h1)" "verify_path L p (f1, s1, h1) = Some (f', s', h')"
    by (auto simp: bind_eq_Some_conv)
  with Cons.IH [of f1 s1 h1] show ?case by simp
qed simp

lemma verify_path_append:
  "verify_path L (p @ q) st = Option.bind (verify_path L p st) (verify_path L q)"
  by (induction p arbitrary: st) (auto split: bind_splits)

lemma audit_path_many:
  assumes "2 \<le> length hs" and "k = largest_power_of_two_below (length hs)"
  shows "audit_path L m hs =
    (if m < k then audit_path L m (take k hs) @ [merkle_root L (drop k hs)]
     else audit_path L (m - k) (drop k hs) @ [merkle_root L (take k hs)])"
  using assms largest_power_bounds(2) [OF assms(1)]
  by (subst audit_path.simps) (simp add: split_entries_def subtree_root_def Let_def)

lemma audit_path_single [simp]: "audit_path L m [h] = []"
  by (simp add: audit_path.simps)

lemma shift_even_power: "odd c \<Longrightarrow> shift_even (c * 2 ^ j) (c * 2 ^ j) = (c, c)"
proof (induction j)
  case 0
  then show ?case by (simp add: shift_even.simps [of c])
next
  case (Suc j)
  then have "c \<noteq> 0" by (cases c) auto
  with Suc show ?case by (subst shift_even.simps) simp
qed

lemma shift_even_odd: "odd f \<Longrightarrow> shift_even f s = (f, s)"
  by (simp add: shift_even.simps [of f])

lemma perfect_split:
  assumes "length hs = 2 ^ Suc h" and "length hs \<le> usize_max"
  shows "largest_power_of_two_below (length hs) = 2 ^ h"
proof -
  have "2 \<le> length hs" using assms(1) by simp
  then obtain j where j: "largest_power_of_two_below (length hs) = 2 ^ j"
    and "2 ^ j < length hs" "length hs \<le> 2 ^ Suc j"
    using largest_power [OF _ assms(2)] by blast
  with assms(1) have "(2::nat) ^ j < 2 ^ Suc h" "(2::nat) ^ Suc h \<le> 2 ^ Suc j" by simp_all
  then have "j < Suc h" "Suc h \<le> Suc j"
    using power_less_imp_less_exp [of "2::nat" j "Suc h"] power_le_imp_le_exp [of "2::nat" "Suc h" "Suc j"]
    by simp_all
  then have "j = h" by simp
  with j show ?thesis by simp
qed

text \<open>A perfect subtree that is not the last one of its level.\<close>

lemma walk_interior:
  assumes "length hs = 2 ^ h" and "length hs \<le> usize_max" and "m < 2 ^ h" and "(c + 1) * 2 ^ h \<le> sn"
  shows "verify_path L (audit_path L m hs) (c * 2 ^ h + m, sn, leaf_hash L (hs ! m)) =
      Some (c, sn div 2 ^ h, merkle_root L hs) \<and>
    walk_preimages L (audit_path L m hs) (c * 2 ^ h + m, sn, leaf_hash L (hs ! m)) \<subseteq> merkle_preimages L hs"
  using assms
proof (induction h arbitrary: hs m c)
  case 0
  then obtain x where "hs = [x]" by (cases hs) auto
  with 0 show ?case by simp
next
  case (Suc h)
  define k where "k = (2::nat) ^ h"
  have two: "2 \<le> length hs" using Suc.prems(1) by simp
  have split: "k = largest_power_of_two_below (length hs)"
    using perfect_split [OF Suc.prems(1,2)] by (simp add: k_def)
  have len: "length (take k hs) = 2 ^ h" "length (drop k hs) = 2 ^ h"
    using Suc.prems(1) by (simp_all add: k_def)
  have small: "length (take k hs) \<le> usize_max" "length (drop k hs) \<le> usize_max"
    using Suc.prems(2) by simp_all
  have root: "merkle_root L hs = node_hash L (merkle_root L (take k hs)) (merkle_root L (drop k hs))"
    using merkle_root_many [OF two] split by simp
  have pre: "merkle_preimages L hs = insert (node_prefix # as_bytes (merkle_root L (take k hs)) @ as_bytes (merkle_root L (drop k hs)))
      (merkle_preimages L (take k hs) \<union> merkle_preimages L (drop k hs))"
    using merkle_preimages_many [OF two] split by (simp add: Let_def)
  have "(2 * c + 2) * 2 ^ h \<le> sn" using Suc.prems(4) by (simp add: algebra_simps)
  then have top: "2 * c + 2 \<le> sn div 2 ^ h" by (simp add: less_eq_div_iff_mult_less_eq)
  show ?case
  proof (cases "m < k")
    case True
    have "verify_path L (audit_path L m (take k hs)) (2 * c * 2 ^ h + m, sn, leaf_hash L (take k hs ! m)) =
        Some (2 * c, sn div 2 ^ h, merkle_root L (take k hs)) \<and>
      walk_preimages L (audit_path L m (take k hs)) (2 * c * 2 ^ h + m, sn, leaf_hash L (take k hs ! m)) \<subseteq>
        merkle_preimages L (take k hs)"
      by (rule Suc.IH [OF len(1) small(1)]) (use True Suc.prems in \<open>simp_all add: k_def algebra_simps\<close>)
    with True top show ?thesis
      by (auto simp: audit_path_many [OF two split] verify_path_append verify_step_def root pre walk_preimages_append
        div_mult2_eq [symmetric] mult.commute mult.assoc mult.left_commute)
  next
    case False
    have "verify_path L (audit_path L (m - k) (drop k hs))
        ((2 * c + 1) * 2 ^ h + (m - k), sn, leaf_hash L (drop k hs ! (m - k))) =
        Some (2 * c + 1, sn div 2 ^ h, merkle_root L (drop k hs)) \<and>
      walk_preimages L (audit_path L (m - k) (drop k hs))
        ((2 * c + 1) * 2 ^ h + (m - k), sn, leaf_hash L (drop k hs ! (m - k))) \<subseteq> merkle_preimages L (drop k hs)"
      by (rule Suc.IH [OF len(2) small(2)]) (use False Suc.prems in \<open>simp_all add: k_def algebra_simps\<close>)
    moreover have "(2 * c + 1) * 2 ^ h + (m - k) = c * 2 ^ Suc h + m"
      using False by (simp add: k_def algebra_simps)
    ultimately show ?thesis using False top Suc.prems(1,3)
      by (auto simp: audit_path_many [OF two split] verify_path_append verify_step_def root pre walk_preimages_append
        shift_even_odd div_mult2_eq [symmetric] mult.commute)
  qed
qed

text \<open>The last subtree of its level, perfect or not: \<open>h\<close> is its height.\<close>

lemma walk_rightmost:
  assumes "hs \<noteq> []" and "length hs \<le> usize_max"
  shows "\<exists>h. (\<forall>i. length hs \<le> 2 ^ i \<longrightarrow> h \<le> i) \<and>
    (\<forall>c m. m < length hs \<longrightarrow>
      verify_path L (audit_path L m hs)
        (c * 2 ^ h + m, c * 2 ^ h + (length hs - 1), leaf_hash L (hs ! m)) =
        Some (c, c, merkle_root L hs) \<and>
      walk_preimages L (audit_path L m hs)
        (c * 2 ^ h + m, c * 2 ^ h + (length hs - 1), leaf_hash L (hs ! m)) \<subseteq> merkle_preimages L hs)"
  using assms
proof (induction hs rule: tree_induct)
  case Nil
  then show ?case by simp
next
  case (Single x)
  show ?case by (rule exI [of _ 0]) simp
next
  case (Split hs)
  define k where "k = largest_power_of_two_below (length hs)"
  obtain j where k: "k = 2 ^ j" and low: "2 ^ j < length hs" and high: "length hs \<le> 2 ^ Suc j"
    using largest_power [OF Split.hyps Split.prems(2)] by (auto simp: k_def)
  have root: "merkle_root L hs = node_hash L (merkle_root L (take k hs)) (merkle_root L (drop k hs))"
    using merkle_root_many [OF Split.hyps] by (simp add: k_def)
  have pre: "merkle_preimages L hs = insert (node_prefix # as_bytes (merkle_root L (take k hs)) @ as_bytes (merkle_root L (drop k hs)))
      (merkle_preimages L (take k hs) \<union> merkle_preimages L (drop k hs))"
    using merkle_preimages_many [OF Split.hyps] by (simp add: k_def Let_def)
  have "drop k hs \<noteq> []" "length (drop k hs) \<le> usize_max"
    using low k Split.prems(2) by simp_all
  then obtain h where least: "\<forall>i. length (drop k hs) \<le> 2 ^ i \<longrightarrow> h \<le> i" and right:
    "\<And>c m. m < length (drop k hs) \<Longrightarrow> verify_path L (audit_path L m (drop k hs))
        (c * 2 ^ h + m, c * 2 ^ h + (length (drop k hs) - 1), leaf_hash L (drop k hs ! m)) =
        Some (c, c, merkle_root L (drop k hs)) \<and>
      walk_preimages L (audit_path L m (drop k hs))
        (c * 2 ^ h + m, c * 2 ^ h + (length (drop k hs) - 1), leaf_hash L (drop k hs ! m)) \<subseteq> merkle_preimages L (drop k hs)"
    using Split.IH(2) unfolding k_def [symmetric] by blast
  have "h \<le> j" using least high by (simp add: k)
  have goal: "verify_path L (audit_path L m hs)
      (c * 2 ^ Suc j + m, c * 2 ^ Suc j + (length hs - 1), leaf_hash L (hs ! m)) =
        Some (c, c, merkle_root L hs) \<and>
      walk_preimages L (audit_path L m hs)
        (c * 2 ^ Suc j + m, c * 2 ^ Suc j + (length hs - 1), leaf_hash L (hs ! m)) \<subseteq> merkle_preimages L hs" if m: "m < length hs" for c m
  proof (cases "m < k")
    case True
    have "length (take k hs) = 2 ^ j" using low k by simp
    moreover have "(2 * c + 1) * 2 ^ j \<le> c * 2 ^ Suc j + (length hs - 1)"
      using low by (simp add: algebra_simps)
    ultimately have "verify_path L (audit_path L m (take k hs))
        (c * 2 ^ Suc j + m, c * 2 ^ Suc j + (length hs - 1), leaf_hash L (take k hs ! m)) =
        Some (2 * c, (c * 2 ^ Suc j + (length hs - 1)) div 2 ^ j, merkle_root L (take k hs)) \<and>
      walk_preimages L (audit_path L m (take k hs))
        (c * 2 ^ Suc j + m, c * 2 ^ Suc j + (length hs - 1), leaf_hash L (take k hs ! m)) \<subseteq> merkle_preimages L (take k hs)"
      using True k Split.prems(2) walk_interior [of "take k hs" j m "2 * c"] by (simp add: algebra_simps)
    moreover have "(c * 2 ^ Suc j + (length hs - 1)) div 2 ^ j = 2 * c + 1"
      using low high by (intro div_nat_eqI) (auto simp: algebra_simps)
    ultimately show ?thesis using True
      by (auto simp: audit_path_many [OF Split.hyps k_def] verify_path_append verify_step_def root pre walk_preimages_append)
  next
    case False
    define d where "d = (2 * c + 1) * 2 ^ (j - h)"
    have d: "d * 2 ^ h = c * 2 ^ Suc j + k" "0 < d" "shift_even d d = (2 * c + 1, 2 * c + 1)"
      using \<open>h \<le> j\<close> shift_even_power [of "2 * c + 1" "j - h"]
      by (simp_all add: d_def k algebra_simps power_add [symmetric])
    have "verify_path L (audit_path L (m - k) (drop k hs))
        (d * 2 ^ h + (m - k), d * 2 ^ h + (length (drop k hs) - 1), leaf_hash L (drop k hs ! (m - k))) =
        Some (d, d, merkle_root L (drop k hs)) \<and>
      walk_preimages L (audit_path L (m - k) (drop k hs))
        (d * 2 ^ h + (m - k), d * 2 ^ h + (length (drop k hs) - 1), leaf_hash L (drop k hs ! (m - k))) \<subseteq>
        merkle_preimages L (drop k hs)"
      by (rule right) (use m False in simp)
    with False m low show ?thesis
      by (auto simp: audit_path_many [OF Split.hyps k_def] verify_path_append verify_step_def root pre walk_preimages_append d k)
  qed
  have "Suc j \<le> i" if "length hs \<le> 2 ^ i" for i
  proof -
    have "(2::nat) ^ j < 2 ^ i" using low that by (rule order.strict_trans2)
    from power_less_imp_less_exp [OF _ this] show ?thesis by simp
  qed
  with goal show ?case by blast
qed

lemma audit_path_walk:
  assumes "m < length hs" and "length hs \<le> usize_max"
  shows "verify_path L (audit_path L m hs) (m, length hs - 1, leaf_hash L (hs ! m)) = Some (0, 0, merkle_root L hs)"
    and "walk_preimages L (audit_path L m hs) (m, length hs - 1, leaf_hash L (hs ! m)) \<subseteq> merkle_preimages L hs"
proof -
  have "hs \<noteq> []" using assms(1) by auto
  then obtain h where "\<forall>c m. m < length hs \<longrightarrow> verify_path L (audit_path L m hs)
      (c * 2 ^ h + m, c * 2 ^ h + (length hs - 1), leaf_hash L (hs ! m)) = Some (c, c, merkle_root L hs) \<and>
      walk_preimages L (audit_path L m hs) (c * 2 ^ h + m, c * 2 ^ h + (length hs - 1), leaf_hash L (hs ! m)) \<subseteq> merkle_preimages L hs"
    using walk_rightmost [OF _ assms(2)] by blast
  from this [rule_format, OF assms(1), of 0]
  show "verify_path L (audit_path L m hs) (m, length hs - 1, leaf_hash L (hs ! m)) = Some (0, 0, merkle_root L hs)"
    "walk_preimages L (audit_path L m hs) (m, length hs - 1, leaf_hash L (hs ! m)) \<subseteq> merkle_preimages L hs" by simp_all
qed

subsection \<open>Accepted proofs\<close>

lemma node_hash_inject:
  assumes "no_collision L S" and "node_hash L a b = node_hash L c d"
    and "node_prefix # as_bytes a @ as_bytes b \<in> S" and "node_prefix # as_bytes c @ as_bytes d \<in> S"
  shows "a = c \<and> b = d"
  using no_collisionD [OF assms(1,3,4)] assms(2)
  by (simp add: node_hash_def sha256_def two_hashes_inject)

text \<open>The indices of a walk do not depend on the hashes, so two walks from the same index
  that both reach the top with the same hash are the same walk.\<close>

lemma walk_unique:
  assumes "verify_path L p (f, s, a) = Some (f1, 0, r)" and "verify_path L q (f, s, b) = Some (f2, 0, r)"
    and "no_collision L S" and "walk_preimages L p (f, s, a) \<subseteq> S" and "walk_preimages L q (f, s, b) \<subseteq> S"
  shows "p = q \<and> a = b"
  using assms
proof (induction p arbitrary: q f s a b)
  case Nil
  then show ?case by (cases q) (simp_all add: verify_step_def)
next
  case (Cons x p)
  obtain y q' where q: "q = y # q'"
    using Cons.prems(1,2) by (cases q) (auto simp: verify_step_def)
  have "s \<noteq> 0" using Cons.prems(1) by (intro notI) (simp add: verify_step_def)
  define n where "n z h = (if odd f \<or> f = s then node_hash L z h else node_hash L h z)" for z h
  define pre where "pre z h = (if odd f \<or> f = s then node_prefix # as_bytes z @ as_bytes h
    else node_prefix # as_bytes h @ as_bytes z)" for z h
  obtain f' s' where nxt: "\<And>z h. verify_step L z (f, s, h) = Some (f', s', n z h)"
    using \<open>s \<noteq> 0\<close>
    by (cases "odd f \<or> f = s"; cases "shift_even f s") (auto simp: verify_step_def n_def)
  have walk: "verify_path L p (f', s', n x a) = Some (f1, 0, r)" "verify_path L q' (f', s', n y b) = Some (f2, 0, r)"
    using Cons.prems(1,2) by (simp_all add: q nxt)
  have pre: "walk_preimages L p (f', s', n x a) \<subseteq> S" "walk_preimages L q' (f', s', n y b) \<subseteq> S"
    "pre x a \<in> S" "pre y b \<in> S"
    using Cons.prems(4,5) by (simp_all add: q nxt pre_def)
  have same: "p = q' \<and> n x a = n y b" by (rule Cons.IH [OF walk Cons.prems(3) pre(1,2)])
  have "x = y \<and> a = b"
  proof (cases "odd f \<or> f = s")
    case True
    then show ?thesis using node_hash_inject [OF Cons.prems(3), of x a y b] same pre(3,4)
      by (simp only: n_def pre_def if_True simp_thms)
  next
    case False
    then show ?thesis using node_hash_inject [OF Cons.prems(3), of a x b y] same pre(3,4)
      by (simp only: n_def pre_def if_False simp_thms)
  qed
  with same q show ?case by simp
qed

lemma leaf_hash_inject:
  assumes "no_collision L S" and "leaf_hash L a = leaf_hash L b"
    and "leaf_prefix # as_bytes a \<in> S" and "leaf_prefix # as_bytes b \<in> S"
  shows "a = b"
  using no_collisionD [OF assms(1,3,4)] assms(2) by (simp add: leaf_hash_def sha256_def)

text \<open>The strings hashed when a proof is checked.\<close>

definition proof_preimages :: "libs \<Rightarrow> content_hash \<Rightarrow> inclusion_proof \<Rightarrow> string set" where
  "proof_preimages L head proof =
     insert (leaf_prefix # as_bytes head)
       (walk_preimages L (audit_path_of proof) (leaf_index proof, tree_size proof - 1, leaf_hash L head))"

definition honest_proof :: "libs \<Rightarrow> content_hash list \<Rightarrow> nat \<Rightarrow> inclusion_proof" where
  "honest_proof L heads i =
     \<lparr>leaf_index = i, tree_size = length heads, audit_path_of = audit_path L i heads\<rparr>"

lemma verify_inclusion_iff:
  "verify_inclusion L head pr root \<longleftrightarrow> leaf_index pr < tree_size pr \<and>
     (\<exists>f. verify_path L (audit_path_of pr) (leaf_index pr, tree_size pr - 1, leaf_hash L head) = Some (f, 0, root))"
  by (auto simp: verify_inclusion_def split: option.splits)

lemma aggregate_proofs:
  "aggregate L heads = Some agg \<Longrightarrow> i < length heads \<Longrightarrow>
     length (agg_proofs agg) = length heads \<and> agg_proofs agg ! i = honest_proof L heads i
     \<and> agg_root agg = merkle_root L heads"
  by (auto simp: aggregate_def honest_proof_def split: if_splits)

lemma honest_proof_verifies:
  assumes "i < length heads" and "length heads \<le> usize_max"
  shows "verify_inclusion L (heads ! i) (honest_proof L heads i) (merkle_root L heads)"
  using audit_path_walk(1) [OF assms] assms(1) by (simp add: verify_inclusion_iff honest_proof_def)

lemma leaf_preimage_in: "h \<in> set hs \<Longrightarrow> leaf_prefix # as_bytes h \<in> merkle_preimages L hs"
proof (induction hs rule: tree_induct)
  case (Split hs)
  have "h \<in> set (take (largest_power_of_two_below (length hs)) hs) \<union> set (drop (largest_power_of_two_below (length hs)) hs)"
    using Split.prems by (metis append_take_drop_id set_append)
  then show ?case using Split.IH by (auto simp: merkle_preimages_many [OF Split.hyps] Let_def)
qed simp_all

text \<open>Down from the root: whatever size and index a proof claims, every hash on its walk is the root of some of the
  heads, so the leaf it starts from is the leaf of a head.\<close>

lemma walk_inside:
  assumes "verify_path L p (f, s, a) = Some (f', s', merkle_root L hs)"
    and "no_collision L S" and "walk_preimages L p (f, s, a) \<subseteq> S" and "merkle_preimages L hs \<subseteq> S"
  shows "\<exists>ys. a = merkle_root L ys \<and> set ys \<subseteq> set hs \<and> merkle_preimages L ys \<subseteq> S"
  using assms(1,3,4)
proof (induction p arbitrary: f' s' hs rule: rev_induct)
  case (snoc x p)
  obtain f1 s1 h where walk: "verify_path L p (f, s, a) = Some (f1, s1, h)"
    and last: "verify_step L x (f1, s1, h) = Some (f', s', merkle_root L hs)"
    using snoc.prems(1) by (auto simp: verify_path_append bind_eq_Some_conv)
  define z where "z = (if odd f1 \<or> f1 = s1 then node_prefix # as_bytes x @ as_bytes h else node_prefix # as_bytes h @ as_bytes x)"
  have pre: "walk_preimages L p (f, s, a) \<subseteq> S" "z \<in> S"
    using snoc.prems(2) by (auto simp: walk_preimages_append [OF walk] z_def)
  have "sha256 L z = merkle_root L hs"
    using last by (auto simp: verify_step_def z_def node_hash_def split: if_splits prod.splits)
  then have z: "z = root_preimage L hs"
    using no_collisionD [OF assms(2) pre(2), of "root_preimage L hs"] snoc.prems(3) root_preimage_in [of L hs]
    by (auto simp: merkle_root_preimage sha256_def)
  then have two: "2 \<le> length hs"
    by (auto simp: length_ge_2 root_preimage_def z_def split: if_splits)
  define k where "k = largest_power_of_two_below (length hs)"
  have "root_preimage L hs = node_prefix # as_bytes (merkle_root L (take k hs)) @ as_bytes (merkle_root L (drop k hs))"
    using two by (auto simp: root_preimage_def length_ge_2 k_def Let_def)
  with z have "h = merkle_root L (take k hs) \<or> h = merkle_root L (drop k hs)"
    by (auto simp: z_def two_hashes_inject split: if_splits)
  moreover have "merkle_preimages L (take k hs) \<subseteq> S" "merkle_preimages L (drop k hs) \<subseteq> S"
    using snoc.prems(3) by (auto simp: merkle_preimages_many [OF two] k_def Let_def)
  ultimately show ?case
    using snoc.IH [of f1 s1 "take k hs"] snoc.IH [of f1 s1 "drop k hs"] walk pre(1) set_take_subset [of k hs] set_drop_subset [of k hs]
    by blast
qed auto

lemma accepted_proof_member:
  assumes "verify_inclusion L head pr (merkle_root L heads)"
    and "no_collision L (merkle_preimages L heads \<union> proof_preimages L head pr)" (is "no_collision L ?S")
  shows "head \<in> set heads"
proof -
  obtain f where "verify_path L (audit_path_of pr) (leaf_index pr, tree_size pr - 1, leaf_hash L head) = Some (f, 0, merkle_root L heads)"
    using assms(1) by (auto simp: verify_inclusion_iff)
  from walk_inside [OF this assms(2)] obtain ys where ys: "leaf_hash L head = merkle_root L ys" "set ys \<subseteq> set heads"
    "merkle_preimages L ys \<subseteq> ?S" unfolding proof_preimages_def by blast
  have "leaf_prefix # as_bytes head = root_preimage L ys"
    by (rule no_collisionD [OF assms(2)])
      (use ys root_preimage_in [of L ys] in \<open>auto simp: proof_preimages_def leaf_hash_def merkle_root_preimage sha256_def\<close>)
  then have "ys = [head]"
    by (cases ys; cases "tl ys") (auto simp: root_preimage_def Let_def split: if_splits)
  with ys(2) show ?thesis by simp
qed

lemma accepted_proof_honest:
  assumes "verify_inclusion L head pr (merkle_root L heads)" and "tree_size pr = length heads"
    and "length heads \<le> usize_max"
    and "no_collision L (merkle_preimages L heads \<union> proof_preimages L head pr)" (is "no_collision L ?S")
  shows "leaf_index pr < length heads \<and> head = heads ! leaf_index pr \<and> pr = honest_proof L heads (leaf_index pr)"
proof -
  let ?i = "leaf_index pr"
  obtain f where i: "?i < length heads"
    and w: "verify_path L (audit_path_of pr) (?i, length heads - 1, leaf_hash L head) = Some (f, 0, merkle_root L heads)"
    using assms(1,2) by (auto simp: verify_inclusion_iff)
  have same: "audit_path_of pr = audit_path L ?i heads \<and> leaf_hash L head = leaf_hash L (heads ! ?i)"
    by (rule walk_unique [OF w audit_path_walk(1) [OF i assms(3)] assms(4)])
      (use assms(2) audit_path_walk(2) [OF i assms(3)] in \<open>auto simp: proof_preimages_def\<close>)
  moreover have "head = heads ! ?i"
    by (rule leaf_hash_inject [OF assms(4)])
      (use same leaf_preimage_in [OF nth_mem [OF i]] in \<open>auto simp: proof_preimages_def\<close>)
  ultimately show ?thesis using assms(2) i by (simp add: honest_proof_def)
qed

subsection \<open>Properties\<close>

text \<open>Aggregation and inclusion proofs agree with the evidence store's tree head: the committed
  root is \<open>merkle_root\<close> of the heads, there is one proof per head, and every proof that \<open>aggregate\<close>
  hands out verifies for its head against that root.\<close>

theorem aggregation_complete:
  assumes "aggregate L heads = Some agg" and "i < length heads" and "length heads \<le> usize_max"
  shows "agg_root agg = merkle_root L heads \<and> length (agg_proofs agg) = length heads \<and>
    verify_inclusion L (heads ! i) (agg_proofs agg ! i) (agg_root agg)"
  using aggregate_proofs [OF assms(1,2)] honest_proof_verifies [OF assms(2,3)] by simp

theorem aggregation_complete_witness:
  "verify_inclusion (demo_libs (\<lambda>_. hash_of_byte (CHR 0x05))) (hash_of_byte (CHR 0x02))
     (agg_proofs (the (aggregate (demo_libs (\<lambda>_. hash_of_byte (CHR 0x05)))
     [hash_of_byte (CHR 0x01), hash_of_byte (CHR 0x02), hash_of_byte (CHR 0x03)])) ! 1) (hash_of_byte (CHR 0x05))"
  (is "verify_inclusion ?L _ _ _")
proof -
  let ?hs = "[hash_of_byte (CHR 0x01), hash_of_byte (CHR 0x02), hash_of_byte (CHR 0x03)]"
  obtain agg where agg: "aggregate ?L ?hs = Some agg" by (simp add: aggregate_def)
  have "merkle_root ?L ?hs = hash_of_byte (CHR 0x05)" by (subst merkle_root.simps) (simp add: node_hash_def sha256_def Let_def)
  with aggregation_complete [OF agg, of 1] agg show ?thesis by (auto simp: usize_max_def)
qed

text \<open>C6: Inclusion proofs are sound: whatever index and tree size a proof claims, when it verifies against the root of
  some heads, the head it is for is one of them; and when the tree size it claims is the number of the heads, which
  the code does not check, then it is the very proof of the head at its index, path included. This holds unless
  SHA-256 collides on the strings hashed for the root and by the verification.\<close>

theorem inclusion_sound:
  assumes "verify_inclusion L head pr (merkle_root L heads)" and "length heads \<le> usize_max"
    and "no_collision L (merkle_preimages L heads \<union> proof_preimages L head pr)"
  shows "head \<in> set heads \<and>
    (tree_size pr = length heads \<longrightarrow>
      leaf_index pr < length heads \<and> head = heads ! leaf_index pr \<and> pr = honest_proof L heads (leaf_index pr))"
  using accepted_proof_member [OF assms(1,3)] accepted_proof_honest [OF assms(1) _ assms(2,3)] by blast

lemma split_two: "largest_power_of_two_below (Suc (Suc 0)) = Suc 0"
  by (simp add: largest_power_of_two_below_def double_below.simps usize_saturating_mul_def usize_max_def)

lemma two_heads:
  "merkle_root L [a, b] = node_hash L (leaf_hash L a) (leaf_hash L b)"
  "merkle_preimages L [a, b] = {node_prefix # as_bytes (leaf_hash L a) @ as_bytes (leaf_hash L b),
     leaf_prefix # as_bytes a, leaf_prefix # as_bytes b}"
  using merkle_root_many [of "[a, b]" L] merkle_preimages_many [of "[a, b]" L] by (simp_all add: split_two Let_def insert_commute)

text \<open>A hash that keeps the leaves and two nodes of a tree over two heads apart.\<close>

definition demo_tree_hash :: "string \<Rightarrow> content_hash" where
  "demo_tree_hash s =
     hash_of_byte (if length s = 65 then (if s ! 1 = CHR 0x01 then CHR 0xF0 else CHR 0xF1) else s ! 1)"

lemma as_bytes_of_byte: "i < 32 \<Longrightarrow> as_bytes (hash_of_byte c) ! i = c"
  by (simp add: hash_of_byte.rep_eq)

theorem inclusion_sound_witness:
  "\<not> verify_inclusion (demo_libs demo_tree_hash) (hash_of_byte (CHR 0x09))
     (honest_proof (demo_libs demo_tree_hash) [hash_of_byte (CHR 0x01), hash_of_byte (CHR 0x02)] 0)
     (merkle_root (demo_libs demo_tree_hash) [hash_of_byte (CHR 0x01), hash_of_byte (CHR 0x02)])"
proof
  let ?L = "demo_libs demo_tree_hash" and ?hs = "[hash_of_byte (CHR 0x01), hash_of_byte (CHR 0x02)]"
  let ?p = "honest_proof ?L ?hs 0"
  assume v: "verify_inclusion ?L (hash_of_byte (CHR 0x09)) ?p (merkle_root ?L ?hs)"
  have leaf: "leaf_hash ?L (hash_of_byte c) = hash_of_byte c" for c
    by (simp add: leaf_hash_def sha256_def demo_tree_hash_def as_bytes_of_byte)
  have path: "audit_path ?L 0 ?hs = [hash_of_byte (CHR 0x02)]"
    using audit_path_many [of ?hs 1 ?L 0]
    by (simp add: largest_power_of_two_below_def double_below.simps usize_saturating_mul_def usize_max_def leaf)
  have "no_collision ?L (merkle_preimages ?L ?hs \<union> proof_preimages ?L (hash_of_byte (CHR 0x09)) ?p)"
    by (simp add: no_collision_def proof_preimages_def honest_proof_def path leaf verify_step_def two_heads
        demo_tree_hash_def as_bytes_of_byte nth_append)
  then have "hash_of_byte (CHR 0x09) \<in> set ?hs"
    using inclusion_sound [OF v] by (simp add: usize_max_def)
  then show False by simp
qed

text \<open>Nothing binds the tree size a proof claims to the tree: the second of two heads is accepted at index 2 of 3.\<close>

theorem inclusion_index_forgeable:
  "verify_inclusion L b \<lparr>leaf_index = 2, tree_size = 3, audit_path_of = [leaf_hash L a]\<rparr> (merkle_root L [a, b])"
  by (simp add: verify_inclusion_def verify_step_def shift_even.simps two_heads)

end
