(* ===== verification/Evidence_Store.thy ===== *)
theory Evidence_Store
  imports Merkle
begin

section \<open>The evidence store (treasury-evidence, store.rs)\<close>

text \<open>
  Models \<open>crates/treasury-evidence/src/store.rs\<close>. The trait \<open>EvidenceStore\<close> is the locale
  \<open>evidence_store\<close>: its operations are the parameters, what every backend promises its
  callers are the assumptions, and the consequences for an arbitrary sequence of \<open>put\<close>s
  are proved once inside it. The in-memory store is interpreted here, the durable one in
  the theory \<open>Evidence_File\<close>. The parameter \<open>io\<close> of \<open>put\<close> is what the operating system
  answers to the writes of a durable backend; the in-memory store has none to make.
\<close>

datatype store_error =
    NotFound content_hash
  | IntegrityViolation content_hash
  | StoreBackend string

subsection \<open>What a backend promises\<close>

locale evidence_store =
  fixes L :: libs
    and inv :: "'s \<Rightarrow> bool"
    and put :: "'io \<Rightarrow> string \<Rightarrow> 's \<Rightarrow> (store_error, content_hash) result \<times> 's"
    and get :: "'s \<Rightarrow> content_hash \<Rightarrow> (store_error, string) result"
    and verify :: "'s \<Rightarrow> content_hash \<Rightarrow> (store_error, unit) result"
    and tree_head :: "'s \<Rightarrow> content_hash"
    and tree_head_at :: "'s \<Rightarrow> nat \<Rightarrow> content_hash option"
    and len :: "'s \<Rightarrow> nat"
  assumes put_inv: "inv s \<Longrightarrow> inv (snd (put io b s))"
    and put_ok: "fst (put io b s) = Inr h \<Longrightarrow> h = sha256 L b \<and> is_ok (get (snd (put io b s)) h)"
    and put_keeps: "get s h = Inr c \<Longrightarrow> get (snd (put io b s)) h = Inr c"
    and put_len: "len s \<le> len (snd (put io b s))"
    and put_prefix: "n \<le> len s \<Longrightarrow> tree_head_at (snd (put io b s)) n = tree_head_at s n"
    and head_at: "tree_head_at s (len s) = Some (tree_head s)"
    and head_beyond: "len s < n \<Longrightarrow> tree_head_at s n = None"
    and get_hash: "inv s \<Longrightarrow> get s h = Inr c \<Longrightarrow> sha256 L c = h"
    and verify_ok: "inv s \<Longrightarrow> get s h = Inr c \<Longrightarrow> verify s h = Inr ()"
begin

fun puts :: "('io \<times> string) list \<Rightarrow> 's \<Rightarrow> 's" where
  "puts [] s = s"
| "puts ((io, b) # ops) s = puts ops (snd (put io b s))"

lemma puts_inv: "inv s \<Longrightarrow> inv (puts ops s)"
  by (induction ops arbitrary: s) (auto simp: put_inv)

lemma puts_keep: "get s h = Inr c \<Longrightarrow> get (puts ops s) h = Inr c"
proof (induction ops arbitrary: s)
  case (Cons op ops)
  then show ?case by (cases op) (simp add: put_keeps)
qed simp

lemma puts_len: "len s \<le> len (puts ops s)"
proof (induction ops arbitrary: s)
  case (Cons op ops)
  then show ?case by (cases op) (auto intro: order_trans [OF put_len])
qed simp

lemma puts_prefix: "n \<le> len s \<Longrightarrow> tree_head_at (puts ops s) n = tree_head_at s n"
proof (induction ops arbitrary: s)
  case (Cons op ops)
  obtain io b where op: "op = (io, b)" by (cases op)
  have "n \<le> len (snd (put io b s))" using Cons.prems put_len by (rule order_trans)
  then show ?case using Cons op by (simp add: put_prefix)
qed simp

text \<open>The head published after some entries can be recomputed from every later store.\<close>

lemma head_recomputable: "tree_head_at (puts ops s) (len s) = Some (tree_head s)"
  by (simp add: puts_prefix head_at)

text \<open>Evidence that was stored once reads back forever, and keeps verifying.\<close>

lemma stored_forever:
  assumes "inv s" and "fst (put io b s) = Inr h"
  shows "\<exists>c. get (puts ops (snd (put io b s))) h = Inr c \<and> (no_collision L {b, c} \<longrightarrow> c = b)"
proof -
  have h: "h = sha256 L b" "is_ok (get (snd (put io b s)) h)" using put_ok [OF assms(2)] by blast+
  then obtain c where c: "get (snd (put io b s)) h = Inr c"
    by (cases "get (snd (put io b s)) h") auto
  have "sha256 L c = h" by (rule get_hash [OF put_inv [OF assms(1)] c])
  then have "no_collision L {b, c} \<longrightarrow> c = b"
    using no_collisionD [of L "{b, c}" c b] h(1) by (simp add: sha256_def)
  with puts_keep [OF c] show ?thesis by blast
qed

lemma stored_verifies:
  assumes "inv s" and "fst (put io b s) = Inr h"
  shows "verify (puts ops (snd (put io b s))) h = Inr ()"
proof -
  obtain c where "get (snd (put io b s)) h = Inr c"
    using put_ok [OF assms(2)] by (cases "get (snd (put io b s)) h") auto
  from puts_keep [OF this] show ?thesis
    by (rule verify_ok [OF puts_inv [OF put_inv [OF assms(1)]]])
qed

end

subsection \<open>The in-memory store\<close>

record evidence_mem =
  es_blobs :: "(content_hash, string) hashmap"
  es_order :: "content_hash list"

definition es_new :: evidence_mem where
  "es_new = \<lparr>es_blobs = [], es_order = []\<rparr>"

definition es_put :: "libs \<Rightarrow> string \<Rightarrow> evidence_mem
  \<Rightarrow> (store_error, content_hash) result \<times> evidence_mem" where
  "es_put L bytes s =
     (let hash = sha256 L bytes in
      (Inr hash,
       if hm_get (es_blobs s) hash = None
       then s\<lparr>es_blobs := hm_insert hash bytes (es_blobs s), es_order := es_order s @ [hash]\<rparr>
       else s))"

definition es_get :: "evidence_mem \<Rightarrow> content_hash \<Rightarrow> (store_error, string) result" where
  "es_get s hash = ok_or (NotFound hash) (hm_get (es_blobs s) hash)"

definition es_verify :: "libs \<Rightarrow> evidence_mem \<Rightarrow> content_hash \<Rightarrow> (store_error, unit) result" where
  "es_verify L s hash =
     and_then (es_get s hash)
       (\<lambda>bytes. if sha256 L bytes = hash then Inr () else Inl (IntegrityViolation hash))"

definition es_tree_head :: "libs \<Rightarrow> evidence_mem \<Rightarrow> content_hash" where
  "es_tree_head L s = merkle_root L (es_order s)"

definition es_tree_head_at :: "libs \<Rightarrow> evidence_mem \<Rightarrow> nat \<Rightarrow> content_hash option" where
  "es_tree_head_at L s n =
     (if n \<le> length (es_order s) then Some (merkle_root L (take n (es_order s))) else None)"

definition es_len :: "evidence_mem \<Rightarrow> nat" where
  "es_len s = length (es_order s)"

definition es_is_empty :: "evidence_mem \<Rightarrow> bool" where
  "es_is_empty s \<longleftrightarrow> es_len s = 0"

subsection \<open>Invariant\<close>

text \<open>Every blob is keyed by its hash, and the order lists the keys, each once.\<close>

definition es_inv :: "libs \<Rightarrow> evidence_mem \<Rightarrow> bool" where
  "es_inv L s \<longleftrightarrow>
     hm_wf (es_blobs s) \<and> distinct (es_order s) \<and>
     set (es_order s) = dom (map_of (es_blobs s)) \<and>
     (\<forall>h b. map_of (es_blobs s) h = Some b \<longrightarrow> sha256 L b = h)"

lemma es_inv_new: "es_inv L es_new"
  by (simp add: es_inv_def es_new_def)

lemma es_put_fst [simp]: "fst (es_put L b s) = Inr (sha256 L b)"
  by (simp add: es_put_def Let_def)

lemma es_put_inv: "es_inv L s \<Longrightarrow> es_inv L (snd (es_put L b s))"
  by (auto simp: es_inv_def es_put_def Let_def split: if_splits)

lemma es_put_known:
  "hm_get (es_blobs s) (sha256 L b) \<noteq> None \<Longrightarrow> es_put L b s = (Inr (sha256 L b), s)"
  by (auto simp: es_put_def)

lemma es_put_new:
  "hm_get (es_blobs s) (sha256 L b) = None \<Longrightarrow>
     es_order (snd (es_put L b s)) = es_order s @ [sha256 L b] \<and>
     es_get (snd (es_put L b s)) (sha256 L b) = Inr b"
  by (simp add: es_put_def Let_def es_get_def)

lemma es_put_order: "\<exists>hs. es_order (snd (es_put L b s)) = es_order s @ hs"
  by (simp add: es_put_def Let_def)

lemma es_put_idempotent:
  "snd (es_put L b (snd (es_put L b s))) = snd (es_put L b s)"
  by (rule arg_cong [of _ _ snd, OF es_put_known, simplified])
    (simp add: es_put_def Let_def)

interpretation mem: evidence_store L "es_inv L" "\<lambda>_. es_put L" es_get "es_verify L"
  "es_tree_head L" "es_tree_head_at L" es_len
  for L
proof
  fix s and h :: content_hash and b c n and io :: unit
  show "es_inv L s \<Longrightarrow> es_inv L (snd (es_put L b s))" by (rule es_put_inv)
  show "fst (es_put L b s) = Inr h \<Longrightarrow> h = sha256 L b \<and> is_ok (es_get (snd (es_put L b s)) h)"
    by (auto simp: es_put_def es_get_def Let_def)
  show "es_get s h = Inr c \<Longrightarrow> es_get (snd (es_put L b s)) h = Inr c"
    by (auto simp: es_put_def es_get_def Let_def result_simps)
  show "es_len s \<le> es_len (snd (es_put L b s))"
    by (simp add: es_len_def es_put_def Let_def)
  show "n \<le> es_len s \<Longrightarrow> es_tree_head_at L (snd (es_put L b s)) n = es_tree_head_at L s n"
    by (auto simp: es_len_def es_tree_head_at_def es_put_def Let_def)
  show "es_tree_head_at L s (es_len s) = Some (es_tree_head L s)"
    by (simp add: es_tree_head_at_def es_len_def es_tree_head_def)
  show "es_len s < n \<Longrightarrow> es_tree_head_at L s n = None"
    by (simp add: es_tree_head_at_def es_len_def)
  show hash: "es_inv L s \<Longrightarrow> es_get s h = Inr c \<Longrightarrow> sha256 L c = h"
    by (auto simp: es_inv_def es_get_def result_simps)
  show "es_inv L s \<Longrightarrow> es_get s h = Inr c \<Longrightarrow> es_verify L s h = Inr ()"
    using hash by (simp add: es_verify_def)
qed

subsection \<open>Properties\<close>

fun es_run :: "libs \<Rightarrow> string list \<Rightarrow> evidence_mem \<Rightarrow> evidence_mem" where
  "es_run L [] s = s"
| "es_run L (b # bs) s = es_run L bs (snd (es_put L b s))"

lemma es_run_puts: "es_run L bs s = mem.puts L (map (Pair ()) bs) s"
  by (induction L bs s rule: es_run.induct) simp_all

lemma es_run_inv: "es_inv L s \<Longrightarrow> es_inv L (es_run L bs s)"
  by (simp add: es_run_puts mem.puts_inv)

lemma es_put_len: "es_len (snd (es_put L b s)) \<le> Suc (es_len s)"
  by (simp add: es_put_def es_len_def Let_def)

lemma es_run_len: "es_len (es_run L bs s) \<le> length bs + es_len s"
proof (induction bs arbitrary: s)
  case (Cons b bs)
  show ?case using Cons.IH [of "snd (es_put L b s)"] es_put_len [of L b s] by simp
qed simp

text \<open>C34: The evidence store is append-only: what has been stored keeps verifying and reads back as
  bytes with the same hash (the same bytes, unless SHA-256 collides on the two) after any further
  puts, and every tree head ever published can be recomputed from the later store.\<close>

theorem evidence_append_only:
  assumes "es_inv L s"
  shows "es_verify L (es_run L bs (snd (es_put L b s))) (sha256 L b) = Inr () \<and>
    (\<exists>c. es_get (es_run L bs (snd (es_put L b s))) (sha256 L b) = Inr c \<and> sha256 L c = sha256 L b \<and>
       (\<not> no_collision L {b, c} \<or> c = b)) \<and>
    es_tree_head_at L (es_run L bs s) (es_len s) = Some (es_tree_head L s)"
proof -
  have inv: "es_inv L (mem.puts L (map (Pair ()) bs) (snd (es_put L b s)))"
    using assms by (simp add: mem.puts_inv mem.put_inv)
  obtain c where "es_get (mem.puts L (map (Pair ()) bs) (snd (es_put L b s))) (sha256 L b) = Inr c"
    "no_collision L {b, c} \<longrightarrow> c = b"
    using mem.stored_forever [OF assms, of b "sha256 L b" "map (Pair ()) bs"] by auto
  moreover from mem.get_hash [OF inv this(1)] have "sha256 L c = sha256 L b" .
  moreover have "es_verify L (mem.puts L (map (Pair ()) bs) (snd (es_put L b s))) (sha256 L b) = Inr ()"
    using mem.stored_verifies [OF assms, of b "sha256 L b" "map (Pair ()) bs"] by simp
  moreover have "es_tree_head_at L (mem.puts L (map (Pair ()) bs) s) (es_len s) = Some (es_tree_head L s)"
    by (rule mem.head_recomputable)
  ultimately show ?thesis unfolding es_run_puts by blast
qed

theorem evidence_append_only_witness:
  "es_verify (demo_libs (\<lambda>_. hash_of_byte (CHR 0x01))) (es_run (demo_libs (\<lambda>_. hash_of_byte (CHR 0x01))) [''b'', ''c'']
     (snd (es_put (demo_libs (\<lambda>_. hash_of_byte (CHR 0x01))) ''a'' es_new))) (hash_of_byte (CHR 0x01)) = Inr ()"
  using evidence_append_only [OF es_inv_new, of "demo_libs (\<lambda>_. hash_of_byte (CHR 0x01))" "[''b'', ''c'']" "''a''"]
  by (simp add: sha256_def del: es_run.simps)

end
