(* ===== verification/Canon.thy ===== *)
theory Canon
  imports Core
begin

section \<open>Canonical JSON (treasury-evidence, canon.rs)\<close>

text \<open>
  Models \<open>crates/treasury-evidence/src/canon.rs\<close> and the JSON values (\<open>serde_json::Value\<close>)
  it encodes. An object holds the entries of its \<open>BTreeMap\<close>; \<open>json_object\<close> is what the
  \<open>json!\<close> macro builds, with the entries in key order. A float carries the text that
  \<open>Number::to_string\<close> shows for it, the only thing the encoder looks at.

  The lemmas show that the encoder succeeds exactly on float-free values that are not
  nested too deeply, and that it is injective: two well-formed values with the same
  canonical bytes are equal. The locale \<open>artifact\<close> turns this into the content-addressing
  facts every hashed record of the suite shares: its hash exists, and two records with
  the same hash are equal unless SHA-256 collides on their two canonical encodings.
\<close>

subsection \<open>Values\<close>

datatype number = PosInt u64 | NegInt int | Float string

fun as_i64 :: "number \<Rightarrow> int option" where
  "as_i64 (PosInt n) = (if unat n < 2 ^ 63 then Some (int (unat n)) else None)"
| "as_i64 (NegInt i) = Some i"
| "as_i64 (Float s) = None"

fun as_u64 :: "number \<Rightarrow> u64 option" where
  "as_u64 (PosInt n) = Some n"
| "as_u64 (NegInt i) = None"
| "as_u64 (Float s) = None"

fun number_text :: "number \<Rightarrow> string" where
  "number_text (PosInt n) = show_nat (unat n)"
| "number_text (NegInt i) = show_int i"
| "number_text (Float s) = s"

datatype json =
    JNull
  | JBool bool
  | JNumber number
  | JString string
  | JArray "json list"
  | JObject "(string \<times> json) list"

definition json_object :: "(string \<times> json) list \<Rightarrow> json" where
  "json_object fs = JObject (sort_key fst fs)"

text \<open>\<open>Option\<close> fields serialize to \<open>null\<close> or to the value.\<close>

definition json_option :: "('a \<Rightarrow> json) \<Rightarrow> 'a option \<Rightarrow> json" where
  "json_option f v = (case v of None \<Rightarrow> JNull | Some x \<Rightarrow> f x)"

subsection \<open>The encoder\<close>

definition max_depth :: nat where
  "max_depth = 128"

datatype canon_error = FloatRejected string | TooDeep | Encode string

text \<open>The \<open>Display\<close> text of an error.\<close>

definition canon_error_text :: "canon_error \<Rightarrow> string" where
  "canon_error_text e =
     (case e of FloatRejected s \<Rightarrow> ''float rejected in canonical encoding: '' @ s
      | TooDeep \<Rightarrow> ''value nesting exceeds maximum depth''
      | Encode s \<Rightarrow> ''encode error: '' @ s)"

definition write_string :: "libs \<Rightarrow> string \<Rightarrow> (canon_error, string) result" where
  "write_string L s = map_err Encode (serde_str L s)"

definition write_number :: "number \<Rightarrow> (canon_error, string) result" where
  "write_number n =
     (case as_i64 n of Some i \<Rightarrow> Inr (show_int i)
      | None \<Rightarrow>
          (case as_u64 n of Some u \<Rightarrow> Inr (show_nat (unat u))
           | None \<Rightarrow> Inl (FloatRejected (number_text n))))"

text \<open>The loops over array items and over sorted object keys, with the separator flag.\<close>

fun write_items :: "bool \<Rightarrow> (canon_error, string) result list \<Rightarrow> (canon_error, string) result"
where
  "write_items first [] = Inr []"
| "write_items first (r # rs) =
     and_then r (\<lambda>b. and_then (write_items False rs)
       (\<lambda>rest. Inr ((if first then [] else '','') @ b @ rest)))"

fun write_fields :: "libs \<Rightarrow> bool \<Rightarrow> string list \<Rightarrow> (string \<times> (canon_error, string) result) list
  \<Rightarrow> (canon_error, string) result" where
  "write_fields L first [] vs = Inr []"
| "write_fields L first (key # keys) vs =
     and_then (write_string L key) (\<lambda>kb.
     and_then (case map_of vs key of None \<Rightarrow> Inr [] | Some r \<Rightarrow> r) (\<lambda>vb.
     and_then (write_fields L False keys vs) (\<lambda>rest.
       Inr ((if first then [] else '','') @ kb @ '':'' @ vb @ rest))))"

definition guard_depth :: "nat \<Rightarrow> (canon_error, string) result \<Rightarrow> (canon_error, string) result"
where
  "guard_depth depth r = (if max_depth < depth then Inl TooDeep else r)"

fun write_value :: "libs \<Rightarrow> json \<Rightarrow> nat \<Rightarrow> (canon_error, string) result" where
  "write_value L JNull depth = guard_depth depth (Inr ''null'')"
| "write_value L (JBool b) depth = guard_depth depth (Inr (if b then ''true'' else ''false''))"
| "write_value L (JNumber n) depth = guard_depth depth (write_number n)"
| "write_value L (JString s) depth = guard_depth depth (write_string L s)"
| "write_value L (JArray items) depth = guard_depth depth
     (and_then (write_items True (map (\<lambda>item. write_value L item (depth + 1)) items))
        (\<lambda>b. Inr (''['' @ b @ '']'')))"
| "write_value L (JObject m) depth = guard_depth depth
     (and_then (write_fields L True (sort (map fst m))
         (map (\<lambda>(k, v). (k, write_value L v (depth + 1))) m))
        (\<lambda>b. Inr (''{'' @ b @ ''}'')))"

definition canonical_bytes :: "libs \<Rightarrow> json \<Rightarrow> (canon_error, string) result" where
  "canonical_bytes L v = write_value L v 0"

subsection \<open>Well-formed, float-free, shallow values\<close>

text \<open>The invariant of \<open>serde_json::Value\<close>: numbers are normalised, map keys are in order.\<close>

fun number_wf :: "number \<Rightarrow> bool" where
  "number_wf (NegInt i) = (i < 0 \<and> in_i64 i)"
| "number_wf _ = True"

fun json_wf :: "json \<Rightarrow> bool" where
  "json_wf (JNumber n) = number_wf n"
| "json_wf (JArray items) = (\<forall>v \<in> set items. json_wf v)"
| "json_wf (JObject m) = (sorted_wrt (<) (map fst m) \<and> (\<forall>p \<in> set m. json_wf (snd p)))"
| "json_wf _ = True"

fun float_free :: "json \<Rightarrow> bool" where
  "float_free (JNumber (Float s)) = False"
| "float_free (JArray items) = (\<forall>v \<in> set items. float_free v)"
| "float_free (JObject m) = (\<forall>p \<in> set m. float_free (snd p))"
| "float_free _ = True"

text \<open>\<open>depth_ok k v\<close>: every value inside \<open>v\<close> sits at most \<open>k\<close> levels below \<open>v\<close>.\<close>

fun depth_ok :: "nat \<Rightarrow> json \<Rightarrow> bool" where
  "depth_ok k (JArray items) = (\<forall>v \<in> set items. 0 < k \<and> depth_ok (k - 1) v)"
| "depth_ok k (JObject m) = (\<forall>p \<in> set m. 0 < k \<and> depth_ok (k - 1) (snd p))"
| "depth_ok k _ = True"

subsection \<open>When the encoder succeeds\<close>

lemma guard_depth_Inr [result_simps]:
  "guard_depth d r = Inr b \<longleftrightarrow> d \<le> max_depth \<and> r = Inr b"
  by (auto simp: guard_depth_def)

lemma is_ok_iff: "is_ok r \<longleftrightarrow> (\<exists>b. r = Inr b)"
  by (cases r) auto

lemma write_string_ok: "libs_ok L \<Longrightarrow> is_ok (write_string L s)"
  using libs_okD(2) [of L s] by (auto simp: write_string_def)

lemma write_number_ok: "is_ok (write_number n) \<longleftrightarrow> float_free (JNumber n)"
  by (cases n) (auto simp: write_number_def)

lemma write_items_ok: "is_ok (write_items first rs) \<longleftrightarrow> (\<forall>r \<in> set rs. is_ok r)"
  by (induction rs arbitrary: first) (auto simp: is_ok_iff result_simps)

lemma write_fields_ok:
  assumes "libs_ok L"
  shows "is_ok (write_fields L first keys vs) \<longleftrightarrow>
    (\<forall>k \<in> set keys. case map_of vs k of None \<Rightarrow> True | Some r \<Rightarrow> is_ok r)"
proof (induction keys arbitrary: first)
  case (Cons k ks)
  obtain kb where "write_string L k = Inr kb"
    using write_string_ok [OF assms, of k] by (auto simp: is_ok_iff)
  with Cons [of False] show ?case
    by (auto simp: is_ok_iff result_simps split: option.splits)
qed simp

lemma map_of_map_snd: "map_of (map (\<lambda>(k, v). (k, f v)) m) k = map_option f (map_of m k)"
  by (induction m) auto

lemma write_value_ok:
  assumes "libs_ok L" and "json_wf v" and "d \<le> max_depth"
  shows "is_ok (write_value L v d) \<longleftrightarrow> float_free v \<and> depth_ok (max_depth - d) v"
  using assms(2,3)
proof (induction v arbitrary: d)
  case (JNumber n)
  then show ?case using write_number_ok [of n] by (cases n) (auto simp: guard_depth_def)
next
  case (JString s)
  then show ?case using write_string_ok [OF assms(1)] by (simp add: guard_depth_def)
next
  case (JArray items)
  have step: "is_ok (write_value L v (d + 1)) \<longleftrightarrow>
      float_free v \<and> 0 < max_depth - d \<and> depth_ok (max_depth - d - 1) v"
    if "v \<in> set items" for v
  proof (cases "d + 1 \<le> max_depth")
    case True
    with JArray.IH [OF that, of "d + 1"] JArray.prems that show ?thesis by auto
  next
    case False
    then have "write_value L v (d + 1) = Inl TooDeep" by (cases v) (simp_all add: guard_depth_def)
    with False JArray.prems show ?thesis by simp
  qed
  have "is_ok (write_value L (JArray items) d) \<longleftrightarrow>
      (\<forall>v \<in> set items. is_ok (write_value L v (d + 1)))"
    using JArray.prems write_items_ok [of True "map (\<lambda>i. write_value L i (d + 1)) items"]
    by (auto simp: guard_depth_def is_ok_iff result_simps)
  then show ?case using step by auto
next
  case (JObject m)
  have step: "is_ok (write_value L (snd p) (d + 1)) \<longleftrightarrow>
      float_free (snd p) \<and> 0 < max_depth - d \<and> depth_ok (max_depth - d - 1) (snd p)"
    if "p \<in> set m" for p
  proof (cases "d + 1 \<le> max_depth")
    case True
    with JObject.IH [of p "snd p" "d + 1"] JObject.prems that show ?thesis
      by (auto simp: snds.simps)
  next
    case False
    then have "write_value L (snd p) (d + 1) = Inl TooDeep"
      by (cases "snd p") (simp_all add: guard_depth_def)
    with False JObject.prems show ?thesis by simp
  qed
  have dist: "distinct (map fst m)"
    using JObject.prems by (simp add: strict_sorted_iff)
  have "is_ok (write_value L (JObject m) d) \<longleftrightarrow>
      (\<forall>p \<in> set m. is_ok (write_value L (snd p) (d + 1)))"
    using JObject.prems dist
      write_fields_ok [OF assms(1), of True "sort (map fst m)"
        "map (\<lambda>(k, v). (k, write_value L v (d + 1))) m"]
    by (auto simp: guard_depth_def is_ok_iff result_simps map_of_map_snd)
  then show ?case using step by auto
qed (simp_all add: guard_depth_def)

lemma canonical_bytes_ok:
  assumes "libs_ok L" and "json_wf v"
  shows "is_ok (canonical_bytes L v) \<longleftrightarrow> float_free v \<and> depth_ok max_depth v"
  using write_value_ok [OF assms, of 0] by (simp add: canonical_bytes_def)

subsection \<open>The encoding determines the value\<close>

text \<open>
  What may follow a value inside a larger encoding: nothing, a separator or a closing
  bracket. Numbers are not self-delimiting, so the statement carries this side condition.
\<close>

definition follow :: "string \<Rightarrow> bool" where
  "follow r \<longleftrightarrow> r = [] \<or> hd r \<in> {CHR '','', CHR '']'', CHR ''}''}"

definition number_char :: "char \<Rightarrow> bool" where
  "number_char c \<longleftrightarrow> c = CHR ''-'' \<or> (48 \<le> (of_char c :: nat) \<and> (of_char c :: nat) \<le> 57)"

lemma number_char_show_int: "c \<in> set (show_int i) \<Longrightarrow> number_char c"
  using show_nat_digits by (auto simp: show_int_def number_char_def split: if_splits)

lemma number_char_not_follow: "number_char c \<Longrightarrow> \<not> follow (c # r)"
  by (auto simp: number_char_def follow_def)

lemma show_int_delimits:
  assumes "show_int i @ r = show_int j @ u" and "follow r" and "follow u"
  shows "i = j \<and> r = u"
proof -
  have split: "a = b \<and> r = u"
    if "a @ r = b @ u" and "\<forall>c \<in> set a. number_char c" and "\<forall>c \<in> set b. number_char c"
    for a b
    using that
  proof (induction a arbitrary: b)
    case Nil
    then show ?case using assms(2) by (cases b) (auto dest: number_char_not_follow)
  next
    case (Cons c a)
    then show ?case using assms(3) by (cases b) (auto dest: number_char_not_follow)
  qed
  from split [OF assms(1)] show ?thesis
    using number_char_show_int by (auto simp: show_int_inject)
qed

lemma write_number_text:
  assumes "number_wf n" and "write_number n = Inr b"
  shows "\<exists>i. b = show_int i \<and> n = (if i < 0 then NegInt i else PosInt (of_nat (nat i)))"
proof (cases n)
  case (PosInt w)
  with assms have "b = show_int (int (unat w))"
    by (auto simp: write_number_def show_int_def split: if_splits)
  with PosInt show ?thesis by (intro exI [of _ "int (unat w)"]) simp
qed (use assms in \<open>auto simp: write_number_def\<close>)

lemma show_int_hd: "\<exists>c cs. show_int i = c # cs \<and> number_char c"
proof -
  have "show_int i \<noteq> []" by (simp add: show_int_def)
  then show ?thesis
    using number_char_show_int [of _ i] by (cases "show_int i") auto
qed

text \<open>The first byte of an encoding tells which constructor it came from.\<close>

fun lead :: "json \<Rightarrow> char \<Rightarrow> bool" where
  "lead JNull c = (c = CHR ''n'')"
| "lead (JBool b) c = (c = (if b then CHR ''t'' else CHR ''f''))"
| "lead (JNumber n) c = number_char c"
| "lead (JString s) c = (c = CHR 0x22)"
| "lead (JArray vs) c = (c = CHR ''['')"
| "lead (JObject m) c = (c = CHR ''{'')"

lemma write_value_lead:
  assumes "libs_ok L" and "json_wf v" and "write_value L v d = Inr a"
  shows "\<exists>c cs. a = c # cs \<and> lead v c"
proof (cases v)
  case (JNumber n)
  with assms show ?thesis
    using write_number_text [of n a] show_int_hd by (fastforce simp: result_simps)
next
  case (JString s)
  with assms libs_okD(2) [OF assms(1), of s] show ?thesis
    by (auto simp: result_simps write_string_def)
qed (use assms in \<open>auto simp: result_simps split: if_splits\<close>)

lemma lead_not_follow: "lead v c \<Longrightarrow> \<not> follow (c # cs)"
  by (cases v) (auto simp: number_char_not_follow, auto simp: follow_def)

lemma write_items_follow:
  "write_items False rs = Inr a \<Longrightarrow> follow (z # r) \<Longrightarrow> follow (a @ z # r)"
  by (cases rs) (auto simp: result_simps follow_def)

text \<open>
  A separated sequence of items is delimited by its closing bracket as soon as each item
  is delimited by what may follow a value and opens with a byte that may not.
\<close>

definition item_opens :: "('x \<Rightarrow> (canon_error, string) result) \<Rightarrow> 'x \<Rightarrow> bool" where
  "item_opens f x \<longleftrightarrow> (\<forall>a. f x = Inr a \<longrightarrow> (\<exists>c cs. a = c # cs \<and> \<not> follow [c]))"

definition item_delimits :: "('x \<Rightarrow> (canon_error, string) result)
    \<Rightarrow> ('x \<Rightarrow> (canon_error, string) result) \<Rightarrow> 'x \<Rightarrow> 'x \<Rightarrow> bool" where
  "item_delimits f g x y \<longleftrightarrow>
     (\<forall>a b r u. f x = Inr a \<longrightarrow> g y = Inr b \<longrightarrow> a @ r = b @ u \<longrightarrow> follow r \<longrightarrow> follow u \<longrightarrow>
        x = y \<and> r = u)"

lemma write_items_starts:
  assumes "item_opens f x" and "write_items first (map f (x # xs)) = Inr a"
    and "z \<in> {CHR '']'', CHR ''}''}"
  shows "a @ s \<noteq> z # t"
  using assms by (fastforce simp: item_opens_def result_simps follow_def split: if_splits)

lemma write_items_delimits:
  assumes z: "z \<in> {CHR '']'', CHR ''}''}"
  shows "\<forall>x \<in> set xs. \<forall>y \<in> set ys. item_delimits f g x y \<Longrightarrow>
    \<forall>x \<in> set xs. item_opens f x \<Longrightarrow> \<forall>y \<in> set ys. item_opens g y \<Longrightarrow>
    write_items first (map f xs) = Inr a \<Longrightarrow> write_items first (map g ys) = Inr b \<Longrightarrow>
    a @ z # r = b @ z # u \<Longrightarrow> xs = ys \<and> r = u"
proof (induction xs arbitrary: ys first a b)
  case Nil
  show ?case
  proof (cases ys)
    case (Cons y ys')
    with Nil.prems(3,5) have "b @ z # u \<noteq> z # r"
      by (intro write_items_starts [OF _ _ z]) auto
    with Nil.prems show ?thesis by auto
  qed (use Nil.prems in auto)
next
  case (Cons x xs)
  show ?case
  proof (cases ys)
    case Nil
    with Cons.prems(2,4) have "a @ z # r \<noteq> z # u"
      by (intro write_items_starts [OF _ _ z]) auto
    with Cons.prems Nil show ?thesis by auto
  next
    case ys: (Cons y ys')
    obtain ax ra where ax: "f x = Inr ax" "write_items False (map f xs) = Inr ra"
      "a = (if first then [] else '','') @ ax @ ra"
      using Cons.prems(4) by (auto simp: result_simps)
    obtain bx rb where bx: "g y = Inr bx" "write_items False (map g ys') = Inr rb"
      "b = (if first then [] else '','') @ bx @ rb"
      using Cons.prems(5) ys by (auto simp: result_simps)
    have "follow (z # s)" for s using z by (auto simp: follow_def)
    then have fol: "follow (ra @ z # r)" "follow (rb @ z # u)"
      using ax(2) bx(2) by (simp_all add: write_items_follow)
    have "ax @ (ra @ z # r) = bx @ (rb @ z # u)"
      using Cons.prems(6) ax(3) bx(3) by (simp split: if_splits)
    moreover have "item_delimits f g x y" using Cons.prems(1) ys by simp
    ultimately have xy: "x = y" and rest: "ra @ z # r = rb @ z # u"
      using ax(1) bx(1) fol unfolding item_delimits_def by blast+
    have "xs = ys' \<and> r = u"
      by (rule Cons.IH [OF _ _ _ ax(2) bx(2) rest]) (use Cons.prems(1-3) ys in simp_all)
    with xy ys show ?thesis by simp
  qed
qed

definition field_bytes :: "libs \<Rightarrow> (json \<Rightarrow> (canon_error, string) result) \<Rightarrow> string \<times> json
  \<Rightarrow> (canon_error, string) result" where
  "field_bytes L h p =
     and_then (write_string L (fst p)) (\<lambda>kb. and_then (h (snd p)) (\<lambda>vb. Inr (kb @ '':'' @ vb)))"

lemma write_fields_items:
  assumes "distinct (map fst m)" and "set ps \<subseteq> set m"
  shows "write_fields L first (map fst ps) (map (\<lambda>(k, v). (k, h v)) m) =
    write_items first (map (field_bytes L h) ps)"
  using assms(2)
proof (induction ps arbitrary: first)
  case (Cons p ps)
  then have "map_of m (fst p) = Some (snd p)" using assms(1) by simp
  with Cons show ?case
    by (cases "write_string L (fst p)"; cases "h (snd p)") (auto simp: field_bytes_def map_of_map_snd)
qed simp

lemma write_object:
  assumes "sorted_wrt (<) (map fst m)"
  shows "write_value L (JObject m) d = guard_depth d
    (and_then (write_items True (map (field_bytes L (\<lambda>v. write_value L v (d + 1))) m))
       (\<lambda>b. Inr (''{'' @ b @ ''}'')))"
proof -
  from assms have "sort (map fst m) = map fst m" "distinct (map fst m)"
    by (simp_all add: strict_sorted_iff sorted_sort_id)
  then show ?thesis
    using write_fields_items [of m m L True "\<lambda>v. write_value L v (d + 1)"] by simp
qed

lemma field_opens: "libs_ok L \<Longrightarrow> item_opens (field_bytes L h) p"
  using libs_okD(2) [of L "fst p"]
  by (auto simp: item_opens_def field_bytes_def result_simps write_string_def follow_def)

lemma value_opens: "libs_ok L \<Longrightarrow> json_wf v \<Longrightarrow> item_opens (\<lambda>v. write_value L v d) v"
  using write_value_lead [of L v d] lead_not_follow by (fastforce simp: item_opens_def)

lemma write_string_delimits:
  assumes "libs_ok L" "write_string L s = Inr a" "write_string L t = Inr b" "a @ r = b @ u"
  shows "s = t \<and> r = u"
  using assms libs_okD(3) [OF assms(1), of s a t b r u] by (simp add: write_string_def result_simps)

lemma lead_constructor:
  "lead v c \<Longrightarrow> lead w c \<Longrightarrow>
    (case v of JNull \<Rightarrow> w = JNull | JBool b \<Rightarrow> w = JBool b | JNumber n \<Rightarrow> (\<exists>k. w = JNumber k)
     | JString s \<Rightarrow> (\<exists>t. w = JString t) | JArray xs \<Rightarrow> (\<exists>ys. w = JArray ys)
     | JObject m \<Rightarrow> (\<exists>l. w = JObject l))"
  by (cases v; cases w) (auto simp: number_char_def split: if_splits)

lemma write_value_same_lead:
  assumes "libs_ok L" and "json_wf v" "json_wf w" and "write_value L v d = Inr a"
    "write_value L w e = Inr b" and "a @ r = b @ u"
  shows "\<exists>c. lead v c \<and> lead w c"
  using write_value_lead [OF assms(1,2,4)] write_value_lead [OF assms(1,3,5)] assms(6) by auto

lemma write_value_delimits:
  assumes "libs_ok L"
  shows "json_wf v \<Longrightarrow> json_wf w \<Longrightarrow> write_value L v d = Inr a \<Longrightarrow> write_value L w e = Inr b \<Longrightarrow>
    a @ r = b @ u \<Longrightarrow> follow r \<Longrightarrow> follow u \<Longrightarrow> v = w \<and> r = u"
proof (induction v arbitrary: w d e a b r u)
  case prems: (JNumber n)
  obtain k where w: "w = JNumber k"
    using write_value_same_lead [OF assms prems(1-5)] lead_constructor [of "JNumber n" _ w] by fastforce
  obtain i j where i: "a = show_int i" "n = (if i < 0 then NegInt i else PosInt (of_nat (nat i)))"
    and j: "b = show_int j" "k = (if j < 0 then NegInt j else PosInt (of_nat (nat j)))"
    using write_number_text [of n a] write_number_text [of k b] prems w by (auto simp: result_simps)
  with show_int_delimits [of i r j u] prems w show ?case by auto
next
  case prems: (JString s)
  obtain t where w: "w = JString t"
    using write_value_same_lead [OF assms prems(1-5)] lead_constructor [of "JString s" _ w] by fastforce
  with prems write_string_delimits [OF assms, of s a t b r u] show ?case by (simp add: result_simps)
next
  case (JArray xs)
  note prems = JArray.prems
  obtain ys where w: "w = JArray ys"
    using write_value_same_lead [OF assms prems(1-5)] lead_constructor [of "JArray xs" _ w] by fastforce
  obtain p where p: "write_items True (map (\<lambda>v. write_value L v (d + 1)) xs) = Inr p"
    "a = ''['' @ p @ '']''" using prems by (auto simp: result_simps)
  obtain q where q: "write_items True (map (\<lambda>v. write_value L v (e + 1)) ys) = Inr q"
    "b = ''['' @ q @ '']''" using prems w by (auto simp: result_simps)
  have wf: "\<And>x. x \<in> set xs \<Longrightarrow> json_wf x" "\<And>y. y \<in> set ys \<Longrightarrow> json_wf y" using prems w by auto
  have eq: "p @ CHR '']'' # r = q @ CHR '']'' # u" using prems(5) p q by simp
  have item: "\<forall>x \<in> set xs. \<forall>y \<in> set ys.
      item_delimits (\<lambda>v. write_value L v (d + 1)) (\<lambda>v. write_value L v (e + 1)) x y"
    unfolding item_delimits_def using JArray.IH wf by blast
  have "xs = ys \<and> r = u"
    by (rule write_items_delimits [OF _ item _ _ p(1) q(1) eq]) (use wf value_opens [OF assms] in auto)
  with w show ?case by simp
next
  case (JObject m)
  note prems = JObject.prems
  obtain l where w: "w = JObject l"
    using write_value_same_lead [OF assms prems(1-5)] lead_constructor [of "JObject m" _ w] by fastforce
  have srt: "sorted_wrt (<) (map fst m)" "sorted_wrt (<) (map fst l)" using prems w by auto
  let ?f = "field_bytes L (\<lambda>v. write_value L v (d + 1))"
  let ?g = "field_bytes L (\<lambda>v. write_value L v (e + 1))"
  obtain p where p: "write_items True (map ?f m) = Inr p" "a = ''{'' @ p @ ''}''"
    using prems(3) unfolding write_object [OF srt(1)] by (auto simp: result_simps)
  obtain q where q: "write_items True (map ?g l) = Inr q" "b = ''{'' @ q @ ''}''"
    using prems(4) w unfolding w write_object [OF srt(2)] by (auto simp: result_simps)
  have eq: "p @ CHR ''}'' # r = q @ CHR ''}'' # u" using prems(5) p q by simp
  have item: "item_delimits ?f ?g x y" if xy: "x \<in> set m" "y \<in> set l" for x y
    unfolding item_delimits_def
  proof (intro allI impI)
    fix a' b' r' u'
    assume h: "?f x = Inr a'" "?g y = Inr b'" "a' @ r' = b' @ u'" "follow r'" "follow u'"
    obtain ka va where ka: "write_string L (fst x) = Inr ka" "write_value L (snd x) (d + 1) = Inr va"
      "a' = ka @ '':'' @ va" using h(1) by (auto simp: field_bytes_def result_simps)
    obtain kb vb where kb: "write_string L (fst y) = Inr kb" "write_value L (snd y) (e + 1) = Inr vb"
      "b' = kb @ '':'' @ vb" using h(2) by (auto simp: field_bytes_def result_simps)
    have key: "fst x = fst y \<and> CHR '':'' # va @ r' = CHR '':'' # vb @ u'"
      by (rule write_string_delimits [OF assms ka(1) kb(1)]) (use h(3) ka(3) kb(3) in simp)
    have "snd x = snd y \<and> r' = u'"
      by (rule JObject.IH [of x "snd x" "snd y" "d + 1" va "e + 1" vb])
        (use xy h key ka kb prems w in \<open>auto simp: snds.simps\<close>)
    with key show "x = y \<and> r' = u'" by (simp add: prod_eq_iff)
  qed
  have "m = l \<and> r = u"
    by (rule write_items_delimits [OF _ _ _ _ p(1) q(1) eq])
      (use item field_opens [OF assms] in auto)
  with w show ?case by simp
next
  case prems: JNull
  then show ?case
    using write_value_same_lead [OF assms prems(1-5)] lead_constructor [of JNull _ w]
    by (fastforce simp: result_simps)
next
  case prems: (JBool x)
  then show ?case
    using write_value_same_lead [OF assms prems(1-5)] lead_constructor [of "JBool x" _ w]
    by (fastforce simp: result_simps split: if_splits)
qed

lemma canonical_bytes_inject:
  assumes "libs_ok L" and "json_wf v" and "json_wf w"
    and "canonical_bytes L v = Inr b" and "canonical_bytes L w = Inr b"
  shows "v = w"
  using write_value_delimits [OF assms(1-3), of 0 b 0 b "[]" "[]"] assms(4,5)
  by (simp add: canonical_bytes_def follow_def)

subsection \<open>Objects, and values that always encode\<close>

definition json_ok :: "nat \<Rightarrow> json \<Rightarrow> bool" where
  "json_ok k v \<longleftrightarrow> json_wf v \<and> float_free v \<and> depth_ok k v"

named_theorems json_simps \<open>shape of the values that envelopes are made of\<close>

lemma json_ok_scalar [simp, json_simps]:
  "json_ok k JNull" "json_ok k (JBool b)" "json_ok k (JString s)" "json_ok k (JNumber (PosInt n))"
  by (simp_all add: json_ok_def)

lemma json_ok_array [simp, json_simps]:
  "json_ok (Suc k) (JArray vs) \<longleftrightarrow> (\<forall>v \<in> set vs. json_ok k v)"
  by (auto simp: json_ok_def)

lemma json_ok_object [simp, json_simps]:
  assumes "distinct (map fst fs)"
  shows "json_ok (Suc k) (json_object fs) \<longleftrightarrow> (\<forall>p \<in> set fs. json_ok k (snd p))"
proof -
  have "distinct (map fst (sort_key fst fs))"
    using assms by (simp add: distinct_map)
  then have "sorted_wrt (<) (map fst (sort_key fst fs))"
    by (simp add: strict_sorted_iff)
  then show ?thesis by (auto simp: json_ok_def json_object_def)
qed

lemma json_wf_object [simp, json_simps]:
  assumes "distinct (map fst fs)"
  shows "json_wf (json_object fs) \<longleftrightarrow> (\<forall>p \<in> set fs. json_wf (snd p))"
proof -
  have "sorted_wrt (<) (map fst (sort_key fst fs))"
    using assms by (simp add: strict_sorted_iff distinct_map)
  then show ?thesis by (auto simp: json_object_def)
qed

lemma json_ok_wf: "json_ok k v \<Longrightarrow> json_wf v"
  by (simp add: json_ok_def)

lemma json_ok_option [simp, json_simps]:
  "json_ok k (json_option f v) \<longleftrightarrow> (\<forall>x. v = Some x \<longrightarrow> json_ok k (f x))"
  by (auto simp: json_option_def split: option.splits)

lemma depth_ok_mono: "depth_ok k v \<Longrightarrow> k \<le> l \<Longrightarrow> depth_ok l v"
proof (induction v arbitrary: k l)
  case (JArray vs)
  then show ?case by (auto dest: diff_le_mono)
next
  case (JObject m)
  then show ?case by (fastforce simp: snds.simps dest: diff_le_mono)
qed simp_all

lemma json_ok_mono: "json_ok k v \<Longrightarrow> k \<le> l \<Longrightarrow> json_ok l v"
  by (auto simp: json_ok_def dest: depth_ok_mono)

lemma max_depth_Suc [json_simps]: "max_depth = Suc (Suc (Suc (Suc (Suc (Suc 122)))))"
  by (simp add: max_depth_def)

lemma json_ok_shallow: "(\<And>k. json_ok (Suc (Suc (Suc (Suc (Suc (Suc k)))))) v) \<Longrightarrow> json_ok max_depth v"
  by (simp only: max_depth_Suc)

lemma json_option_inject [simp]:
  assumes "\<And>x y. f x = f y \<longleftrightarrow> x = y" and "\<And>x. f x \<noteq> JNull"
  shows "json_option f v = json_option f w \<longleftrightarrow> v = w"
  using assms(2) [symmetric] by (auto simp: json_option_def assms split: option.splits)

lemma alist_eqI:
  assumes "map fst fs = map fst gs" and "distinct (map fst fs)" and "set fs = set gs"
  shows "fs = gs"
proof (rule nth_equalityI)
  show "length fs = length gs" using assms(1) by (metis length_map)
  fix i assume i: "i < length fs"
  then have k: "fst (fs ! i) = fst (gs ! i)" using assms(1) by (metis length_map nth_map)
  have "fs ! i \<in> set fs" "gs ! i \<in> set fs"
    using i \<open>length fs = length gs\<close> assms(3) nth_mem by metis+
  with k assms(2) show "fs ! i = gs ! i"
    by (metis eq_key_imp_eq_value prod.collapse)
qed

lemma json_object_inject:
  assumes "map fst fs = map fst gs" and "distinct (map fst fs)"
  shows "json_object fs = json_object gs \<longleftrightarrow> map snd fs = map snd gs"
proof
  assume "json_object fs = json_object gs"
  then have "set (sort_key fst fs) = set (sort_key fst gs)" by (simp add: json_object_def)
  with assms have "fs = gs" by (intro alist_eqI) simp_all
  then show "map snd fs = map snd gs" by simp
next
  assume "map snd fs = map snd gs"
  then show "json_object fs = json_object gs"
    using assms(1) by (metis zip_map_fst_snd)
qed

text \<open>Tagged objects with different tags differ.\<close>

lemma json_object_tag:
  "json_object ((k, JString a) # fs) = json_object ((k, JString b) # gs) \<Longrightarrow>
     k \<notin> fst ` set fs \<Longrightarrow> k \<notin> fst ` set gs \<Longrightarrow> a = b"
proof -
  assume eq: "json_object ((k, JString a) # fs) = json_object ((k, JString b) # gs)"
    and no: "k \<notin> fst ` set fs" "k \<notin> fst ` set gs"
  have "set (sort_key fst ((k, JString a) # fs)) = set (sort_key fst ((k, JString b) # gs))"
    by (rule arg_cong [of _ _ set]) (use eq in \<open>simp only: json_object_def json.inject\<close>)
  then have "set ((k, JString a) # fs) = set ((k, JString b) # gs)" by (simp only: set_sort)
  moreover have "(k, JString a) \<in> set ((k, JString a) # fs)" by (rule list.set_intros)
  ultimately have "(k, JString a) \<in> set ((k, JString b) # gs)" by (simp only:)
  then have "JString a = JString b \<or> (k, JString a) \<in> set gs" by auto
  moreover have "(k, JString a) \<notin> set gs" using no(2) by (metis fst_conv image_eqI)
  ultimately show "a = b" by simp
qed

lemmas json_object_kind = json_object_tag [of "''kind''"]

subsection \<open>Content addressing\<close>

text \<open>\<open>let bytes = canonical_bytes(&envelope)?; Ok(sha256(&bytes))\<close>\<close>

definition content_id :: "libs \<Rightarrow> json \<Rightarrow> (canon_error, content_hash) result" where
  "content_id L v = and_then (canonical_bytes L v) (\<lambda>bytes. Inr (sha256 L bytes))"

definition preimage :: "libs \<Rightarrow> json \<Rightarrow> string" where
  "preimage L v = (case canonical_bytes L v of Inl _ \<Rightarrow> [] | Inr b \<Rightarrow> b)"

lemma content_id_eq:
  assumes "libs_ok L" and "json_ok max_depth v"
  shows "content_id L v = Inr (sha256 L (preimage L v))"
  using canonical_bytes_ok [OF assms(1), of v] assms(2)
  by (auto simp: json_ok_def content_id_def preimage_def is_ok_iff)

lemma preimage_inject:
  assumes "libs_ok L" and "json_ok max_depth v" and "json_ok max_depth w"
    and "preimage L v = preimage L w"
  shows "v = w"
proof -
  from assms obtain b where "canonical_bytes L v = Inr b" "canonical_bytes L w = Inr b"
    using canonical_bytes_ok [OF assms(1), of v] canonical_bytes_ok [OF assms(1), of w]
    by (auto simp: json_ok_def preimage_def is_ok_iff)
  with assms show ?thesis using canonical_bytes_inject by (auto simp: json_ok_def)
qed

locale artifact =
  fixes env :: "libs \<Rightarrow> 'a \<Rightarrow> json" and wf :: "'a \<Rightarrow> bool"
  assumes env_ok: "wf x \<Longrightarrow> json_ok max_depth (env L x)"
    and env_inject: "libs_ok L \<Longrightarrow> wf x \<Longrightarrow> wf y \<Longrightarrow> env L x = env L y \<Longrightarrow> x = y"
begin

lemma hash_total:
  "libs_ok L \<Longrightarrow> wf x \<Longrightarrow> content_id L (env L x) = Inr (sha256 L (preimage L (env L x)))"
  by (simp add: content_id_eq env_ok)

lemma preimage_determines:
  "libs_ok L \<Longrightarrow> wf x \<Longrightarrow> wf y \<Longrightarrow> preimage L (env L x) = preimage L (env L y) \<Longrightarrow> x = y"
  by (rule env_inject [OF _ _ _ preimage_inject]) (simp_all add: env_ok)

lemma hash_determines:
  assumes "libs_ok L" and "wf x" and "wf y"
    and "content_id L (env L x) = Inr h" and "content_id L (env L y) = Inr h"
    and "no_collision L {preimage L (env L x), preimage L (env L y)}"
  shows "x = y"
proof -
  have "sha2_digest L (preimage L (env L x)) = sha2_digest L (preimage L (env L y))"
    using assms(4,5) unfolding hash_total [OF assms(1,2)] hash_total [OF assms(1,3)] sha256_def
    by simp
  then have "preimage L (env L x) = preimage L (env L y)"
    by (intro no_collisionD [OF assms(6)]) simp_all
  then show ?thesis by (rule preimage_determines [OF assms(1-3)])
qed

end

subsection \<open>Digests that tell two values apart\<close>

text \<open>The encoding does not depend on the digest, so a digest can be chosen that tells one value
  apart from every other: the instance that shows a hypothesis \<open>no_collision\<close> can hold.\<close>

lemma write_fields_demo: "write_fields (demo_libs g) first keys vs = write_fields (demo_libs h) first keys vs"
  by (induction keys arbitrary: first) (simp_all add: write_string_def demo_libs_def)

lemma write_value_demo: "write_value (demo_libs g) v d = write_value (demo_libs h) v d"
proof (induction v arbitrary: d)
  case (JArray items)
  then have "map (\<lambda>i. write_value (demo_libs g) i (d + 1)) items = map (\<lambda>i. write_value (demo_libs h) i (d + 1)) items"
    by (intro map_cong) simp_all
  then show ?case by (simp only: write_value.simps)
next
  case (JObject m)
  then have "map (\<lambda>(k, v). (k, write_value (demo_libs g) v (d + 1))) m =
      map (\<lambda>(k, v). (k, write_value (demo_libs h) v (d + 1))) m"
    by (intro map_cong) auto
  then show ?case by (simp only: write_value.simps write_fields_demo [of g _ _ _ h])
qed (simp_all add: write_string_def demo_libs_def)

lemma preimage_demo: "preimage (demo_libs g) v = preimage (demo_libs h) v"
  by (simp add: preimage_def canonical_bytes_def write_value_demo [of g v 0 h])

definition telling_libs :: "json \<Rightarrow> libs" where
  "telling_libs v = demo_libs (\<lambda>s. hash_of_byte
     (if s = preimage (demo_libs (\<lambda>_. hash_of_byte (CHR 0x00))) v then CHR 0x01 else CHR 0x02))"

lemma telling_libs_ok [simp]: "libs_ok (telling_libs v)"
  by (simp add: telling_libs_def)

lemma telling_libs_no_collision:
  "no_collision (telling_libs v) {preimage (telling_libs v) v, preimage (telling_libs v) w}"
proof -
  have "preimage (telling_libs v) v = preimage (demo_libs (\<lambda>_. hash_of_byte (CHR 0x00))) v"
    unfolding telling_libs_def by (rule preimage_demo)
  then show ?thesis by (simp add: no_collision_def inj_on_def) (simp add: telling_libs_def)
qed

subsection \<open>Properties\<close>

text \<open>The canonical encoder accepts exactly the JSON values that contain no float and nest at most
  128 levels; everything else is an error.\<close>

theorem canonical_accepts:
  assumes "libs_ok L" and "json_wf v"
  shows "is_ok (canonical_bytes L v) \<longleftrightarrow> float_free v \<and> depth_ok max_depth v"
  using assms by (rule canonical_bytes_ok)

theorem canonical_accepts_witness:
  "\<not> is_ok (canonical_bytes (demo_libs (\<lambda>_. hash_of_byte (CHR 0x00))) (JArray [JNumber (PosInt 7), JNumber (Float ''0.5'')]))"
  using canonical_accepts [of "demo_libs (\<lambda>_. hash_of_byte (CHR 0x00))" "JArray [JNumber (PosInt 7), JNumber (Float ''0.5'')]"]
  by simp

text \<open>C5: The canonical encoding is injective: two well-formed JSON values with the same canonical
  bytes are the same value, so a content hash identifies the value and not just its text.\<close>

theorem canonical_injective:
  assumes "libs_ok L" and "json_wf v" and "json_wf w"
    and "canonical_bytes L v = Inr b" and "canonical_bytes L w = Inr b"
  shows "v = w"
  using assms by (rule canonical_bytes_inject)

theorem canonical_injective_witness:
  "canonical_bytes (demo_libs (\<lambda>_. hash_of_byte (CHR 0x00))) (json_object [(''b'', JNull), (''a'', JBool True)]) =
     canonical_bytes (demo_libs (\<lambda>_. hash_of_byte (CHR 0x00))) (JObject [(''a'', JBool True), (''b'', JNull)]) \<and>
   json_object [(''b'', JNull), (''a'', JBool True)] = JObject [(''a'', JBool True), (''b'', JNull)]"
proof -
  let ?L = "demo_libs (\<lambda>_. hash_of_byte (CHR 0x00))"
  let ?v = "json_object [(''b'', JNull), (''a'', JBool True)]" and ?w = "JObject [(''a'', JBool True), (''b'', JNull)]"
  have wf: "json_wf ?v" "json_wf ?w" by simp_all
  obtain b where b: "canonical_bytes ?L ?w = Inr b"
    using canonical_bytes_ok [OF demo_libs_ok wf(2)] by (auto simp: is_ok_iff max_depth_def)
  have same: "canonical_bytes ?L ?v = canonical_bytes ?L ?w" by (simp add: json_object_def)
  from canonical_injective [OF demo_libs_ok wf _ b] same b show ?thesis by simp
qed

end
