(* ===== verification/Jsonl.thy ===== *)
theory Jsonl
  imports Canon
begin

section \<open>Append-only line logs\<close>

text \<open>
  What \<open>crates/treasury-evidence/src/file.rs\<close> and \<open>crates/treasury-ledger/src/file.rs\<close>
  share: the search for the end of the last complete line, splitting into lines, the replay
  loop of \<open>open_internal\<close> and its handling of a torn tail, and writes that may fail after
  some of the bytes reached the file. The operating system's answers are arguments: the
  outcome of reading the file, of each write and sync, and of the truncation. A file is a list of
  bytes; \<open>read_to_string\<close> refuses it when the bytes are not UTF-8, before anything is looked at.

  The locale \<open>durable_log\<close> is the contract between a log's writer and its loader: the line
  written for an operation replays to that operation. Inside it, reopening a log gives back
  the state, a torn tail is refused, and recovery drops exactly the torn bytes, unless the tail ends inside
  a character: then the file cannot be read at all.
\<close>

definition newline :: char where "newline = CHR 0x0A"

definition carriage_return :: char where "carriage_return = CHR 0x0D"

fun rfind :: "char \<Rightarrow> string \<Rightarrow> nat option" where
  "rfind c [] = None"
| "rfind c (x # xs) =
     (case rfind c xs of Some i \<Rightarrow> Some (Suc i) | None \<Rightarrow> if x = c then Some 0 else None)"

definition complete_len :: "string \<Rightarrow> nat" where
  "complete_len raw = (case rfind newline raw of Some last_newline \<Rightarrow> Suc last_newline | None \<Rightarrow> 0)"

definition strip_cr :: "string \<Rightarrow> string" where
  "strip_cr l = (if l \<noteq> [] \<and> last l = carriage_return then butlast l else l)"

fun lines_from :: "string \<Rightarrow> string \<Rightarrow> string list" where
  "lines_from acc [] = (if acc = [] then [] else [acc])"
| "lines_from acc (c # cs) =
     (if c = newline then strip_cr acc # lines_from [] cs else lines_from (acc @ [c]) cs)"

definition lines_of :: "string \<Rightarrow> string list" where
  "lines_of s = lines_from [] s"

subsection \<open>Reading a file into a string\<close>

text \<open>
  \<open>String\<close> is UTF-8. A lead byte announces the ranges of the bytes that must follow it (the table of the Unicode
  standard, which excludes overlong forms, surrogates and code points past \<open>10FFFF\<close>); the check runs over the bytes
  with the ranges still awaited.
\<close>

definition utf8_follow :: "nat \<Rightarrow> (nat \<times> nat) list option" where
  "utf8_follow b =
     (let cont = (0x80, 0xBF) in
      if b \<le> 0x7F then Some []
      else if 0xC2 \<le> b \<and> b \<le> 0xDF then Some [cont]
      else if b = 0xE0 then Some [(0xA0, 0xBF), cont]
      else if b = 0xED then Some [(0x80, 0x9F), cont]
      else if 0xE1 \<le> b \<and> b \<le> 0xEF then Some [cont, cont]
      else if b = 0xF0 then Some [(0x90, 0xBF), cont, cont]
      else if 0xF1 \<le> b \<and> b \<le> 0xF3 then Some [cont, cont, cont]
      else if b = 0xF4 then Some [(0x80, 0x8F), cont, cont]
      else None)"

fun utf8_from :: "(nat \<times> nat) list \<Rightarrow> string \<Rightarrow> bool" where
  "utf8_from [] [] = True"
| "utf8_from (r # rs) [] = False"
| "utf8_from ((low, high) # rs) (c # cs) = (low \<le> of_char c \<and> of_char c \<le> high \<and> utf8_from rs cs)"
| "utf8_from [] (c # cs) = (case utf8_follow (of_char c) of None \<Rightarrow> False | Some rs \<Rightarrow> utf8_from rs cs)"

definition utf8_ok :: "string \<Rightarrow> bool" where
  "utf8_ok s = utf8_from [] s"

definition invalid_utf8 :: string where
  "invalid_utf8 = ''stream did not contain valid UTF-8''"

definition read_to_string :: "(string, string) result \<Rightarrow> (string, string) result" where
  "read_to_string read_outcome =
     and_then read_outcome (\<lambda>bytes. if utf8_ok bytes then Inr bytes else Inl invalid_utf8)"

fun replay :: "(nat \<Rightarrow> string \<Rightarrow> 's \<Rightarrow> ('e, 's) result) \<Rightarrow> nat \<Rightarrow> string list \<Rightarrow> 's \<Rightarrow> ('e, 's) result"
where
  "replay step i [] s = Inr s"
| "replay step i (l # ls) s = and_then (step i l s) (replay step (Suc i) ls)"

definition open_log :: "(string \<Rightarrow> 'e) \<Rightarrow> 'e \<Rightarrow> (nat \<Rightarrow> string \<Rightarrow> 's \<Rightarrow> ('e, 's) result) \<Rightarrow> 's
  \<Rightarrow> (string, string) result \<Rightarrow> string option \<Rightarrow> bool \<Rightarrow> ('e, 's \<times> string) result" where
  "open_log io torn_tail step fresh read_outcome truncate_error recover =
     and_then (map_err io (read_to_string read_outcome)) (\<lambda>raw.
       let n = complete_len raw; torn = (n < length raw); complete = take n raw in
       if torn \<and> \<not> recover then Inl torn_tail
       else and_then (replay step 0 (lines_of complete) fresh) (\<lambda>s.
         if torn then
           (case truncate_error of Some e \<Rightarrow> Inl (io e) | None \<Rightarrow> Inr (s, complete))
         else Inr (s, raw)))"

subsection \<open>Writes\<close>

text \<open>A failing \<open>write_all\<close> may have written some of its bytes.\<close>

datatype write_outcome = WriteOk | WriteErr nat string

fun write_all :: "write_outcome \<Rightarrow> string \<Rightarrow> string \<Rightarrow> (string, unit) result \<times> string" where
  "write_all WriteOk bytes file = (Inr (), file @ bytes)"
| "write_all (WriteErr n e) bytes file = (Inl e, file @ take n bytes)"

fun sync_all :: "string option \<Rightarrow> (string, unit) result" where
  "sync_all None = Inr ()"
| "sync_all (Some e) = Inl e"

lemma utf8_from_append: "utf8_from rs s \<Longrightarrow> utf8_from rs (s @ t) = utf8_ok t"
  by (induction rs s rule: utf8_from.induct) (auto simp: utf8_ok_def split: option.splits)

lemma utf8_append: "utf8_ok s \<Longrightarrow> utf8_ok (s @ t) = utf8_ok t"
  using utf8_from_append [of "[]" s t] by (simp add: utf8_ok_def)

lemma utf8_Nil [simp]: "utf8_ok []"
  by (simp add: utf8_ok_def)

text \<open>Plain ASCII.\<close>

definition ascii :: "string \<Rightarrow> bool" where
  "ascii s \<longleftrightarrow> list_all (\<lambda>c. of_char c \<le> (0x7F :: nat)) s"

lemma ascii_simps [simp]:
  "ascii []" "ascii (c # s) \<longleftrightarrow> of_char c \<le> (0x7F :: nat) \<and> ascii s" "ascii (s @ t) \<longleftrightarrow> ascii s \<and> ascii t"
  by (simp_all add: ascii_def)

lemma ascii_subset: "ascii s \<Longrightarrow> set t \<subseteq> set s \<Longrightarrow> ascii t"
  by (auto simp: ascii_def list_all_iff)

lemma utf8_Cons: "of_char c \<le> (0x7F :: nat) \<Longrightarrow> utf8_ok (c # s) = utf8_ok s"
  by (simp add: utf8_ok_def utf8_follow_def)

lemma ascii_utf8: "ascii s \<Longrightarrow> utf8_ok s"
  by (induction s) (simp_all add: utf8_Cons)

lemma utf8_newline [simp]: "utf8_ok (newline # s) = utf8_ok s"
  by (rule utf8_Cons) (simp add: newline_def)

subsection \<open>Lines\<close>

definition unlines :: "string list \<Rightarrow> string" where
  "unlines ls = concat (map (\<lambda>l. l @ [newline]) ls)"

text \<open>A line that comes back from \<open>lines_of\<close> as it was written.\<close>

definition is_line :: "string \<Rightarrow> bool" where
  "is_line l \<longleftrightarrow> newline \<notin> set l \<and> (l = [] \<or> last l \<noteq> carriage_return) \<and> utf8_ok l"

lemma unlines_simps [simp]:
  "unlines [] = []" "unlines (l # ls) = l @ newline # unlines ls"
  "unlines (ls @ ms) = unlines ls @ unlines ms"
  by (simp_all add: unlines_def)

lemma lines_from_line:
  "newline \<notin> set l \<Longrightarrow> lines_from acc (l @ newline # r) = strip_cr (acc @ l) # lines_from [] r"
  by (induction l arbitrary: acc) auto

lemma strip_cr_line [simp]: "is_line l \<Longrightarrow> strip_cr l = l"
  by (auto simp: is_line_def strip_cr_def)

lemma lines_of_unlines_append: "\<forall>l \<in> set ls. is_line l \<Longrightarrow> lines_of (unlines ls @ s) = ls @ lines_of s"
proof (induction ls)
  case (Cons l ls)
  then have "newline \<notin> set l" "is_line l" by (auto simp: is_line_def)
  with Cons show ?case by (simp add: lines_of_def lines_from_line)
qed simp

lemma lines_of_unlines: "\<forall>l \<in> set ls. is_line l \<Longrightarrow> lines_of (unlines ls) = ls"
  using lines_of_unlines_append [of ls "[]"] by (simp add: lines_of_def)

lemma utf8_unlines: "\<forall>l \<in> set ls. is_line l \<Longrightarrow> utf8_ok (unlines ls @ s) = utf8_ok s"
  by (induction ls) (auto simp: is_line_def utf8_append)

lemma rfind_None [simp]: "c \<notin> set s \<Longrightarrow> rfind c s = None"
  by (induction s) auto

lemma rfind_append:
  "rfind c (s @ t) = (case rfind c t of Some i \<Rightarrow> Some (length s + i) | None \<Rightarrow> rfind c s)"
  by (induction s) (auto split: option.splits)

lemma complete_len_unlines:
  assumes "newline \<notin> set tail"
  shows "complete_len (unlines ls @ tail) = length (unlines ls)"
proof (cases ls rule: rev_cases)
  case Nil
  then show ?thesis using assms by (simp add: complete_len_def)
next
  case (snoc ms l)
  then show ?thesis using assms by (simp add: complete_len_def rfind_append)
qed

lemma open_log_unlines:
  assumes "\<forall>l \<in> set ls. is_line l" and "newline \<notin> set tail"
  shows "open_log io torn step fresh (Inr (unlines ls @ tail)) tr rec =
    (if \<not> utf8_ok tail then Inl (io invalid_utf8)
     else if tail \<noteq> [] \<and> \<not> rec then Inl torn
     else and_then (replay step 0 ls fresh)
       (\<lambda>s. if tail \<noteq> [] then (case tr of Some e \<Rightarrow> Inl (io e) | None \<Rightarrow> Inr (s, unlines ls))
            else Inr (s, unlines ls)))"
proof -
  have n: "complete_len (unlines ls @ tail) = length (unlines ls)"
    by (rule complete_len_unlines [OF assms(2)])
  have t: "take (length (unlines ls)) (unlines ls @ tail) = unlines ls" by simp
  have u: "utf8_ok (unlines ls @ tail) = utf8_ok tail" by (rule utf8_unlines [OF assms(1)])
  show ?thesis
    unfolding open_log_def Let_def read_to_string_def and_then.simps u
    using n t by (cases "utf8_ok tail"; cases "tail = []"; cases tr) (simp_all add: lines_of_unlines [OF assms(1)])
qed

subsection \<open>The contract of a durable log\<close>

locale durable_log =
  fixes step :: "nat \<Rightarrow> string \<Rightarrow> 's \<Rightarrow> ('e, 's) result"
    and fresh :: 's
    and line_of :: "'op \<Rightarrow> string"
    and ok :: "'op \<Rightarrow> 's \<Rightarrow> bool"
    and effect :: "'op \<Rightarrow> 's \<Rightarrow> 's"
  assumes line_ok: "ok x s \<Longrightarrow> is_line (line_of x)"
    and step_line: "ok x s \<Longrightarrow> step i (line_of x) s = Inr (effect x s)"
begin

fun run :: "'op list \<Rightarrow> 's \<Rightarrow> 's option" where
  "run [] s = Some s"
| "run (x # xs) s = (if ok x s then run xs (effect x s) else None)"

text \<open>The file holds exactly the lines of the operations that led to the state.\<close>

definition committed :: "'s \<Rightarrow> string \<Rightarrow> bool" where
  "committed s file \<longleftrightarrow> (\<exists>ops. run ops fresh = Some s \<and> file = unlines (map line_of ops))"

lemma run_append: "run (xs @ ys) s = Option.bind (run xs s) (run ys)"
  by (induction xs arbitrary: s) auto

lemma run_replay:
  "run ops s = Some s' \<Longrightarrow>
     replay step i (map line_of ops) s = Inr s' \<and> (\<forall>l \<in> set (map line_of ops). is_line l)"
  by (induction ops arbitrary: s i) (auto simp: step_line line_ok split: if_splits)

lemma committed_fresh: "committed fresh []"
  unfolding committed_def by (rule exI [of _ "[]"]) simp

lemma committed_append:
  assumes "committed s file" and "ok x s"
  shows "committed (effect x s) (file @ line_of x @ [newline])"
proof -
  obtain ops where "run ops fresh = Some s" "file = unlines (map line_of ops)"
    using assms(1) by (auto simp: committed_def)
  with assms(2) show ?thesis
    unfolding committed_def by (intro exI [of _ "ops @ [x]"]) (simp add: run_append)
qed

lemma open_committed:
  "committed s file \<Longrightarrow> open_log io torn step fresh (Inr file) tr rec = Inr (s, file)"
  using open_log_unlines [of _ "[]" io torn step fresh tr rec] run_replay [of _ fresh s 0]
  by (fastforce simp: committed_def)

lemma committed_lines:
  assumes "committed s file"
  obtains ops where "run ops fresh = Some s" "file = unlines (map line_of ops)"
    "\<forall>l \<in> set (map line_of ops). is_line l" "replay step 0 (map line_of ops) fresh = Inr s"
  using assms run_replay [of _ fresh s 0] by (auto simp: committed_def)

lemma open_tail:
  assumes "committed s file" and "newline \<notin> set tail" and "tail \<noteq> []"
  shows "open_log io torn step fresh (Inr (file @ tail)) tr False = Inl (if utf8_ok tail then torn else io invalid_utf8)"
    and "open_log io torn step fresh (Inr (file @ tail)) None True =
      (if utf8_ok tail then Inr (s, file) else Inl (io invalid_utf8))"
proof -
  obtain ops where f: "file = unlines (map line_of ops)" and lines: "\<forall>l \<in> set (map line_of ops). is_line l"
    and play: "replay step 0 (map line_of ops) fresh = Inr s"
    by (rule committed_lines [OF assms(1)])
  show "open_log io torn step fresh (Inr (file @ tail)) tr False = Inl (if utf8_ok tail then torn else io invalid_utf8)"
    "open_log io torn step fresh (Inr (file @ tail)) None True =
      (if utf8_ok tail then Inr (s, file) else Inl (io invalid_utf8))"
    unfolding f open_log_unlines [OF lines assms(2)] using play assms(3) by simp_all
qed

text \<open>
  A complete line the loader refuses makes the whole file refused, with and without recovery, whatever is
  written after it.
\<close>

lemma replay_append:
  "replay step i (xs @ ys) s = and_then (replay step i xs s) (replay step (i + length xs) ys)"
proof (induction xs arbitrary: i s)
  case (Cons x xs)
  then show ?case by (cases "step i x s") auto
qed simp

lemma open_refused:
  assumes "committed s file" and "is_line l" and "\<And>i. \<exists>n. step i l s = Inl (err n)"
  shows "\<exists>n. open_log io torn step fresh (Inr (file @ l @ newline # later)) tr rec \<in> {Inl (err n), Inl torn, Inl (io invalid_utf8)} \<and>
    (later = [] \<longrightarrow> open_log io torn step fresh (Inr (file @ l @ newline # later)) tr rec = Inl (err n))"
proof -
  obtain ops where f: "file = unlines (map line_of ops)" and lines: "\<forall>l \<in> set (map line_of ops). is_line l"
    and play: "replay step 0 (map line_of ops) fresh = Inr s"
    by (rule committed_lines [OF assms(1)])
  obtain n where n: "step (length ops) l s = Inl (err n)" using assms(3) by blast
  define ls where "ls = map line_of ops @ [l]"
  define raw where "raw = unlines ls @ later"
  have ls: "\<forall>m \<in> set ls. is_line m" using lines assms(2) by (auto simp: ls_def)
  have raw: "file @ l @ newline # later = raw" by (simp add: f raw_def ls_def)
  have len: "length (unlines ls) \<le> complete_len raw"
    by (auto simp: raw_def ls_def complete_len_def rfind_append split: option.splits)
  have "lines_of (take (complete_len raw) raw) = ls @ lines_of (take (complete_len raw - length (unlines ls)) later)"
    unfolding raw_def take_append take_all [OF len [unfolded raw_def]] by (rule lines_of_unlines_append [OF ls])
  then have refused: "replay step 0 (lines_of (take (complete_len raw) raw)) fresh = Inl (err n)"
    using play n by (simp add: replay_append ls_def)
  have "later = [] \<Longrightarrow> complete_len raw = length raw \<and> utf8_ok raw"
    using complete_len_unlines [of "[]" ls] utf8_unlines [OF ls, of "[]"] by (simp add: raw_def)
  moreover from this have "later = [] \<Longrightarrow> replay step 0 (lines_of raw) fresh = Inl (err n)" using refused by simp
  ultimately show ?thesis
    unfolding raw open_log_def read_to_string_def and_then.simps Let_def
    by (intro exI [of _ n]) (auto simp: refused)
qed

lemma open_refused_last:
  assumes "committed s file" and "is_line l" and "\<And>i. \<exists>n. step i l s = Inl (err n)"
  shows "\<exists>n. open_log io torn step fresh (Inr (file @ l @ [newline])) tr rec = Inl (err n)"
  using open_refused [OF assms, of io torn "[]"] by blast

end

end
