(* ===== verification/Evidence_File.thy ===== *)
theory Evidence_File
  imports Evidence_Store Jsonl
begin

section \<open>The durable evidence store (treasury-evidence, file.rs)\<close>

text \<open>
  Models \<open>crates/treasury-evidence/src/file.rs\<close>. The state is the in-memory store and the
  bytes of the file. The JSON parser (\<open>serde_json::from_str\<close>) is the parameter \<open>P\<close>;
  \<open>file_env_ok L P\<close> says what the code relies on: hex text consists of hex digits, and \<open>P\<close>
  reads back the one-line object that \<open>persist\<close> writes. The trait contract holds for this
  backend too, and reopening a store whose writes all succeeded gives back the same store.
  After a failed write the in-memory store keeps the entry: the lemma
  \<open>fes_put_retry\<close> shows that the retry reports success and writes nothing.
\<close>

datatype file_store_error =
    FsIo string
  | FsCorruptRecord nat string
  | FsTornTail
  | FsStore store_error

record file_evidence_store =
  fes_inner :: evidence_mem
  fes_file :: string

definition json_get :: "json \<Rightarrow> string \<Rightarrow> json option" where
  "json_get v k = (case v of JObject m \<Rightarrow> map_of m k | _ \<Rightarrow> None)"

definition json_as_str :: "json \<Rightarrow> string option" where
  "json_as_str v = (case v of JString s \<Rightarrow> Some s | _ \<Rightarrow> None)"

definition store_error_text :: "libs \<Rightarrow> store_error \<Rightarrow> string" where
  "store_error_text L e =
     (case e of NotFound h \<Rightarrow> ''evidence not found: '' @ to_hex L h
      | IntegrityViolation h \<Rightarrow> ''integrity violation for '' @ to_hex L h
      | StoreBackend m \<Rightarrow> ''backend failure: '' @ m)"

definition file_store_error_text :: "libs \<Rightarrow> file_store_error \<Rightarrow> string" where
  "file_store_error_text L e =
     (case e of FsIo m \<Rightarrow> ''io failure: '' @ m
      | FsCorruptRecord line detail \<Rightarrow> ''corrupt record at line '' @ show_nat line @ '': '' @ detail
      | FsTornTail \<Rightarrow> ''torn trailing record; open_with_recovery truncates it''
      | FsStore s \<Rightarrow> store_error_text L s)"

subsection \<open>Opening\<close>

definition fes_load_line :: "libs \<Rightarrow> (string \<Rightarrow> json option) \<Rightarrow> nat \<Rightarrow> string \<Rightarrow> evidence_mem
  \<Rightarrow> (file_store_error, evidence_mem) result" where
  "fes_load_line L P index line inner =
     and_then (ok_or (FsCorruptRecord index ''not json'') (P line)) (\<lambda>record.
     and_then (ok_or (FsCorruptRecord index ''missing hash'')
       (Option.bind (json_get record ''hash'') json_as_str)) (\<lambda>hash_hex.
     and_then (ok_or (FsCorruptRecord index ''missing blob'')
       (Option.bind (json_get record ''blob'') json_as_str)) (\<lambda>blob_hex.
     and_then (map_err (\<lambda>_. FsCorruptRecord index ''bad hash hex'') (from_hex L hash_hex)) (\<lambda>recorded.
     and_then (ok_or (FsCorruptRecord index ''bad blob hex'') (hex_decode L blob_hex)) (\<lambda>blob.
       if sha256 L blob \<noteq> recorded
       then Inl (FsCorruptRecord index ''blob does not match hash'')
       else (case es_put L blob inner of (r, inner') \<Rightarrow>
         and_then (map_err FsStore r) (\<lambda>stored.
           if stored \<noteq> recorded then Inl (FsCorruptRecord index ''hash mismatch on replay'')
           else Inr inner')))))))"

definition fes_open_internal :: "libs \<Rightarrow> (string \<Rightarrow> json option) \<Rightarrow> (string, string) result
  \<Rightarrow> string option \<Rightarrow> bool \<Rightarrow> (file_store_error, file_evidence_store) result" where
  "fes_open_internal L P read_outcome truncate_error recover =
     and_then (open_log FsIo FsTornTail (fes_load_line L P) es_new read_outcome truncate_error recover)
       (\<lambda>(inner, bytes). Inr \<lparr>fes_inner = inner, fes_file = bytes\<rparr>)"

definition fes_open :: "libs \<Rightarrow> (string \<Rightarrow> json option) \<Rightarrow> (string, string) result
  \<Rightarrow> (file_store_error, file_evidence_store) result" where
  "fes_open L P read_outcome = fes_open_internal L P read_outcome None False"

definition fes_open_with_recovery :: "libs \<Rightarrow> (string \<Rightarrow> json option) \<Rightarrow> (string, string) result
  \<Rightarrow> string option \<Rightarrow> (file_store_error, file_evidence_store) result" where
  "fes_open_with_recovery L P read_outcome truncate_error =
     fes_open_internal L P read_outcome truncate_error True"

subsection \<open>Writing\<close>

definition record_line :: "libs \<Rightarrow> content_hash \<Rightarrow> string \<Rightarrow> string" where
  "record_line L hash bytes =
     ''{'' @ [CHR 0x22] @ ''hash'' @ [CHR 0x22] @ '':'' @ [CHR 0x22] @ to_hex L hash @ [CHR 0x22] @
     '','' @ [CHR 0x22] @ ''blob'' @ [CHR 0x22] @ '':'' @ [CHR 0x22] @ hex_encode L bytes @ [CHR 0x22] @ ''}''"

definition fes_persist :: "libs \<Rightarrow> write_outcome \<times> string option \<Rightarrow> content_hash \<Rightarrow> string \<Rightarrow> string
  \<Rightarrow> (file_store_error, unit) result \<times> string" where
  "fes_persist L os hash bytes f =
     (case write_all (fst os) (record_line L hash bytes @ [newline]) f of
        (Inl e, f') \<Rightarrow> (Inl (FsIo e), f')
      | (Inr _, f') \<Rightarrow> (map_err FsIo (sync_all (snd os)), f'))"

definition fes_put :: "libs \<Rightarrow> write_outcome \<times> string option \<Rightarrow> string \<Rightarrow> file_evidence_store
  \<Rightarrow> (store_error, content_hash) result \<times> file_evidence_store" where
  "fes_put L os bytes s =
     (let before = es_len (fes_inner s) in
      case es_put L bytes (fes_inner s) of
        (Inl e, inner) \<Rightarrow> (Inl e, s\<lparr>fes_inner := inner\<rparr>)
      | (Inr hash, inner) \<Rightarrow>
          (if before < es_len inner
           then (case fes_persist L os hash bytes (fes_file s) of
                   (r, f) \<Rightarrow>
                     (and_then (map_err (\<lambda>e. StoreBackend (file_store_error_text L e)) r) (\<lambda>_. Inr hash),
                      s\<lparr>fes_inner := inner, fes_file := f\<rparr>))
           else (Inr hash, s\<lparr>fes_inner := inner\<rparr>)))"

definition fes_get :: "file_evidence_store \<Rightarrow> content_hash \<Rightarrow> (store_error, string) result" where
  "fes_get s = es_get (fes_inner s)"

definition fes_verify :: "libs \<Rightarrow> file_evidence_store \<Rightarrow> content_hash \<Rightarrow> (store_error, unit) result" where
  "fes_verify L s = es_verify L (fes_inner s)"

definition fes_tree_head :: "libs \<Rightarrow> file_evidence_store \<Rightarrow> content_hash" where
  "fes_tree_head L s = es_tree_head L (fes_inner s)"

definition fes_tree_head_at :: "libs \<Rightarrow> file_evidence_store \<Rightarrow> nat \<Rightarrow> content_hash option" where
  "fes_tree_head_at L s = es_tree_head_at L (fes_inner s)"

definition fes_len :: "file_evidence_store \<Rightarrow> nat" where
  "fes_len s = es_len (fes_inner s)"

subsection \<open>The trait contract\<close>

lemma fes_put_inner: "fes_inner (snd (fes_put L os b s)) = snd (es_put L b (fes_inner s))"
  by (simp add: fes_put_def es_put_def Let_def split: prod.splits)

lemma fes_put_result:
  "fst (fes_put L os b s) = Inr h \<Longrightarrow> h = sha256 L b"
  by (auto simp: fes_put_def es_put_def Let_def result_simps split: if_splits prod.splits)

lemmas fes_lift = fes_put_inner fes_get_def fes_verify_def fes_tree_head_def fes_tree_head_at_def
  fes_len_def

interpretation durable: evidence_store L "\<lambda>s. es_inv L (fes_inner s)" "fes_put L" fes_get
  "fes_verify L" "fes_tree_head L" "fes_tree_head_at L" fes_len
  for L
proof (unfold_locales, unfold fes_lift)
  fix s h b os
  assume "fst (fes_put L os b s) = Inr h"
  then have h: "h = sha256 L b" by (rule fes_put_result)
  then show "h = sha256 L b \<and> is_ok (es_get (snd (es_put L b (fes_inner s))) h)"
    using mem.put_ok [where b = b and s = "fes_inner s" and h = h] by simp
qed (auto simp: mem.put_inv mem.put_keeps mem.put_len mem.put_prefix mem.head_at mem.head_beyond
    mem.get_hash mem.verify_ok)

subsection \<open>Reopening\<close>

definition hex_alphabet :: string where
  "hex_alphabet = ''0123456789abcdef''"

definition record_json :: "string \<Rightarrow> string \<Rightarrow> json" where
  "record_json hash blob = JObject [(''blob'', JString blob), (''hash'', JString hash)]"

definition file_env_ok :: "libs \<Rightarrow> (string \<Rightarrow> json option) \<Rightarrow> bool" where
  "file_env_ok L P \<longleftrightarrow>
     libs_ok L \<and> (\<forall>bs. set (hex_encode L bs) \<subseteq> set hex_alphabet) \<and>
     (\<forall>h b. P (record_line L h b) = Some (record_json (to_hex L h) (hex_encode L b)))"

lemma file_env_okD:
  assumes "file_env_ok L P"
  shows "libs_ok L" and "set (hex_encode L bs) \<subseteq> set hex_alphabet"
    and "P (record_line L h b) = Some (record_json (to_hex L h) (hex_encode L b))"
  using assms by (simp_all add: file_env_ok_def)

text \<open>A record is plain ASCII, and so is every part of it.\<close>

lemma record_line_ascii:
  assumes "file_env_ok L P"
  shows "ascii (record_line L h b)"
proof -
  have "ascii (hex_encode L bs)" for bs
    by (rule ascii_subset [OF _ file_env_okD(2) [OF assms]]) (simp add: hex_alphabet_def)
  then show ?thesis by (simp add: record_line_def to_hex_def)
qed

lemma record_part_utf8: "file_env_ok L P \<Longrightarrow> utf8_ok (take n (record_line L h b))"
  by (rule ascii_utf8, rule ascii_subset [OF record_line_ascii]) (auto dest: in_set_takeD)

lemma record_line_is_line:
  assumes "file_env_ok L P"
  shows "is_line (record_line L h b)"
proof -
  have no: "newline \<notin> set (hex_encode L bs)" for bs
    using file_env_okD(2) [OF assms, of bs] by (auto simp: hex_alphabet_def newline_def)
  then show ?thesis
    using ascii_utf8 [OF record_line_ascii [OF assms, of h b]]
    by (simp add: is_line_def record_line_def to_hex_def newline_def carriage_return_def)
qed

lemma fes_load_record:
  assumes "file_env_ok L P"
  shows "fes_load_line L P i (record_line L (sha256 L b) b) s = Inr (snd (es_put L b s))"
  using file_env_okD [OF assms] libs_okD(1) [OF file_env_okD(1) [OF assms], of b]
  by (simp add: fes_load_line_def record_json_def json_get_def json_as_str_def from_hex_to_hex
      es_put_def Let_def)

interpretation fes_log: durable_log "fes_load_line L P" es_new "\<lambda>b. record_line L (sha256 L b) b"
  "\<lambda>b s. file_env_ok L P" "\<lambda>b s. snd (es_put L b s)"
  for L P
  by unfold_locales (simp_all add: record_line_is_line fes_load_record)

definition fes_committed :: "libs \<Rightarrow> (string \<Rightarrow> json option) \<Rightarrow> file_evidence_store \<Rightarrow> bool" where
  "fes_committed L P s \<longleftrightarrow> fes_log.committed L P (fes_inner s) (fes_file s)"

lemma es_len_put:
  "es_len s < es_len (snd (es_put L b s)) \<longleftrightarrow> hm_get (es_blobs s) (sha256 L b) = None"
  by (simp add: es_len_def es_put_def Let_def)

lemma fes_put_success:
  assumes "fes_put L os b s = (Inr h, s')"
  shows "hm_get (es_blobs (fes_inner s)) (sha256 L b) = None \<and>
      s' = \<lparr>fes_inner = snd (es_put L b (fes_inner s)),
            fes_file = fes_file s @ record_line L (sha256 L b) b @ [newline]\<rparr>
    \<or> hm_get (es_blobs (fes_inner s)) (sha256 L b) \<noteq> None \<and> s' = s"
proof (cases "hm_get (es_blobs (fes_inner s)) (sha256 L b) = None")
  case True
  with assms show ?thesis
    by (cases "fst os") (auto simp: fes_put_def es_put_def es_len_def Let_def fes_persist_def result_simps
      split: prod.splits)
next
  case False
  with assms show ?thesis
    by (simp add: fes_put_def es_put_known Let_def)
qed

lemma fes_committed_new: "fes_committed L P \<lparr>fes_inner = es_new, fes_file = []\<rparr>"
  by (simp add: fes_committed_def fes_log.committed_fresh)

lemma fes_committed_put:
  assumes "file_env_ok L P" and "fes_committed L P s" and "fes_put L os b s = (Inr h, s')"
  shows "fes_committed L P s'"
  using fes_put_success [OF assms(3)] fes_log.committed_append [of L P "fes_inner s" "fes_file s" b] assms(1,2)
  by (auto simp: fes_committed_def)

lemma fes_reopen:
  assumes "fes_committed L P s"
  shows "fes_open L P (Inr (fes_file s)) = Inr s"
  using fes_log.open_committed [OF assms [unfolded fes_committed_def]]
  by (simp add: fes_open_def fes_open_internal_def)

lemma fes_reopen_torn:
  assumes "fes_committed L P s" and "newline \<notin> set tail" and "tail \<noteq> []"
  shows "fes_open L P (Inr (fes_file s @ tail)) = Inl (if utf8_ok tail then FsTornTail else FsIo invalid_utf8)"
    and "fes_open_with_recovery L P (Inr (fes_file s @ tail)) None =
      (if utf8_ok tail then Inr s else Inl (FsIo invalid_utf8))"
  using fes_log.open_tail [OF assms(1) [unfolded fes_committed_def] assms(2,3)]
  by (simp_all add: fes_open_def fes_open_with_recovery_def fes_open_internal_def)

subsection \<open>After a failed write\<close>

text \<open>The entry stays in memory: the retry succeeds without a write.\<close>

lemma fes_put_retry:
  assumes "fst (fes_put L os b s) = Inl e"
  shows "fes_put L os' b (snd (fes_put L os b s)) = (Inr (sha256 L b), snd (fes_put L os b s))"
proof -
  have "hm_get (es_blobs (snd (es_put L b (fes_inner s)))) (sha256 L b) \<noteq> None"
    by (simp add: es_put_def Let_def)
  then show ?thesis
    by (simp add: fes_put_def [of L os' b "snd (fes_put L os b s)"] Let_def fes_put_inner es_put_known
        fes_put_inner [symmetric])
qed

lemma fes_put_failed_file:
  assumes "fst (fes_put L (WriteErr 0 m, sy) b s) = Inl e"
  shows "fes_file (snd (fes_put L (WriteErr 0 m, sy) b s)) = fes_file s"
  using assms by (auto simp: fes_put_def Let_def fes_persist_def split: prod.splits sum.splits)

subsection \<open>A concrete environment\<close>

text \<open>A parser for the one-line records, enough to evaluate the statements at concrete files.\<close>

definition demo_parse :: "string \<Rightarrow> json option" where
  "demo_parse line =
     (let r = drop 9 line; h = takeWhile (\<lambda>c. c \<noteq> CHR 0x22) r;
          b = takeWhile (\<lambda>c. c \<noteq> CHR 0x22) (drop (length h + 10) r)
      in Some (record_json h b))"

lemma hex_nibbles_all: "\<forall>n \<in> set [0..<16]. hex_nibble n \<in> set hex_alphabet"
  by code_simp

lemma hex_nibble_alphabet: "n < 16 \<Longrightarrow> hex_nibble n \<in> set hex_alphabet"
  using hex_nibbles_all by simp

lemma hex_enc_alphabet: "set (hex_enc_bytes bs) \<subseteq> set hex_alphabet"
proof (induction bs)
  case (Cons c cs)
  have "(of_char c :: nat) div 16 < 16"
    by (rule less_mult_imp_div_less) (use nat_of_char_less_256 [of c] in simp)
  with Cons show ?case by (simp add: hex_nibble_alphabet)
qed simp

lemma takeWhile_hex: "takeWhile (\<lambda>c. c \<noteq> CHR 0x22) (hex_enc_bytes bs @ CHR 0x22 # r) = hex_enc_bytes bs"
proof -
  have "CHR 0x22 \<notin> set hex_alphabet" by (simp add: hex_alphabet_def)
  then have "\<forall>c \<in> set (hex_enc_bytes bs). c \<noteq> CHR 0x22" using hex_enc_alphabet [of bs] by auto
  then show ?thesis by (simp add: takeWhile_append2)
qed

lemma demo_env_ok: "file_env_ok (demo_libs h) demo_parse"
proof -
  have "demo_parse (record_line (demo_libs h) x b) =
      Some (record_json (to_hex (demo_libs h) x) (hex_encode (demo_libs h) b))" for x b
    by (simp add: demo_parse_def record_line_def to_hex_def demo_libs_def takeWhile_hex Let_def)
  then show ?thesis
    using hex_enc_alphabet by (simp add: file_env_ok_def) (simp add: demo_libs_def)
qed

subsection \<open>Properties\<close>

text \<open>Puts whose writes all succeed.\<close>

fun fes_run :: "libs \<Rightarrow> string list \<Rightarrow> file_evidence_store \<Rightarrow> file_evidence_store" where
  "fes_run L [] s = s"
| "fes_run L (b # bs) s = fes_run L bs (snd (fes_put L (WriteOk, None) b s))"

lemma fes_put_written: "fst (fes_put L (WriteOk, None) b s) = Inr (sha256 L b)"
  by (simp add: fes_put_def es_put_def Let_def fes_persist_def)

lemma fes_run_committed:
  "file_env_ok L P \<Longrightarrow> fes_committed L P s \<Longrightarrow> fes_committed L P (fes_run L bs s)"
proof (induction bs arbitrary: s)
  case (Cons b bs)
  have "fes_put L (WriteOk, None) b s = (Inr (sha256 L b), snd (fes_put L (WriteOk, None) b s))"
    by (simp add: prod_eq_iff fes_put_written)
  from fes_committed_put [OF Cons.prems this] Cons show ?case by simp
qed simp

definition fes_empty :: file_evidence_store where
  "fes_empty = \<lparr>fes_inner = es_new, fes_file = []\<rparr>"

text \<open>C20: The durable evidence store survives a restart: reopening the file of a store whose writes
  succeeded gives back that store. When further bytes without a newline follow, they are refused as a torn
  tail and the explicit recovery drops exactly them, if they are UTF-8, as every part of a record is; other
  bytes make the file unreadable, with and without recovery.\<close>

theorem durable_store_reopens:
  assumes "file_env_ok L P" and "newline \<notin> set tail" and "tail \<noteq> []"
  shows "fes_open L P (Inr (fes_file (fes_run L bs fes_empty))) = Inr (fes_run L bs fes_empty) \<and>
    fes_open L P (Inr (fes_file (fes_run L bs fes_empty) @ tail)) =
      Inl (if utf8_ok tail then FsTornTail else FsIo invalid_utf8) \<and>
    fes_open_with_recovery L P (Inr (fes_file (fes_run L bs fes_empty) @ tail)) None =
      (if utf8_ok tail then Inr (fes_run L bs fes_empty) else Inl (FsIo invalid_utf8)) \<and>
    utf8_ok (take n (record_line L h b))"
proof -
  have "fes_committed L P (fes_run L bs fes_empty)"
    using fes_run_committed [OF assms(1) fes_committed_new] by (simp add: fes_empty_def)
  from fes_reopen [OF this] fes_reopen_torn [OF this assms(2,3)] record_part_utf8 [OF assms(1)] show ?thesis by simp
qed

theorem durable_store_reopens_witness:
  "fes_open (demo_libs (\<lambda>_. hash_of_byte (CHR 0x01))) demo_parse
     (Inr (fes_file (fes_run (demo_libs (\<lambda>_. hash_of_byte (CHR 0x01))) [''payload''] fes_empty) @ ''{'')) = Inl FsTornTail"
  using durable_store_reopens [OF demo_env_ok [of "\<lambda>_. hash_of_byte (CHR 0x01)"], of "''{''" "[''payload'']"]
  by (simp add: newline_def ascii_utf8)

text \<open>A put whose write fails is reported as a backend failure, but the entry stays in the serving
  store: the retry reports success without writing a byte, and after reopening the file the evidence
  is gone.\<close>

theorem durable_store_retry_loses:
  assumes "file_env_ok L P" and "hm_get (es_blobs (fes_inner (fes_run L bs fes_empty))) (sha256 L b) = None"
  shows "fst (fes_put L (WriteErr 0 m, None) b (fes_run L bs fes_empty)) = Inl (StoreBackend (''io failure: '' @ m)) \<and>
    fes_put L (WriteOk, None) b (snd (fes_put L (WriteErr 0 m, None) b (fes_run L bs fes_empty))) =
      (Inr (sha256 L b), snd (fes_put L (WriteErr 0 m, None) b (fes_run L bs fes_empty))) \<and>
    fes_open L P (Inr (fes_file (snd (fes_put L (WriteErr 0 m, None) b (fes_run L bs fes_empty))))) =
      Inr (fes_run L bs fes_empty) \<and>
    fes_get (fes_run L bs fes_empty) (sha256 L b) = Inl (NotFound (sha256 L b))"
proof -
  let ?s = "fes_run L bs fes_empty"
  have fail: "fst (fes_put L (WriteErr 0 m, None) b ?s) = Inl (StoreBackend (''io failure: '' @ m))"
    using assms(2) by (simp add: fes_put_def es_put_def Let_def fes_persist_def es_len_def file_store_error_text_def)
  have "fes_committed L P ?s"
    using fes_run_committed [OF assms(1) fes_committed_new] by (simp add: fes_empty_def)
  from fes_reopen [OF this] fail fes_put_retry [OF fail] fes_put_failed_file [OF fail] assms(2)
  show ?thesis by (simp add: fes_get_def es_get_def)
qed

theorem durable_store_retry_loses_witness:
  "fes_put (demo_libs (\<lambda>_. hash_of_byte (CHR 0x01))) (WriteOk, None) ''x''
     (snd (fes_put (demo_libs (\<lambda>_. hash_of_byte (CHR 0x01))) (WriteErr 0 ''disk full'', None) ''x'' fes_empty)) =
   (Inr (hash_of_byte (CHR 0x01)),
    snd (fes_put (demo_libs (\<lambda>_. hash_of_byte (CHR 0x01))) (WriteErr 0 ''disk full'', None) ''x'' fes_empty))"
  using durable_store_retry_loses [OF demo_env_ok [of "\<lambda>_. hash_of_byte (CHR 0x01)"], of "[]" "''x''" "''disk full''"]
  by (simp add: fes_empty_def es_new_def sha256_def)

text \<open>A write that fails half way spoils the log: the torn record stays in the file, the next put appends
  its own record to it, and as soon as the reader refuses the joined line the file is refused, by the
  explicit recovery too, although that put was reported as committed.\<close>

theorem torn_write_spoils_log:
  assumes "file_env_ok L P" and "0 < n" and "n < length (record_line L (sha256 L a) a)"
    and "hm_get (es_blobs (fes_inner (fes_run L bs fes_empty))) (sha256 L a) = None"
    and "hm_get (es_blobs (fes_inner (fes_run L bs fes_empty))) (sha256 L b) = None" and "sha256 L a \<noteq> sha256 L b"
    and "P (take n (record_line L (sha256 L a) a) @ record_line L (sha256 L b) b) = None"
  shows "let s = snd (fes_put L (WriteErr n m, None) a (fes_run L bs fes_empty)); (r, s') = fes_put L (WriteOk, None) b s in
    r = Inr (sha256 L b) \<and>
    (\<exists>k. fes_open L P (Inr (fes_file s')) = Inl (FsCorruptRecord k ''not json'')) \<and>
    (\<exists>k. fes_open_with_recovery L P (Inr (fes_file s')) tr = Inl (FsCorruptRecord k ''not json''))"
proof -
  let ?run = "fes_run L bs fes_empty"
  let ?s = "snd (fes_put L (WriteErr n m, None) a ?run)"
  let ?l = "take n (record_line L (sha256 L a) a) @ record_line L (sha256 L b) b"
  have s: "fes_inner ?s = snd (es_put L a (fes_inner ?run))" "fes_file ?s = fes_file ?run @ take n (record_line L (sha256 L a) a)"
    using assms(3,4) by (simp_all add: fes_put_def es_put_def es_len_def Let_def fes_persist_def)
  have "fes_put L (WriteOk, None) b ?s = (Inr (sha256 L b),
      \<lparr>fes_inner = snd (es_put L b (fes_inner ?s)), fes_file = fes_file ?s @ record_line L (sha256 L b) b @ [newline]\<rparr>)"
    using assms(4-6) by (simp add: fes_put_def [of L "(WriteOk, None)" b] s es_put_def es_len_def Let_def fes_persist_def)
  moreover have "fes_file ?s @ record_line L (sha256 L b) b @ [newline] = fes_file ?run @ ?l @ [newline]" by (simp add: s(2))
  moreover have "\<exists>k. open_log FsIo FsTornTail (fes_load_line L P) es_new (Inr (fes_file ?run @ ?l @ [newline])) tr rec =
      Inl (FsCorruptRecord k ''not json'')" for tr rec
  proof (rule fes_log.open_refused_last [where err = "\<lambda>k. FsCorruptRecord k ''not json''"])
    show "fes_log.committed L P (fes_inner ?run) (fes_file ?run)"
      using fes_run_committed [OF assms(1) fes_committed_new] by (simp add: fes_empty_def fes_committed_def)
    show "is_line ?l"
      using record_line_is_line [OF assms(1)] record_part_utf8 [OF assms(1), of n]
      by (auto simp: is_line_def utf8_append record_line_def dest: in_set_takeD)
    show "\<exists>k. fes_load_line L P i ?l (fes_inner ?run) = Inl (FsCorruptRecord k ''not json'')" for i
      using assms(7) by (simp add: fes_load_line_def)
  qed
  then have "\<exists>k. fes_open_internal L P (Inr (fes_file ?run @ ?l @ [newline])) tr rec = Inl (FsCorruptRecord k ''not json'')" for tr rec
    unfolding fes_open_internal_def by (metis and_then.simps(1))
  ultimately show ?thesis by (simp add: Let_def fes_open_def fes_open_with_recovery_def)
qed

definition strict_parse :: "string \<Rightarrow> json option" where
  "strict_parse line =
     (let r = drop 9 line; h = takeWhile (\<lambda>c. c \<noteq> CHR 0x22) r;
          b = takeWhile (\<lambda>c. c \<noteq> CHR 0x22) (drop (length h + 10) r)
      in if take 9 line = ''{'' @ [CHR 0x22] @ ''hash'' @ [CHR 0x22] @ '':'' @ [CHR 0x22] then Some (record_json h b) else None)"

lemma strict_env_ok: "file_env_ok (demo_libs h) strict_parse"
proof -
  have "strict_parse (record_line (demo_libs h) x b) =
      Some (record_json (to_hex (demo_libs h) x) (hex_encode (demo_libs h) b))" for x b
    by (simp add: strict_parse_def record_line_def to_hex_def demo_libs_def takeWhile_hex Let_def)
  then show ?thesis
    using hex_enc_alphabet by (simp add: file_env_ok_def) (simp add: demo_libs_def)
qed

theorem torn_write_spoils_log_witness:
  "\<exists>k. fes_open_with_recovery (demo_libs (\<lambda>b. hash_of_byte (if b = ''x'' then CHR 0x01 else CHR 0x02))) strict_parse
     (Inr (fes_file (snd (fes_put (demo_libs (\<lambda>b. hash_of_byte (if b = ''x'' then CHR 0x01 else CHR 0x02))) (WriteOk, None) ''y''
       (snd (fes_put (demo_libs (\<lambda>b. hash_of_byte (if b = ''x'' then CHR 0x01 else CHR 0x02))) (WriteErr 1 ''disk full'', None) ''x'' fes_empty)))))) None =
   Inl (FsCorruptRecord k ''not json'')"
proof -
  let ?L = "demo_libs (\<lambda>b. hash_of_byte (if b = ''x'' then CHR 0x01 else CHR 0x02))"
  have "strict_parse (take 1 (record_line ?L x a) @ record_line ?L y b) = None" for x y a b
    by (simp add: strict_parse_def record_line_def Let_def)
  then show ?thesis
    using torn_write_spoils_log [OF strict_env_ok, of 1 "\<lambda>b. hash_of_byte (if b = ''x'' then CHR 0x01 else CHR 0x02)" "''x''" "[]" "''y''" "''disk full''" None]
    by (simp add: fes_empty_def es_new_def sha256_def Let_def case_prod_beta record_line_def demo_libs_sha)
qed

end
