(* ===== verification/Amount.thy ===== *)
theory Amount
  imports Canon
begin

section \<open>Integer money (treasury-core, amount.rs and the wire format of time.rs)\<close>

text \<open>
  Models \<open>crates/treasury-core/src/amount.rs\<close> and the serialization in \<open>time.rs\<close>. An
  amount is an asset tag and an \<open>i128\<close> of base units; addition and subtraction are
  checked. On the wire the atoms are a decimal string, never a JSON number. The lemmas
  show that a successful operation is exact and in range, when it fails and with which
  error, and that the wire format round-trips.
\<close>

record asset_amount =
  amt_asset :: asset_id
  amt_atoms :: int

datatype amount_error = AssetMismatch asset_id asset_id | AmountOverflow

definition amount_new :: "asset_id \<Rightarrow> int \<Rightarrow> asset_amount" where
  "amount_new asset atoms = \<lparr>amt_asset = asset, amt_atoms = atoms\<rparr>"

definition checked_add :: "asset_amount \<Rightarrow> asset_amount \<Rightarrow> (amount_error, asset_amount) result" where
  "checked_add a b =
     (if amt_asset a \<noteq> amt_asset b then Inl (AssetMismatch (amt_asset a) (amt_asset b))
      else and_then (ok_or AmountOverflow (i128_add (amt_atoms a) (amt_atoms b)))
             (\<lambda>atoms. Inr (amount_new (amt_asset a) atoms)))"

definition checked_sub :: "asset_amount \<Rightarrow> asset_amount \<Rightarrow> (amount_error, asset_amount) result" where
  "checked_sub a b =
     (if amt_asset a \<noteq> amt_asset b then Inl (AssetMismatch (amt_asset a) (amt_asset b))
      else and_then (ok_or AmountOverflow (i128_sub (amt_atoms a) (amt_atoms b)))
             (\<lambda>atoms. Inr (amount_new (amt_asset a) atoms)))"

definition checked_neg :: "asset_amount \<Rightarrow> (amount_error, asset_amount) result" where
  "checked_neg a =
     and_then (ok_or AmountOverflow (i128_neg (amt_atoms a)))
       (\<lambda>atoms. Inr (amount_new (amt_asset a) atoms))"

definition amount_wf :: "asset_amount \<Rightarrow> bool" where
  "amount_wf a \<longleftrightarrow> in_i128 (amt_atoms a)"

subsection \<open>Wire format\<close>

record amount_wire =
  wire_asset :: asset_id
  wire_atoms :: string

definition amount_to_wire :: "asset_amount \<Rightarrow> amount_wire" where
  "amount_to_wire a = \<lparr>wire_asset = amt_asset a, wire_atoms = show_int (amt_atoms a)\<rparr>"

definition amount_from_wire :: "amount_wire \<Rightarrow> (string, asset_amount) result" where
  "amount_from_wire w =
     and_then (ok_or ''atoms must be a decimal string'' (parse_i128 (wire_atoms w)))
       (\<lambda>atoms. Inr (amount_new (wire_asset w) atoms))"

definition amount_json :: "asset_amount \<Rightarrow> json" where
  "amount_json a =
     (let w = amount_to_wire a in
      json_object [(''asset'', JString (wire_asset w)), (''atoms'', JString (wire_atoms w))])"

definition time_json :: "timestamp_ns \<Rightarrow> json" where
  "time_json t = JString (show_int t)"

definition time_from_text :: "string \<Rightarrow> (string, timestamp_ns) result" where
  "time_from_text s = ok_or ''timestamp must be a decimal string of nanoseconds'' (parse_i64 s)"

definition hash_json :: "libs \<Rightarrow> content_hash \<Rightarrow> json" where
  "hash_json L h = JString (to_hex L h)"

subsection \<open>Exactness and errors\<close>

lemma amount_new_simps [simp]:
  "amt_asset (amount_new a n) = a" "amt_atoms (amount_new a n) = n"
  by (simp_all add: amount_new_def)

lemma amount_eq_iff: "(a :: asset_amount) = b \<longleftrightarrow> amt_asset a = amt_asset b \<and> amt_atoms a = amt_atoms b"
  by (cases a; cases b) simp

lemma amount_new_inject [simp]: "amount_new a n = amount_new b m \<longleftrightarrow> a = b \<and> n = m"
  by (simp add: amount_eq_iff)

lemma checked_add_Inr [result_simps]:
  "checked_add a b = Inr c \<longleftrightarrow>
     amt_asset a = amt_asset b \<and> in_i128 (amt_atoms a + amt_atoms b) \<and>
     c = amount_new (amt_asset a) (amt_atoms a + amt_atoms b)"
  by (auto simp: checked_add_def result_simps i128_ops)

lemma checked_sub_Inr [result_simps]:
  "checked_sub a b = Inr c \<longleftrightarrow>
     amt_asset a = amt_asset b \<and> in_i128 (amt_atoms a - amt_atoms b) \<and>
     c = amount_new (amt_asset a) (amt_atoms a - amt_atoms b)"
  by (auto simp: checked_sub_def result_simps i128_ops)

lemma checked_add_Inl:
  "checked_add a b = Inl e \<longleftrightarrow>
     (amt_asset a \<noteq> amt_asset b \<and> e = AssetMismatch (amt_asset a) (amt_asset b)) \<or>
     (amt_asset a = amt_asset b \<and> \<not> in_i128 (amt_atoms a + amt_atoms b) \<and> e = AmountOverflow)"
  by (auto simp: checked_add_def result_simps i128_ops)

lemma checked_neg_Inr [result_simps]:
  "checked_neg a = Inr c \<longleftrightarrow>
     in_i128 (- amt_atoms a) \<and> c = amount_new (amt_asset a) (- amt_atoms a)"
  by (auto simp: checked_neg_def result_simps i128_ops)

lemma amount_wire_roundtrip: "amount_wf a \<Longrightarrow> amount_from_wire (amount_to_wire a) = Inr a"
  by (simp add: amount_from_wire_def amount_to_wire_def amount_wf_def amount_eq_iff)

subsection \<open>The JSON images determine their values\<close>

lemma amount_json_ok [simp, json_simps]: "json_ok (Suc k) (amount_json a)"
  by (simp add: amount_json_def Let_def)

lemma amount_json_inject [simp]: "amount_json a = amount_json b \<longleftrightarrow> a = b"
  by (simp add: amount_json_def Let_def amount_to_wire_def json_object_inject show_int_inject
      amount_eq_iff)

lemma time_json_simps [simp]: "json_ok k (time_json t)" "time_json t = time_json u \<longleftrightarrow> t = u"
  by (simp_all add: time_json_def show_int_inject)

lemma hash_json_ok [simp]: "json_ok k (hash_json L h)"
  by (simp add: hash_json_def)

lemma hash_json_not_null [simp]: "hash_json L h \<noteq> JNull" "JNull \<noteq> hash_json L h"
  by (simp_all add: hash_json_def)

lemma hash_json_inject [simp]: "libs_ok L \<Longrightarrow> hash_json L a = hash_json L b \<longleftrightarrow> a = b"
  by (simp add: hash_json_def)

lemma hash_option_inject [simp]:
  "libs_ok L \<Longrightarrow> json_option (hash_json L) v = json_option (hash_json L) w \<longleftrightarrow> v = w"
  by (rule json_option_inject) simp_all

lemma JString_option_inject [simp]:
  "json_option JString v = json_option JString w \<longleftrightarrow> v = w"
  by (rule json_option_inject) simp_all

lemma hash_list_inject:
  "libs_ok L \<Longrightarrow> map (hash_json L) xs = map (hash_json L) ys \<longleftrightarrow> xs = ys"
  by (simp add: inj_map_eq_map inj_def)

lemma hex_list_inject: "libs_ok L \<Longrightarrow>
  map (\<lambda>i. JString (to_hex L i)) xs = map (\<lambda>i. JString (to_hex L i)) ys \<longleftrightarrow> xs = ys"
  by (simp add: inj_map_eq_map inj_def)

lemma JString_list_inject: "map JString xs = map JString ys \<longleftrightarrow> xs = ys"
  by (simp add: inj_map_eq_map inj_def)

subsection \<open>Properties\<close>

text \<open>C38: Money arithmetic is exact or an error: adding two amounts gives the exact sum in the same
  asset precisely when the assets agree and the sum fits 128 bits, and otherwise the error that says
  which of the two failed; every amount survives its wire format.\<close>

theorem amounts_exact:
  assumes "amount_wf a"
  shows "checked_add a b =
      (if amt_asset a \<noteq> amt_asset b then Inl (AssetMismatch (amt_asset a) (amt_asset b))
       else if - (2 ^ 127) \<le> amt_atoms a + amt_atoms b \<and> amt_atoms a + amt_atoms b < 2 ^ 127
       then Inr \<lparr>amt_asset = amt_asset a, amt_atoms = amt_atoms a + amt_atoms b\<rparr>
       else Inl AmountOverflow) \<and>
    amount_from_wire (amount_to_wire a) = Inr a"
  using amount_wire_roundtrip [OF assms]
  by (auto simp: checked_add_def i128_ops i128_opt_def in_i128_def amount_new_def)

theorem amounts_exact_witness:
  "checked_add (amount_new ''BTC'' 7) (amount_new ''BTC'' (- 9)) = Inr \<lparr>amt_asset = ''BTC'', amt_atoms = - 2\<rparr>"
  using amounts_exact [of "amount_new ''BTC'' 7" "amount_new ''BTC'' (- 9)"] by (simp add: amount_wf_def in_i128_def)

end
