(* ===== verification/Event.thy ===== *)
theory Event
  imports Amount
begin

section \<open>Events (treasury-ledger, event.rs)\<close>

text \<open>
  Models \<open>crates/treasury-ledger/src/event.rs\<close>: claim layers, the provenance each layer
  must carry, drafts, sealed events and the content-derived event id, which commits to the
  predecessor's id. The interpretation \<open>event_id\<close> of the locale \<open>artifact\<close> shows that an
  id determines the chain position, the knowledge time and the whole draft.
\<close>

type_synonym event_id = content_hash

datatype claim_layer = Observation | DerivedFact | Judgment | PolicyOutput

datatype provenance =
    ProvObservation source_id content_hash
  | ProvDerived content_hash "event_id list"
  | ProvJudgment content_hash "actor_id list" "content_hash list"
  | ProvPolicyOutput content_hash "event_id list"

fun prov_layer :: "provenance \<Rightarrow> claim_layer" where
  "prov_layer (ProvObservation source evidence) = Observation"
| "prov_layer (ProvDerived code_version inputs) = DerivedFact"
| "prov_layer (ProvJudgment policy_hash approvers evidence) = Judgment"
| "prov_layer (ProvPolicyOutput policy_hash inputs) = PolicyOutput"

record event_draft =
  ev_tenant :: tenant_id
  ev_layer :: claim_layer
  ev_time :: timestamp_ns
  ev_supersedes :: "event_id option"
  ev_provenance :: provenance
  ev_payload :: json

record sealed_event =
  se_event_id :: event_id
  se_prev :: content_hash
  se_knowledge_time :: timestamp_ns
  se_draft :: event_draft

definition event_schema :: string where
  "event_schema = ''treasury-ledger/event/v1''"

fun layer_json :: "claim_layer \<Rightarrow> json" where
  "layer_json Observation = JString ''observation''"
| "layer_json DerivedFact = JString ''derived_fact''"
| "layer_json Judgment = JString ''judgment''"
| "layer_json PolicyOutput = JString ''policy_output''"

fun provenance_json :: "libs \<Rightarrow> provenance \<Rightarrow> json" where
  "provenance_json L (ProvObservation source evidence) =
     json_object [(''kind'', JString ''observation''), (''source'', JString source),
       (''evidence'', hash_json L evidence)]"
| "provenance_json L (ProvDerived code_version inputs) =
     json_object [(''kind'', JString ''derived''), (''code_version'', hash_json L code_version),
       (''inputs'', JArray (map (hash_json L) inputs))]"
| "provenance_json L (ProvJudgment policy_hash approvers evidence) =
     json_object [(''kind'', JString ''judgment''), (''policy_hash'', hash_json L policy_hash),
       (''approvers'', JArray (map JString approvers)),
       (''evidence'', JArray (map (hash_json L) evidence))]"
| "provenance_json L (ProvPolicyOutput policy_hash inputs) =
     json_object [(''kind'', JString ''policy_output''), (''policy_hash'', hash_json L policy_hash),
       (''inputs'', JArray (map (hash_json L) inputs))]"

text \<open>The envelope of a draft at a chain position, given as predecessor and knowledge time.\<close>

definition event_env :: "libs \<Rightarrow> content_hash \<times> timestamp_ns \<times> event_draft \<Rightarrow> json" where
  "event_env L x =
     (case x of (prev, knowledge_time, draft) \<Rightarrow>
      json_object [
        (''schema'', JString event_schema),
        (''prev'', JString (to_hex L prev)),
        (''tenant'', JString (ev_tenant draft)),
        (''layer'', layer_json (ev_layer draft)),
        (''event_time'', time_json (ev_time draft)),
        (''knowledge_time'', time_json knowledge_time),
        (''supersedes'', json_option (hash_json L) (ev_supersedes draft)),
        (''provenance'', provenance_json L (ev_provenance draft)),
        (''payload'', ev_payload draft)])"

definition canonical_envelope :: "libs \<Rightarrow> content_hash \<Rightarrow> timestamp_ns \<Rightarrow> event_draft
  \<Rightarrow> (canon_error, string) result" where
  "canonical_envelope L prev knowledge_time draft =
     canonical_bytes L (event_env L (prev, knowledge_time, draft))"

definition compute_id :: "libs \<Rightarrow> content_hash \<Rightarrow> timestamp_ns \<Rightarrow> event_draft
  \<Rightarrow> (canon_error, event_id) result" where
  "compute_id L prev knowledge_time draft =
     and_then (canonical_envelope L prev knowledge_time draft) (\<lambda>bytes. Inr (sha256 L bytes))"

definition genesis_tag :: "tenant_id \<Rightarrow> string" where
  "genesis_tag tenant = ''presidio-treasury:genesis:v1:'' @ tenant"

definition genesis_hash :: "libs \<Rightarrow> tenant_id \<Rightarrow> content_hash" where
  "genesis_hash L tenant = sha256 L (genesis_tag tenant)"

subsection \<open>What an id determines\<close>

lemma layer_json_simps [simp]:
  "json_ok k (layer_json l)" "layer_json l = layer_json m \<longleftrightarrow> l = m"
  by (cases l; simp) (cases l; cases m; simp)

lemma provenance_json_ok [simp]: "json_ok (Suc (Suc k)) (provenance_json L p)"
  by (cases p) simp_all

lemma provenance_json_inject [simp]:
  assumes "libs_ok L"
  shows "provenance_json L p = provenance_json L q \<longleftrightarrow> p = q"
  using assms
  by (cases p; cases q)
    (auto simp: json_object_inject hash_list_inject JString_list_inject dest!: json_object_kind)

lemma event_draft_eq_iff:
  "(d :: event_draft) = e \<longleftrightarrow> ev_tenant d = ev_tenant e \<and> ev_layer d = ev_layer e \<and> ev_time d = ev_time e \<and>
     ev_supersedes d = ev_supersedes e \<and> ev_provenance d = ev_provenance e \<and> ev_payload d = ev_payload e"
  by (cases d; cases e) simp

lemma event_env_inject:
  assumes "libs_ok L"
  shows "event_env L x = event_env L y \<longleftrightarrow> x = y"
  using assms
  by (cases x; cases y) (auto simp: event_env_def json_object_inject event_draft_eq_iff)

lemma event_env_shape:
  "json_ok (Suc (Suc (Suc k))) (event_env L x) \<longleftrightarrow> json_ok (Suc (Suc k)) (ev_payload (snd (snd x)))"
  by (cases x) (simp add: event_env_def)

lemma event_env_ok:
  "json_ok max_depth (event_env L x) \<longleftrightarrow> json_ok 127 (ev_payload (snd (snd x)))"
  using event_env_shape [of 125 L x] by (simp add: max_depth_def)

lemma event_env_wf: "json_wf (ev_payload (snd (snd x))) \<Longrightarrow> json_wf (event_env L x)"
  by (cases x) (simp add: event_env_def json_ok_wf [OF provenance_json_ok] json_ok_wf [of 0])

text \<open>What the encoder accepts in the payload position: no floats, at most 127 levels.\<close>

definition payload_ok :: "json \<Rightarrow> bool" where
  "payload_ok v \<longleftrightarrow> json_ok 127 v"

interpretation event_id: artifact event_env "\<lambda>x. payload_ok (ev_payload (snd (snd x)))"
  by unfold_locales (simp_all add: event_env_inject event_env_ok payload_ok_def)

lemma compute_id_content: "compute_id L prev kt d = content_id L (event_env L (prev, kt, d))"
  by (simp add: compute_id_def canonical_envelope_def content_id_def)

lemma compute_id_ok:
  assumes "libs_ok L" and "json_wf (ev_payload d)"
  shows "is_ok (compute_id L prev kt d) \<longleftrightarrow> payload_ok (ev_payload d)"
  using canonical_bytes_ok [OF assms(1) event_env_wf, of "(prev, kt, d)" L] assms(2)
    event_env_ok [of L "(prev, kt, d)"] event_env_wf [of "(prev, kt, d)" L]
  by (auto simp: compute_id_def canonical_envelope_def payload_ok_def json_ok_def is_ok_iff result_simps)

text \<open>The string hashed for an event id.\<close>

definition event_preimage :: "libs \<Rightarrow> content_hash \<Rightarrow> timestamp_ns \<Rightarrow> event_draft \<Rightarrow> string" where
  "event_preimage L prev kt d = preimage L (event_env L (prev, kt, d))"

lemma compute_id_determines:
  assumes "libs_ok L" and "payload_ok (ev_payload d)" and "payload_ok (ev_payload e)"
    and "compute_id L prev kt d = Inr h" and "compute_id L prev' kt' e = Inr h"
    and "no_collision L {event_preimage L prev kt d, event_preimage L prev' kt' e}"
  shows "prev = prev' \<and> kt = kt' \<and> d = e"
  using event_id.hash_determines [OF assms(1), of "(prev, kt, d)" "(prev', kt', e)" h] assms(2-)
  by (simp add: compute_id_content event_preimage_def)

text \<open>An envelope is a JSON object, so it is never a genesis marker.\<close>

lemma event_preimage_opens:
  assumes "libs_ok L" and "payload_ok (ev_payload d)"
  shows "\<exists>r. event_preimage L prev kt d = CHR ''{'' # r"
proof -
  let ?v = "event_env L (prev, kt, d)"
  obtain m where m: "?v = JObject m" by (simp add: event_env_def json_object_def)
  have "json_ok max_depth ?v" using assms(2) by (simp add: event_env_ok payload_ok_def)
  then obtain b where "canonical_bytes L ?v = Inr b"
    using canonical_bytes_ok [OF assms(1), of ?v] by (auto simp: json_ok_def is_ok_iff)
  then show ?thesis
    by (auto simp: event_preimage_def preimage_def m canonical_bytes_def guard_depth_def result_simps)
qed

lemma event_preimage_not_genesis:
  "libs_ok L \<Longrightarrow> payload_ok (ev_payload d) \<Longrightarrow> event_preimage L prev kt d \<noteq> genesis_tag tenant"
  using event_preimage_opens [of L d prev kt] by (auto simp: genesis_tag_def)

lemma compute_id_sha:
  "libs_ok L \<Longrightarrow> payload_ok (ev_payload d) \<Longrightarrow> compute_id L prev kt d = Inr (sha256 L (event_preimage L prev kt d))"
  using event_id.hash_total [of L "(prev, kt, d)"] by (simp add: compute_id_content event_preimage_def)

end
