(* ===== verification/Ledger.thy ===== *)
theory Ledger
  imports Event "HOL-Library.Sublist"
begin

section \<open>The bitemporal ledger (treasury-ledger, ledger.rs)\<close>

text \<open>
  Models \<open>crates/treasury-ledger/src/ledger.rs\<close>. \<open>lg_append\<close> is the whole of \<open>append\<close>: its
  validations in the code's order, each with its error, then the computation of the chain
  position and of the id, then the three updates. The invariant \<open>lg_inv\<close> says that every
  stream is a verified hash chain with strictly increasing knowledge times, that layers and
  provenance pair, that the index by id is right and that the set of superseded ids is
  exactly the set of targets in the streams. The trait \<open>Ledger\<close> is the locale
  \<open>ledger_backend\<close>; its clients' facts over any sequence of appends are proved once there.
\<close>

datatype ledger_error =
    NonMonotonicKnowledgeTime timestamp_ns timestamp_ns
  | LayerProvenanceMismatch claim_layer claim_layer
  | SupersedeTargetMissing event_id
  | SupersedeCrossTenant event_id
  | SupersedeCrossLayer claim_layer claim_layer
  | AlreadySuperseded event_id
  | ChainViolation event_id
  | LedgerCanon canon_error
  | LedgerBackend string

record ledger =
  lg_streams :: "(tenant_id, sealed_event list) hashmap"
  lg_by_id :: "(event_id, tenant_id \<times> nat) hashmap"
  lg_superseded :: "event_id set"

definition lg_new :: ledger where
  "lg_new = \<lparr>lg_streams = [], lg_by_id = [], lg_superseded = {}\<rparr>"

definition lg_stream :: "ledger \<Rightarrow> tenant_id \<Rightarrow> sealed_event list" where
  "lg_stream lg tenant = (case hm_get (lg_streams lg) tenant of None \<Rightarrow> [] | Some s \<Rightarrow> s)"

definition last_event :: "sealed_event list \<Rightarrow> sealed_event option" where
  "last_event s = (if s = [] then None else Some (last s))"

definition slice_get :: "'a list \<Rightarrow> nat \<Rightarrow> 'a option" where
  "slice_get xs i = (if i < length xs then Some (xs ! i) else None)"

definition lg_check_time :: "event_draft \<Rightarrow> timestamp_ns \<Rightarrow> ledger \<Rightarrow> (ledger_error, unit) result" where
  "lg_check_time draft knowledge_time lg =
     (case Option.bind (hm_get (lg_streams lg) (ev_tenant draft)) last_event of
        None \<Rightarrow> Inr ()
      | Some l \<Rightarrow>
          if knowledge_time \<le> se_knowledge_time l
          then Inl (NonMonotonicKnowledgeTime (se_knowledge_time l) knowledge_time)
          else Inr ())"

definition lg_check_supersedes :: "event_draft \<Rightarrow> ledger \<Rightarrow> (ledger_error, unit) result" where
  "lg_check_supersedes draft lg =
     (case ev_supersedes draft of None \<Rightarrow> Inr ()
      | Some target_id \<Rightarrow>
          and_then (ok_or (SupersedeTargetMissing target_id) (hm_get (lg_by_id lg) target_id)) (\<lambda>target.
            if fst target \<noteq> ev_tenant draft then Inl (SupersedeCrossTenant target_id)
            else and_then (ok_or (SupersedeTargetMissing target_id)
              (Option.bind (hm_get (lg_streams lg) (fst target)) (\<lambda>s. slice_get s (snd target)))) (\<lambda>target_event.
                if ev_layer (se_draft target_event) \<noteq> ev_layer draft
                then Inl (SupersedeCrossLayer (ev_layer (se_draft target_event)) (ev_layer draft))
                else if target_id \<in> lg_superseded lg then Inl (AlreadySuperseded target_id)
                else Inr ())))"

definition lg_prev :: "libs \<Rightarrow> ledger \<Rightarrow> tenant_id \<Rightarrow> content_hash" where
  "lg_prev L lg tenant =
     (case Option.bind (hm_get (lg_streams lg) tenant) last_event of
        Some l \<Rightarrow> se_event_id l
      | None \<Rightarrow> genesis_hash L tenant)"

text \<open>Everything before the first side effect.\<close>

definition lg_admit :: "libs \<Rightarrow> event_draft \<Rightarrow> timestamp_ns \<Rightarrow> ledger \<Rightarrow> (ledger_error, sealed_event) result"
where
  "lg_admit L draft knowledge_time lg =
     (if ev_layer draft \<noteq> prov_layer (ev_provenance draft)
      then Inl (LayerProvenanceMismatch (ev_layer draft) (prov_layer (ev_provenance draft)))
      else and_then (lg_check_time draft knowledge_time lg) (\<lambda>_.
        and_then (lg_check_supersedes draft lg) (\<lambda>_.
          let prev = lg_prev L lg (ev_tenant draft) in
          and_then (map_err LedgerCanon (compute_id L prev knowledge_time draft)) (\<lambda>event_id.
            Inr \<lparr>se_event_id = event_id, se_prev = prev, se_knowledge_time = knowledge_time,
                  se_draft = draft\<rparr>))))"

definition lg_push :: "sealed_event \<Rightarrow> ledger \<Rightarrow> ledger" where
  "lg_push sealed lg =
     (let tenant = ev_tenant (se_draft sealed);
          stream = lg_stream lg tenant;
          idx = length stream in
      \<lparr>lg_streams = hm_insert tenant (stream @ [sealed]) (lg_streams lg),
       lg_by_id = hm_insert (se_event_id sealed) (tenant, idx) (lg_by_id lg),
       lg_superseded = (case ev_supersedes (se_draft sealed) of
                          None \<Rightarrow> lg_superseded lg | Some s \<Rightarrow> insert s (lg_superseded lg))\<rparr>)"

definition lg_append :: "libs \<Rightarrow> event_draft \<Rightarrow> timestamp_ns \<Rightarrow> ledger
  \<Rightarrow> (ledger_error, event_id) result \<times> ledger" where
  "lg_append L draft knowledge_time lg =
     (case lg_admit L draft knowledge_time lg of
        Inl e \<Rightarrow> (Inl e, lg)
      | Inr sealed \<Rightarrow> (Inr (se_event_id sealed), lg_push sealed lg))"

definition superseded_by :: "timestamp_ns \<Rightarrow> sealed_event list \<Rightarrow> event_id set" where
  "superseded_by t stream =
     set (List.map_filter (\<lambda>e. ev_supersedes (se_draft e)) (filter (\<lambda>e. se_knowledge_time e \<le> t) stream))"

definition active_events :: "timestamp_ns \<Rightarrow> sealed_event list \<Rightarrow> sealed_event list" where
  "active_events t stream =
     filter (\<lambda>e. se_event_id e \<notin> superseded_by t stream)
       (filter (\<lambda>e. se_knowledge_time e \<le> t) stream)"

definition lg_as_of :: "ledger \<Rightarrow> tenant_id \<Rightarrow> timestamp_ns \<Rightarrow> sealed_event list" where
  "lg_as_of lg tenant t =
     (case hm_get (lg_streams lg) tenant of None \<Rightarrow> [] | Some stream \<Rightarrow> active_events t stream)"

fun verify_from :: "libs \<Rightarrow> content_hash \<Rightarrow> sealed_event list \<Rightarrow> (ledger_error, unit) result" where
  "verify_from L expected_prev [] = Inr ()"
| "verify_from L expected_prev (event # rest) =
     (if se_prev event \<noteq> expected_prev then Inl (ChainViolation (se_event_id event))
      else and_then (map_err LedgerCanon
          (compute_id L (se_prev event) (se_knowledge_time event) (se_draft event))) (\<lambda>recomputed.
        if recomputed \<noteq> se_event_id event then Inl (ChainViolation (se_event_id event))
        else verify_from L (se_event_id event) rest))"

definition lg_verify_chain :: "libs \<Rightarrow> ledger \<Rightarrow> tenant_id \<Rightarrow> (ledger_error, unit) result" where
  "lg_verify_chain L lg tenant =
     (case hm_get (lg_streams lg) tenant of
        None \<Rightarrow> Inr () | Some stream \<Rightarrow> verify_from L (genesis_hash L tenant) stream)"

subsection \<open>What a ledger backend promises\<close>

definition times_increase :: "sealed_event list \<Rightarrow> bool" where
  "times_increase s \<longleftrightarrow> sorted_wrt (<) (map se_knowledge_time s)"

lemma active_events_extend:
  assumes "times_increase (xs @ ys)" and "xs \<noteq> []" and "t \<le> se_knowledge_time (last xs)"
  shows "active_events t (xs @ ys) = active_events t xs"
proof -
  have "se_knowledge_time (last xs) < se_knowledge_time y" if "y \<in> set ys" for y
    using assms(1,2) that by (auto simp: times_increase_def sorted_wrt_append)
  then have none: "filter (\<lambda>e. se_knowledge_time e \<le> t) ys = []"
    using assms(3) by (fastforce simp: filter_empty_conv)
  then show ?thesis by (simp add: active_events_def superseded_by_def none)
qed

lemma active_events_iff:
  "e \<in> set (active_events t s) \<longleftrightarrow>
     e \<in> set s \<and> se_knowledge_time e \<le> t \<and>
     \<not> (\<exists>c \<in> set s. se_knowledge_time c \<le> t \<and> ev_supersedes (se_draft c) = Some (se_event_id e))"
  by (auto simp: active_events_def superseded_by_def in_set_map_filter)

locale ledger_backend =
  fixes inv :: "'s \<Rightarrow> bool"
    and append :: "'io \<Rightarrow> event_draft \<Rightarrow> timestamp_ns \<Rightarrow> 's \<Rightarrow> (ledger_error, event_id) result \<times> 's"
    and as_of :: "'s \<Rightarrow> tenant_id \<Rightarrow> timestamp_ns \<Rightarrow> sealed_event list"
    and verify_chain :: "'s \<Rightarrow> tenant_id \<Rightarrow> (ledger_error, unit) result"
    and stream :: "'s \<Rightarrow> tenant_id \<Rightarrow> sealed_event list"
  assumes append_inv: "inv s \<Longrightarrow> inv (snd (append io d t s))"
    and append_grows: "prefix (stream s tenant) (stream (snd (append io d t s)) tenant)"
    and increasing: "inv s \<Longrightarrow> times_increase (stream s tenant)"
    and chained: "inv s \<Longrightarrow> verify_chain s tenant = Inr ()"
    and as_of_stream: "as_of s tenant t = active_events t (stream s tenant)"
begin

fun appends :: "('io \<times> event_draft \<times> timestamp_ns) list \<Rightarrow> 's \<Rightarrow> 's" where
  "appends [] s = s"
| "appends ((io, d, t) # ops) s = appends ops (snd (append io d t s))"

lemma appends_inv: "inv s \<Longrightarrow> inv (appends ops s)"
  by (induction ops arbitrary: s) (auto simp: append_inv)

lemma appends_chained: "inv s \<Longrightarrow> verify_chain (appends ops s) tenant = Inr ()"
  by (rule chained [OF appends_inv])

lemma appends_prefix: "prefix (stream s tenant) (stream (appends ops s) tenant)"
proof (induction ops arbitrary: s)
  case (Cons op ops)
  then show ?case
    by (cases op) (auto intro: prefix_order.order_trans [OF append_grows])
qed simp

text \<open>Once the stream has reached a time, the books as of that time never change.\<close>

lemma as_of_stable:
  assumes "inv s" and "stream s tenant \<noteq> []" and "t \<le> se_knowledge_time (last (stream s tenant))"
  shows "as_of (appends ops s) tenant t = as_of s tenant t"
proof -
  obtain ys where ys: "stream (appends ops s) tenant = stream s tenant @ ys"
    using appends_prefix [of s tenant ops] by (auto simp: prefix_def)
  have "times_increase (stream s tenant @ ys)"
    using increasing [OF appends_inv [OF assms(1)], of ops tenant] ys by simp
  with assms(2,3) show ?thesis by (simp add: as_of_stream ys active_events_extend)
qed

end

subsection \<open>Admission\<close>

lemma lg_stream_push:
  "lg_stream (lg_push e lg) tenant =
     (if tenant = ev_tenant (se_draft e) then lg_stream lg tenant @ [e] else lg_stream lg tenant)"
  by (simp add: lg_stream_def lg_push_def Let_def)

lemma last_of_stream:
  "Option.bind (hm_get (lg_streams lg) tenant) last_event = last_event (lg_stream lg tenant)"
  by (simp add: lg_stream_def last_event_def split: option.splits)

lemma lg_prev_stream:
  "lg_prev L lg tenant =
     (if lg_stream lg tenant = [] then genesis_hash L tenant else se_event_id (last (lg_stream lg tenant)))"
  by (simp add: lg_prev_def last_of_stream last_event_def)

lemma lg_check_time_Inr [result_simps]:
  "lg_check_time d t lg = Inr u \<longleftrightarrow>
     lg_stream lg (ev_tenant d) = [] \<or> se_knowledge_time (last (lg_stream lg (ev_tenant d))) < t"
  by (simp add: lg_check_time_def last_of_stream last_event_def)

lemma lg_check_supersedes_Inr [result_simps]:
  "lg_check_supersedes d lg = Inr u \<longleftrightarrow>
     (\<forall>x. ev_supersedes d = Some x \<longrightarrow> x \<notin> lg_superseded lg \<and>
        (\<exists>i. hm_get (lg_by_id lg) x = Some (ev_tenant d, i) \<and> i < length (lg_stream lg (ev_tenant d)) \<and>
             ev_layer (se_draft (lg_stream lg (ev_tenant d) ! i)) = ev_layer d))"
  by (auto simp: lg_check_supersedes_def result_simps slice_get_def lg_stream_def bind_eq_Some_conv
      split: option.splits if_splits)

lemma lg_admit_Inr:
  "lg_admit L d t lg = Inr e \<longleftrightarrow>
     ev_layer d = prov_layer (ev_provenance d) \<and> lg_check_time d t lg = Inr () \<and>
     lg_check_supersedes d lg = Inr () \<and>
     (\<exists>x. compute_id L (lg_prev L lg (ev_tenant d)) t d = Inr x \<and>
        e = \<lparr>se_event_id = x, se_prev = lg_prev L lg (ev_tenant d), se_knowledge_time = t, se_draft = d\<rparr>)"
  by (auto simp: lg_admit_def Let_def result_simps)

lemma lg_append_Inr:
  "lg_append L d t lg = (Inr x, lg') \<longleftrightarrow>
     (\<exists>e. lg_admit L d t lg = Inr e \<and> x = se_event_id e \<and> lg' = lg_push e lg)"
  by (auto simp: lg_append_def split: sum.splits)

lemma lg_append_rejected: "fst (lg_append L d t lg) = Inl e \<Longrightarrow> snd (lg_append L d t lg) = lg"
  by (auto simp: lg_append_def split: sum.splits)

lemma lg_append_cases:
  obtains (rejected) e where "lg_append L d t lg = (Inl e, lg)"
  | (sealed) e where "lg_admit L d t lg = Inr e" "lg_append L d t lg = (Inr (se_event_id e), lg_push e lg)"
  by (cases "lg_admit L d t lg") (auto simp: lg_append_def)

subsection \<open>Invariant\<close>

definition targets :: "sealed_event list \<Rightarrow> event_id list" where
  "targets s = List.map_filter (\<lambda>e. ev_supersedes (se_draft e)) s"

definition stream_ok :: "libs \<Rightarrow> tenant_id \<Rightarrow> sealed_event list \<Rightarrow> bool" where
  "stream_ok L tenant s \<longleftrightarrow>
     verify_from L (genesis_hash L tenant) s = Inr () \<and> times_increase s \<and>
     (\<forall>e \<in> set s. ev_tenant (se_draft e) = tenant \<and>
        ev_layer (se_draft e) = prov_layer (ev_provenance (se_draft e)))"

text \<open>Each event is superseded at most once, by a later event of its own layer.\<close>

definition supersession_ok :: "sealed_event list \<Rightarrow> bool" where
  "supersession_ok s \<longleftrightarrow>
     distinct (targets s) \<and>
     (\<forall>j < length s. \<forall>x. ev_supersedes (se_draft (s ! j)) = Some x \<longrightarrow>
        (\<exists>i < j. se_event_id (s ! i) = x \<and> ev_layer (se_draft (s ! i)) = ev_layer (se_draft (s ! j))))"

definition index_ok :: "ledger \<Rightarrow> bool" where
  "index_ok lg \<longleftrightarrow>
     (\<forall>x tenant i. hm_get (lg_by_id lg) x = Some (tenant, i) \<longrightarrow>
        i < length (lg_stream lg tenant) \<and> se_event_id (lg_stream lg tenant ! i) = x) \<and>
     (\<forall>tenant. \<forall>e \<in> set (lg_stream lg tenant). hm_get (lg_by_id lg) (se_event_id e) \<noteq> None)"

definition lg_inv :: "libs \<Rightarrow> ledger \<Rightarrow> bool" where
  "lg_inv L lg \<longleftrightarrow>
     (\<forall>tenant. stream_ok L tenant (lg_stream lg tenant) \<and> supersession_ok (lg_stream lg tenant)) \<and>
     index_ok lg \<and> lg_superseded lg = (\<Union>tenant. set (targets (lg_stream lg tenant))) \<and>
     (\<forall>t u. t \<noteq> u \<longrightarrow> set (targets (lg_stream lg t)) \<inter> set (targets (lg_stream lg u)) = {})"

lemma lg_stream_new [simp]: "lg_stream lg_new tenant = []"
  by (simp add: lg_stream_def lg_new_def)

lemma targets_append [simp]: "targets (xs @ ys) = targets xs @ targets ys"
  by (simp add: targets_def map_filter_def)

lemma targets_simps [simp]:
  "targets [] = []"
  "targets (e # s) = (case ev_supersedes (se_draft e) of None \<Rightarrow> [] | Some x \<Rightarrow> [x]) @ targets s"
  by (auto simp: targets_def map_filter_def split: option.splits)

lemma lg_inv_new: "lg_inv L lg_new"
proof -
  have "hm_get (lg_by_id lg_new) x = None" and "lg_superseded lg_new = {}" for x
    by (simp_all add: lg_new_def)
  then show ?thesis
    by (simp add: lg_inv_def stream_ok_def supersession_ok_def index_ok_def times_increase_def)
qed

definition chain_head :: "libs \<Rightarrow> content_hash \<Rightarrow> sealed_event list \<Rightarrow> content_hash" where
  "chain_head L start s = (if s = [] then start else se_event_id (last s))"

lemma verify_from_append:
  "verify_from L p (xs @ ys) =
     and_then (verify_from L p xs) (\<lambda>_. verify_from L (chain_head L p xs) ys)"
proof (induction xs arbitrary: p)
  case (Cons e xs)
  then show ?case
    by (cases "compute_id L (se_prev e) (se_knowledge_time e) (se_draft e)") (auto simp: chain_head_def)
qed (simp add: chain_head_def)

lemma stream_ok_push:
  assumes "lg_admit L d t lg = Inr e" and "stream_ok L (ev_tenant d) (lg_stream lg (ev_tenant d))"
  shows "stream_ok L (ev_tenant d) (lg_stream lg (ev_tenant d) @ [e])"
proof -
  let ?s = "lg_stream lg (ev_tenant d)"
  obtain x where e: "e = \<lparr>se_event_id = x, se_prev = lg_prev L lg (ev_tenant d), se_knowledge_time = t, se_draft = d\<rparr>"
    and x: "compute_id L (lg_prev L lg (ev_tenant d)) t d = Inr x"
    and layer: "ev_layer d = prov_layer (ev_provenance d)"
    and time: "?s = [] \<or> se_knowledge_time (last ?s) < t"
    using assms(1) by (auto simp: lg_admit_Inr result_simps)
  have "chain_head L (genesis_hash L (ev_tenant d)) ?s = lg_prev L lg (ev_tenant d)"
    by (simp add: chain_head_def lg_prev_stream)
  then have "verify_from L (genesis_hash L (ev_tenant d)) (?s @ [e]) = Inr ()"
    using assms(2) x by (simp add: verify_from_append e stream_ok_def)
  moreover have "times_increase (?s @ [e])"
  proof (cases ?s rule: rev_cases)
    case (snoc ys y)
    then have "se_knowledge_time z < t" if "z \<in> set ?s" for z
      using that time assms(2) by (auto simp: stream_ok_def times_increase_def sorted_wrt_append)
    then show ?thesis using assms(2) by (simp add: stream_ok_def times_increase_def sorted_wrt_append e)
  qed (simp add: times_increase_def)
  ultimately show ?thesis using assms(2) layer by (simp add: stream_ok_def e)
qed

lemma supersession_ok_snoc:
  assumes "supersession_ok s"
    and "\<And>x. ev_supersedes (se_draft e) = Some x \<Longrightarrow> x \<notin> set (targets s) \<and>
      (\<exists>i < length s. se_event_id (s ! i) = x \<and> ev_layer (se_draft (s ! i)) = ev_layer (se_draft e))"
  shows "supersession_ok (s @ [e])"
  unfolding supersession_ok_def
proof (intro conjI allI impI)
  show "distinct (targets (s @ [e]))"
    using assms by (auto simp: supersession_ok_def split: option.splits)
  fix j x
  assume j: "j < length (s @ [e])" "ev_supersedes (se_draft ((s @ [e]) ! j)) = Some x"
  show "\<exists>i<j. se_event_id ((s @ [e]) ! i) = x \<and>
      ev_layer (se_draft ((s @ [e]) ! i)) = ev_layer (se_draft ((s @ [e]) ! j))"
  proof (cases "j < length s")
    case True
    then obtain i where "i < j" "se_event_id (s ! i) = x" "ev_layer (se_draft (s ! i)) = ev_layer (se_draft (s ! j))"
      using assms(1) j(2) by (auto simp: supersession_ok_def nth_append)
    with True show ?thesis by (intro exI [of _ i]) (simp add: nth_append)
  next
    case False
    then have "j = length s" using j(1) by simp
    with j(2) obtain i where "i < length s" "se_event_id (s ! i) = x"
      "ev_layer (se_draft (s ! i)) = ev_layer (se_draft e)" using assms(2) by auto
    with \<open>j = length s\<close> show ?thesis by (intro exI [of _ i]) (simp add: nth_append)
  qed
qed

lemma index_ok_push:
  assumes "index_ok lg"
  shows "index_ok (lg_push e lg)"
proof -
  let ?t = "ev_tenant (se_draft e)"
  have by_id: "hm_get (lg_by_id (lg_push e lg)) x =
      (if x = se_event_id e then Some (?t, length (lg_stream lg ?t)) else hm_get (lg_by_id lg) x)" for x
    by (simp add: lg_push_def Let_def)
  show ?thesis
    using assms by (auto simp: index_ok_def by_id lg_stream_push nth_append less_Suc_eq split: if_splits)
qed

lemma lg_superseded_push:
  "lg_superseded (lg_push e lg) = lg_superseded lg \<union> set_option (ev_supersedes (se_draft e))"
  by (simp add: lg_push_def Let_def split: option.splits)

lemma set_targets_push:
  "set (targets (lg_stream (lg_push e lg) u)) = set (targets (lg_stream lg u)) \<union>
     (if u = ev_tenant (se_draft e) then set_option (ev_supersedes (se_draft e)) else {})"
  by (auto simp: lg_stream_push split: option.splits)

lemma lg_inv_push:
  assumes "lg_inv L lg" and "lg_admit L d t lg = Inr e"
  shows "lg_inv L (lg_push e lg)"
proof -
  have d: "se_draft e = d" using assms(2) by (auto simp: lg_admit_Inr)
  have target: "x \<notin> lg_superseded lg \<and> (\<exists>i < length (lg_stream lg (ev_tenant d)).
      se_event_id (lg_stream lg (ev_tenant d) ! i) = x \<and>
      ev_layer (se_draft (lg_stream lg (ev_tenant d) ! i)) = ev_layer d)"
    if x: "ev_supersedes d = Some x" for x
  proof -
    have "lg_check_supersedes d lg = Inr ()" using assms(2) by (simp add: lg_admit_Inr)
    then obtain i where i: "x \<notin> lg_superseded lg" "hm_get (lg_by_id lg) x = Some (ev_tenant d, i)"
      "i < length (lg_stream lg (ev_tenant d))" "ev_layer (se_draft (lg_stream lg (ev_tenant d) ! i)) = ev_layer d"
      using x unfolding lg_check_supersedes_Inr by blast
    have "index_ok lg" using assms(1) by (simp add: lg_inv_def)
    with i(2) have "se_event_id (lg_stream lg (ev_tenant d) ! i) = x" by (simp add: index_ok_def)
    with i show ?thesis by blast
  qed
  have sup: "lg_superseded lg = (\<Union>tenant. set (targets (lg_stream lg tenant)))"
    using assms(1) by (simp add: lg_inv_def)
  have "stream_ok L u (lg_stream (lg_push e lg) u)" for u
    using assms(1) stream_ok_push [OF assms(2)] by (simp add: lg_inv_def lg_stream_push d)
  moreover have "supersession_ok (lg_stream (lg_push e lg) u)" for u
    using assms(1) supersession_ok_snoc [of "lg_stream lg (ev_tenant d)" e] target sup
    by (auto simp: lg_inv_def lg_stream_push d)
  moreover have "index_ok (lg_push e lg)"
    using assms(1) by (simp add: lg_inv_def index_ok_push)
  moreover have "lg_superseded (lg_push e lg) = (\<Union>u. set (targets (lg_stream (lg_push e lg) u)))"
    unfolding lg_superseded_push set_targets_push sup by (auto split: if_splits)
  moreover have "set (targets (lg_stream (lg_push e lg) t)) \<inter> set (targets (lg_stream (lg_push e lg) u)) = {}"
    if "t \<noteq> u" for t u
  proof -
    have "set (targets (lg_stream lg t)) \<inter> set (targets (lg_stream lg u)) = {}"
      using that assms(1) unfolding lg_inv_def by blast
    moreover have "set_option (ev_supersedes d) \<inter> set (targets (lg_stream lg v)) = {}" for v
      using target sup by auto
    ultimately show ?thesis using that unfolding set_targets_push d by auto
  qed
  ultimately show ?thesis by (simp add: lg_inv_def)
qed

lemma lg_append_inv: "lg_inv L lg \<Longrightarrow> lg_inv L (snd (lg_append L d t lg))"
  by (cases rule: lg_append_cases [of L d t lg]) (simp_all add: lg_inv_push)

interpretation mem_ledger: ledger_backend "lg_inv L" "\<lambda>_. lg_append L" lg_as_of "lg_verify_chain L" lg_stream
  for L
proof
  fix s d t tenant and io :: unit
  show "lg_inv L s \<Longrightarrow> lg_inv L (snd (lg_append L d t s))" by (rule lg_append_inv)
  show "prefix (lg_stream s tenant) (lg_stream (snd (lg_append L d t s)) tenant)"
    by (cases rule: lg_append_cases [of L d t s]) (simp_all add: lg_stream_push)
  show "lg_inv L s \<Longrightarrow> times_increase (lg_stream s tenant)"
    by (simp add: lg_inv_def stream_ok_def)
  show "lg_inv L s \<Longrightarrow> lg_verify_chain L s tenant = Inr ()"
    by (auto simp: lg_inv_def stream_ok_def lg_verify_chain_def lg_stream_def split: option.splits)
  show "lg_as_of s tenant t = active_events t (lg_stream s tenant)"
    by (simp add: lg_as_of_def lg_stream_def active_events_def split: option.splits)
qed

subsection \<open>The head of a chain determines the chain\<close>

definition stream_preimages :: "libs \<Rightarrow> sealed_event list \<Rightarrow> string set" where
  "stream_preimages L s =
     (\<lambda>e. event_preimage L (se_prev e) (se_knowledge_time e) (se_draft e)) ` set s"

text \<open>The invariant of \<open>serde_json::Value\<close> for the payloads of a stream.\<close>

definition payloads_wf :: "sealed_event list \<Rightarrow> bool" where
  "payloads_wf s \<longleftrightarrow> (\<forall>e \<in> set s. json_wf (ev_payload (se_draft e)))"

lemma verified_event:
  assumes "libs_ok L" and "verify_from L g (s @ [e]) = Inr ()" and "payloads_wf (s @ [e])"
  shows "verify_from L g s = Inr ()" "payloads_wf s" "se_prev e = chain_head L g s"
    "payload_ok (ev_payload (se_draft e))"
    "compute_id L (se_prev e) (se_knowledge_time e) (se_draft e) = Inr (se_event_id e)"
proof -
  show c: "compute_id L (se_prev e) (se_knowledge_time e) (se_draft e) = Inr (se_event_id e)"
    and "verify_from L g s = Inr ()" "se_prev e = chain_head L g s"
    using assms(2) by (auto simp: verify_from_append result_simps split: if_splits)
  show "payloads_wf s" using assms(3) by (simp add: payloads_wf_def)
  show "payload_ok (ev_payload (se_draft e))"
    using compute_id_ok [OF assms(1), of "se_draft e"] assms(3) c by (auto simp: payloads_wf_def is_ok_iff)
qed

lemma event_id_determines:
  assumes "libs_ok L" and "lg_inv L lg" and "no_collision L (stream_preimages L (lg_stream lg tenant))"
    and "e \<in> set (lg_stream lg tenant)" and "f \<in> set (lg_stream lg tenant)"
    and "payload_ok (ev_payload (se_draft e))" and "payload_ok (ev_payload (se_draft f))" and "se_event_id e = se_event_id f"
  shows "se_draft e = se_draft f"
proof -
  have id: "compute_id L (se_prev x) (se_knowledge_time x) (se_draft x) = Inr (se_event_id x)"
    if x: "x \<in> set (lg_stream lg tenant)" for x
  proof -
    obtain ys zs where "lg_stream lg tenant = ys @ x # zs" using x by (meson split_list)
    moreover have "verify_from L (genesis_hash L tenant) (lg_stream lg tenant) = Inr ()"
      using assms(2) by (simp add: lg_inv_def stream_ok_def)
    ultimately show ?thesis by (auto simp: verify_from_append result_simps split: if_splits)
  qed
  have "no_collision L {event_preimage L (se_prev e) (se_knowledge_time e) (se_draft e),
      event_preimage L (se_prev f) (se_knowledge_time f) (se_draft f)}"
    using assms(4,5) by (intro no_collision_mono [OF assms(3)]) (auto simp: stream_preimages_def)
  then show ?thesis
    using compute_id_determines [OF assms(1,6,7)] id [OF assms(4)] id [OF assms(5)] assms(8) by metis
qed

lemma no_event_at_genesis:
  assumes "libs_ok L" and "verify_from L (genesis_hash L tenant) (s @ [e]) = Inr ()" and "payloads_wf (s @ [e])"
    and "no_collision L (insert (genesis_tag tenant) (stream_preimages L (s @ [e])))"
  shows "se_event_id e \<noteq> genesis_hash L tenant"
proof
  assume eq: "se_event_id e = genesis_hash L tenant"
  note v = verified_event [OF assms(1-3)]
  have "sha256 L (event_preimage L (se_prev e) (se_knowledge_time e) (se_draft e)) = sha256 L (genesis_tag tenant)"
    using compute_id_sha [OF assms(1) v(4)] v(5) eq by (simp add: genesis_hash_def)
  then have "event_preimage L (se_prev e) (se_knowledge_time e) (se_draft e) = genesis_tag tenant"
    by (intro no_collisionD [OF assms(4)]) (simp_all add: stream_preimages_def sha256_def)
  then show False using event_preimage_not_genesis [OF assms(1) v(4)] by blast
qed

lemma chain_unique:
  assumes "libs_ok L" and "verify_from L (genesis_hash L tenant) xs = Inr ()"
    and "verify_from L (genesis_hash L tenant) ys = Inr ()"
    and "payloads_wf xs" and "payloads_wf ys"
    and "chain_head L (genesis_hash L tenant) xs = chain_head L (genesis_hash L tenant) ys"
    and "no_collision L (insert (genesis_tag tenant) (stream_preimages L xs \<union> stream_preimages L ys))"
  shows "xs = ys"
  using assms(2-)
proof (induction xs arbitrary: ys rule: rev_induct)
  case Nil
  show ?case
  proof (cases ys rule: rev_cases)
    case (snoc zs e)
    then show ?thesis
      using no_event_at_genesis [OF assms(1), of tenant zs e] Nil.prems
      by (auto simp: chain_head_def stream_preimages_def)
  qed simp
next
  case (snoc x xs)
  note vx = verified_event [OF assms(1) snoc.prems(1,3)]
  have cx: "no_collision L (insert (genesis_tag tenant) (stream_preimages L (xs @ [x])))"
    by (rule no_collision_mono [OF snoc.prems(6)]) auto
  show ?case
  proof (cases ys rule: rev_cases)
    case Nil
    then show ?thesis
      using no_event_at_genesis [OF assms(1) snoc.prems(1,3) cx] snoc.prems(5) by (simp add: chain_head_def)
  next
    case ys: (snoc zs y)
    note vy = verified_event [OF assms(1) snoc.prems(2,4) [unfolded ys]]
    have ids: "se_event_id x = se_event_id y" using snoc.prems(5) by (simp add: chain_head_def ys)
    have "no_collision L {event_preimage L (se_prev x) (se_knowledge_time x) (se_draft x),
        event_preimage L (se_prev y) (se_knowledge_time y) (se_draft y)}"
      by (rule no_collision_mono [OF snoc.prems(6)]) (auto simp: stream_preimages_def ys)
    then have same: "se_prev x = se_prev y \<and> se_knowledge_time x = se_knowledge_time y \<and> se_draft x = se_draft y"
      by (rule compute_id_determines [OF assms(1) vx(4) vy(4) vx(5) vy(5) [folded ids]])
    have "xs = zs"
      by (rule snoc.IH [OF vx(1) vy(1) vx(2) vy(2)], use same vx(3) vy(3) in simp,
        rule no_collision_mono [OF snoc.prems(6)]) (auto simp: stream_preimages_def ys)
    moreover have "x = y" using same ids by (cases x; cases y) simp
    ultimately show ?thesis by (simp add: ys)
  qed
qed

subsection \<open>A concrete ledger\<close>

text \<open>Two events of one tenant, the second superseding the first, under a hash function that
  separates genesis markers from envelopes.\<close>

definition demo_hash :: "string \<Rightarrow> content_hash" where
  "demo_hash s = (if s = genesis_tag ''acme'' then hash_of_byte (CHR 0x00) else hash_of_byte (CHR 0x01))"

definition demo_draft :: "event_id option \<Rightarrow> event_draft" where
  "demo_draft target = \<lparr>ev_tenant = ''acme'', ev_layer = Observation, ev_time = 1, ev_supersedes = target,
     ev_provenance = ProvObservation ''venue'' (hash_of_byte (CHR 0x02)), ev_payload = JString ''deposit''\<rparr>"

definition demo_event :: "content_hash \<Rightarrow> timestamp_ns \<Rightarrow> event_id option \<Rightarrow> sealed_event" where
  "demo_event prev t target = \<lparr>se_event_id = hash_of_byte (CHR 0x01), se_prev = prev, se_knowledge_time = t,
     se_draft = demo_draft target\<rparr>"

lemma demo_draft_simps [simp]:
  "ev_tenant (demo_draft target) = ''acme''" "ev_layer (demo_draft target) = Observation"
  "ev_supersedes (demo_draft target) = target" "payload_ok (ev_payload (demo_draft target))"
  "json_wf (ev_payload (demo_draft target))" "prov_layer (ev_provenance (demo_draft target)) = Observation"
  by (simp_all add: demo_draft_def payload_ok_def)

lemma demo_genesis [simp]: "genesis_hash (demo_libs demo_hash) ''acme'' = hash_of_byte (CHR 0x00)"
  by (simp add: genesis_hash_def sha256_def demo_hash_def)

lemma demo_compute_id [simp]:
  "compute_id (demo_libs demo_hash) prev t (demo_draft target) = Inr (hash_of_byte (CHR 0x01))"
  using event_preimage_not_genesis [of "demo_libs demo_hash" "demo_draft target" prev t "''acme''"]
  by (simp add: compute_id_sha sha256_def demo_hash_def)

definition demo_ops :: "(event_draft \<times> timestamp_ns) list" where
  "demo_ops = [(demo_draft None, 10), (demo_draft (Some (hash_of_byte (CHR 0x01))), 20)]"

subsection \<open>Properties\<close>

text \<open>A sequence of appends, accepted or not.\<close>

fun lg_run :: "libs \<Rightarrow> (event_draft \<times> timestamp_ns) list \<Rightarrow> ledger \<Rightarrow> ledger" where
  "lg_run L [] lg = lg"
| "lg_run L ((d, t) # ops) lg = lg_run L ops (snd (lg_append L d t lg))"

lemma lg_run_appends: "lg_run L ops lg = mem_ledger.appends L (map (Pair ()) ops) lg"
  by (induction L ops lg rule: lg_run.induct) simp_all

lemma lg_run_inv: "lg_inv L lg \<Longrightarrow> lg_inv L (lg_run L ops lg)"
  by (simp add: lg_run_appends mem_ledger.appends_inv)

lemma lg_run_new_inv: "lg_inv L (lg_run L ops lg_new)"
  by (rule lg_run_inv [OF lg_inv_new])

lemma demo_run:
  "lg_run (demo_libs demo_hash) demo_ops lg_new =
     \<lparr>lg_streams = [(''acme'', [demo_event (hash_of_byte (CHR 0x00)) 10 None,
        demo_event (hash_of_byte (CHR 0x01)) 20 (Some (hash_of_byte (CHR 0x01)))])],
      lg_by_id = [(hash_of_byte (CHR 0x01), (''acme'', 1))],
      lg_superseded = {hash_of_byte (CHR 0x01)}\<rparr>"
  by (simp add: demo_ops_def lg_append_def lg_admit_def lg_check_time_def lg_check_supersedes_def lg_prev_def
      lg_push_def lg_stream_def lg_new_def last_event_def slice_get_def demo_event_def Let_def hm_insert_def)

lemma demo_stream [simp]:
  "lg_stream (lg_run (demo_libs demo_hash) demo_ops lg_new) ''acme'' =
     [demo_event (hash_of_byte (CHR 0x00)) 10 None,
      demo_event (hash_of_byte (CHR 0x01)) 20 (Some (hash_of_byte (CHR 0x01)))]"
  by (simp add: demo_run lg_stream_def)

text \<open>C1: Whatever sequence of appends a ledger has been offered, accepted or rejected, the
  hash chain of every tenant's stream verifies, its knowledge times strictly increase, and
  every event carries the provenance its claim layer demands.\<close>

theorem ledger_streams_sound:
  "lg_verify_chain L (lg_run L ops lg_new) tenant = Inr () \<and>
   sorted_wrt (<) (map se_knowledge_time (lg_stream (lg_run L ops lg_new) tenant)) \<and>
   list_all (\<lambda>e. ev_tenant (se_draft e) = tenant \<and>
     ev_layer (se_draft e) = prov_layer (ev_provenance (se_draft e))) (lg_stream (lg_run L ops lg_new) tenant)"
  using mem_ledger.chained [OF lg_run_new_inv [of L ops], of tenant] lg_run_new_inv [of L ops]
  by (auto simp: lg_inv_def stream_ok_def times_increase_def list_all_iff)

text \<open>C2: The head of a verified chain commits to the whole stream: two streams of a tenant
  that both verify and end in the same event id are equal, event by event, unless SHA-256
  collides on one of the strings hashed for them. Tampering with any event therefore shows.\<close>

theorem ledger_tamper_evident:
  assumes "libs_ok L" and "payloads_wf xs" and "payloads_wf ys"
    and "verify_from L (genesis_hash L tenant) xs = Inr ()" and "verify_from L (genesis_hash L tenant) ys = Inr ()"
    and "chain_head L (genesis_hash L tenant) xs = chain_head L (genesis_hash L tenant) ys"
    and "no_collision L (insert (genesis_tag tenant) (stream_preimages L xs \<union> stream_preimages L ys))"
  shows "xs = ys"
  using assms by (intro chain_unique)

theorem ledger_tamper_evident_witness:
  "lg_stream (lg_run (demo_libs demo_hash) [(demo_draft None, 10)] lg_new) ''acme'' =
     [demo_event (hash_of_byte (CHR 0x00)) 10 None]"
proof -
  let ?L = "demo_libs demo_hash" and ?e = "demo_event (hash_of_byte (CHR 0x00)) 10 None"
  let ?s = "lg_stream (lg_run ?L [(demo_draft None, 10)] lg_new) ''acme''"
  have s: "?s = [?e]"
    by (simp add: lg_append_def lg_admit_def lg_check_time_def lg_check_supersedes_def lg_prev_def
      lg_push_def lg_stream_def lg_new_def demo_event_def Let_def hm_insert_def)
  have "event_preimage ?L (hash_of_byte (CHR 0x00)) 10 (demo_draft None) \<noteq> genesis_tag ''acme''"
    by (rule event_preimage_not_genesis) simp_all
  then have "no_collision ?L (insert (genesis_tag ''acme'') (stream_preimages ?L ?s \<union> stream_preimages ?L [?e]))"
    unfolding s by (simp add: no_collision_def stream_preimages_def demo_event_def demo_hash_def)
  then show ?thesis
    by (rule ledger_tamper_evident [of ?L _ _ "''acme''", rotated 6])
      (unfold s, simp_all add: payloads_wf_def demo_event_def chain_head_def)
qed

text \<open>An append is accepted exactly when the layer pairs with the provenance, the
  knowledge time is later than the stream's last, the superseded event (if any) is indexed in
  the same stream with the same layer and not superseded yet, and the payload is free of
  floats and nested at most 127 levels; a rejected append leaves the ledger unchanged.\<close>

theorem ledger_append_accepts:
  assumes "libs_ok L" and "json_wf (ev_payload d)"
  shows "(is_ok (fst (lg_append L d t lg)) \<longleftrightarrow>
      ev_layer d = prov_layer (ev_provenance d) \<and>
      (lg_stream lg (ev_tenant d) = [] \<or> se_knowledge_time (last (lg_stream lg (ev_tenant d))) < t) \<and>
      (case ev_supersedes d of None \<Rightarrow> True
       | Some x \<Rightarrow> x \<notin> lg_superseded lg \<and>
           (\<exists>i. hm_get (lg_by_id lg) x = Some (ev_tenant d, i) \<and> i < length (lg_stream lg (ev_tenant d)) \<and>
             ev_layer (se_draft (lg_stream lg (ev_tenant d) ! i)) = ev_layer d)) \<and>
      float_free (ev_payload d) \<and> depth_ok 127 (ev_payload d)) \<and>
    (is_ok (fst (lg_append L d t lg)) \<or> snd (lg_append L d t lg) = lg)"
  (is "(?ok \<longleftrightarrow> ?conditions) \<and> ?unchanged")
proof
  have payload: "(\<exists>x. compute_id L p t d = Inr x) \<longleftrightarrow> float_free (ev_payload d) \<and> depth_ok 127 (ev_payload d)" for p
    using compute_id_ok [OF assms, of p t] assms(2) by (simp add: is_ok_iff payload_ok_def json_ok_def)
  have "?ok \<longleftrightarrow> (\<exists>e. lg_admit L d t lg = Inr e)"
    by (cases "lg_admit L d t lg") (simp_all add: lg_append_def)
  also have "\<dots> \<longleftrightarrow> ev_layer d = prov_layer (ev_provenance d) \<and> lg_check_time d t lg = Inr () \<and>
     lg_check_supersedes d lg = Inr () \<and> (\<exists>x. compute_id L (lg_prev L lg (ev_tenant d)) t d = Inr x)"
    unfolding lg_admit_Inr by blast
  finally show "?ok \<longleftrightarrow> ?conditions"
    unfolding payload lg_check_time_Inr lg_check_supersedes_Inr by (simp split: option.split)
  show ?unchanged by (cases "lg_admit L d t lg") (simp_all add: lg_append_def)
qed

text \<open>C22: The books as filed stay reproducible: once a tenant's stream has reached a knowledge
  time, no later append changes what \<open>as_of\<close> reports for that time, and it reports exactly the
  events booked by then that no event booked by then supersedes.\<close>

theorem ledger_as_of_stable:
  assumes "lg_stream (lg_run L ops lg_new) tenant \<noteq> []"
    and "t \<le> se_knowledge_time (last (lg_stream (lg_run L ops lg_new) tenant))"
  shows "lg_as_of (lg_run L later (lg_run L ops lg_new)) tenant t = lg_as_of (lg_run L ops lg_new) tenant t \<and>
    (e \<in> set (lg_as_of (lg_run L ops lg_new) tenant t) \<longleftrightarrow>
      e \<in> set (lg_stream (lg_run L ops lg_new) tenant) \<and> se_knowledge_time e \<le> t \<and>
      \<not> (\<exists>c \<in> set (lg_stream (lg_run L ops lg_new) tenant).
          se_knowledge_time c \<le> t \<and> ev_supersedes (se_draft c) = Some (se_event_id e)))"
proof
  show "lg_as_of (lg_run L later (lg_run L ops lg_new)) tenant t = lg_as_of (lg_run L ops lg_new) tenant t"
    unfolding lg_run_appends [of L later] by (rule mem_ledger.as_of_stable [OF lg_run_new_inv assms])
qed (simp add: mem_ledger.as_of_stream active_events_iff)

text \<open>Corrections never race: in every reachable ledger an event supersedes an earlier event
  of the same stream and the same layer, and no two events supersede the same target.\<close>

theorem ledger_supersedes_once:
  assumes "j < length (lg_stream (lg_run L ops lg_new) tenant)"
    and "ev_supersedes (se_draft (lg_stream (lg_run L ops lg_new) tenant ! j)) = Some x"
  shows "(\<exists>i < j. se_event_id (lg_stream (lg_run L ops lg_new) tenant ! i) = x \<and>
      ev_layer (se_draft (lg_stream (lg_run L ops lg_new) tenant ! i)) =
        ev_layer (se_draft (lg_stream (lg_run L ops lg_new) tenant ! j))) \<and>
    x \<notin> set (targets (take j (lg_stream (lg_run L ops lg_new) tenant) @
      drop (Suc j) (lg_stream (lg_run L ops lg_new) tenant)))"
proof
  let ?s = "lg_stream (lg_run L ops lg_new) tenant"
  have ok: "supersession_ok ?s" using lg_run_new_inv [of L ops] by (simp add: lg_inv_def)
  with assms show "\<exists>i < j. se_event_id (?s ! i) = x \<and> ev_layer (se_draft (?s ! i)) = ev_layer (se_draft (?s ! j))"
    unfolding supersession_ok_def by blast
  have "targets ?s = targets (take j ?s @ [?s ! j] @ drop (Suc j) ?s)"
    using id_take_nth_drop [OF assms(1)] by (metis append_Cons append_Nil)
  moreover have "distinct (targets ?s)" using ok by (simp add: supersession_ok_def)
  ultimately show "x \<notin> set (targets (take j ?s @ drop (Suc j) ?s))"
    using assms(2) by simp
qed

theorem ledger_append_accepts_witness:
  "is_ok (fst (lg_append (demo_libs demo_hash) (demo_draft None) 30 (lg_run (demo_libs demo_hash) demo_ops lg_new)))"
  using ledger_append_accepts [of "demo_libs demo_hash" "demo_draft None" 30
    "lg_run (demo_libs demo_hash) demo_ops lg_new"]
  by (simp add: demo_event_def demo_draft_def)

theorem ledger_as_of_stable_witness:
  "lg_as_of (lg_run (demo_libs demo_hash) [(demo_draft None, 30)] (lg_run (demo_libs demo_hash) demo_ops lg_new)) ''acme'' 15 =
     [demo_event (hash_of_byte (CHR 0x00)) 10 None]"
proof -
  have "lg_as_of (lg_run (demo_libs demo_hash) demo_ops lg_new) ''acme'' 15 =
      [demo_event (hash_of_byte (CHR 0x00)) 10 None]"
    by (simp add: demo_run lg_as_of_def active_events_def superseded_by_def demo_event_def map_filter_def)
  then show ?thesis
    by (subst ledger_as_of_stable [THEN conjunct1]) (simp_all add: demo_event_def)
qed

theorem ledger_supersedes_once_witness:
  "hash_of_byte (CHR 0x01) \<notin>
     set (targets (take 1 (lg_stream (lg_run (demo_libs demo_hash) demo_ops lg_new) ''acme'')))"
  using ledger_supersedes_once [of 1 "demo_libs demo_hash" demo_ops "''acme''" "hash_of_byte (CHR 0x01)"]
  by (simp add: demo_event_def)

end
