(* ===== verification/Event_Wire.thy ===== *)
theory Event_Wire
  imports Event Jsonl
begin

section \<open>The wire format of sealed events (treasury-ledger, event.rs)\<close>

text \<open>
  The derived \<open>Serialize\<close> and \<open>Deserialize\<close> of the types of \<open>crates/treasury-ledger/src/event.rs\<close>, on
  JSON trees. A tree is what the deserializer sees of a text: the members of an object in the order of the
  text, repeated keys included. A derived reader takes a struct from an object, in which a known member may
  occur once and an unknown one is skipped, or from an array of all fields in order; a missing optional member
  is \<open>None\<close>. An enum of unit variants is its name, or an object of that one name with \<open>null\<close>; the provenance is
  tagged inside by \<open>kind\<close>. A payload is read as a \<open>serde_json::Value\<close>, whose maps keep the last of repeated keys.

  The text itself is \<open>serde_json\<close>'s: the record \<open>json_text\<close> holds its writer and its reader, and
  \<open>json_text_ok\<close> says what is documented of them. A text is one line, a tree nested at most 127 containers
  deep is read back as it was written, and a deeper one is refused (the reader's recursion limit).

  The lemmas show that reading undoes writing on every event whose payload is a legal value nested at most
  125 deep, two levels less than the text may have.
\<close>

subsection \<open>Texts and trees\<close>

record json_text =
  jt_write :: "json \<Rightarrow> string option"
  jt_read :: "string \<Rightarrow> json option"

text \<open>At most \<open>k\<close> arrays and objects around any point of the tree.\<close>

fun nested_within :: "nat \<Rightarrow> json \<Rightarrow> bool" where
  "nested_within k (JArray vs) = (0 < k \<and> (\<forall>v \<in> set vs. nested_within (k - 1) v))"
| "nested_within k (JObject m) = (0 < k \<and> (\<forall>p \<in> set m. nested_within (k - 1) (snd p)))"
| "nested_within k _ = True"

fun numbers_ok :: "json \<Rightarrow> bool" where
  "numbers_ok (JNumber n) = (number_wf n \<and> float_free (JNumber n))"
| "numbers_ok (JArray vs) = (\<forall>v \<in> set vs. numbers_ok v)"
| "numbers_ok (JObject m) = (\<forall>p \<in> set m. numbers_ok (snd p))"
| "numbers_ok _ = True"

definition recursion_limit :: nat where
  "recursion_limit = 127"

text \<open>What is assumed of \<open>serde_json\<close>: it writes a tree as one line of UTF-8 and reads the line back, up to its recursion
  limit. A Rust string is UTF-8, so for a tree with other bytes in its strings, which no program can hold, this says
  nothing of \<open>serde_json\<close> and only makes \<open>J\<close> total.\<close>

definition json_text_ok :: "json_text \<Rightarrow> bool" where
  "json_text_ok J \<longleftrightarrow>
     (\<forall>v. numbers_ok v \<longrightarrow> (\<exists>l. jt_write J v = Some l \<and> is_line l \<and>
        jt_read J l = (if nested_within recursion_limit v then Some v else None)))"

subsection \<open>Derived readers\<close>

text \<open>\<open>String::deserialize\<close>, and the readers of the newtypes and wrappers around it.\<close>

fun string_de :: "json \<Rightarrow> string option" where
  "string_de (JString s) = Some s"
| "string_de _ = None"

definition result_option :: "('e, 'a) result \<Rightarrow> 'a option" where
  "result_option r = (case r of Inl _ \<Rightarrow> None | Inr x \<Rightarrow> Some x)"

definition hash_de :: "libs \<Rightarrow> json \<Rightarrow> content_hash option" where
  "hash_de L v = Option.bind (string_de v) (\<lambda>s. result_option (from_hex L s))"

definition time_de :: "json \<Rightarrow> timestamp_ns option" where
  "time_de v = Option.bind (string_de v) (\<lambda>s. result_option (time_from_text s))"

fun vec_de :: "(json \<Rightarrow> 'a option) \<Rightarrow> json \<Rightarrow> 'a list option" where
  "vec_de de (JArray vs) = those (map de vs)"
| "vec_de de _ = None"

fun option_de :: "(json \<Rightarrow> 'a option) \<Rightarrow> json \<Rightarrow> 'a option option" where
  "option_de de JNull = Some None"
| "option_de de v = map_option Some (de v)"

text \<open>A map of a \<open>Value\<close> is built by inserting the members in turn, so the last of repeated keys stays.\<close>

fun value_de :: "json \<Rightarrow> json" where
  "value_de (JArray vs) = JArray (map value_de vs)"
| "value_de (JObject m) = JObject (fold (\<lambda>(k, v). bt_insert k v) (map (\<lambda>(k, v). (k, value_de v)) m) [])"
| "value_de v = v"

text \<open>The members a struct reader sees: those of an object, or the elements of an array in the
  order of the fields.\<close>

fun struct_members :: "string list \<Rightarrow> json \<Rightarrow> (string \<times> json) list option" where
  "struct_members names (JObject m) = Some m"
| "struct_members names (JArray vs) = (if length vs = length names then Some (zip names vs) else None)"
| "struct_members names _ = None"

definition field :: "(string \<times> json) list \<Rightarrow> string \<Rightarrow> (json \<Rightarrow> 'a option) \<Rightarrow> 'a option" where
  "field m k de = (case filter (\<lambda>p. fst p = k) m of [p] \<Rightarrow> de (snd p) | _ \<Rightarrow> None)"

definition optional_field :: "(string \<times> json) list \<Rightarrow> string \<Rightarrow> (json \<Rightarrow> 'a option) \<Rightarrow> 'a option option" where
  "optional_field m k de =
     (case filter (\<lambda>p. fst p = k) m of [] \<Rightarrow> Some None | [p] \<Rightarrow> option_de de (snd p) | _ \<Rightarrow> None)"

fun layer_of_name :: "string \<Rightarrow> claim_layer option" where
  "layer_of_name s =
     (if s = ''observation'' then Some Observation
      else if s = ''derived_fact'' then Some DerivedFact
      else if s = ''judgment'' then Some Judgment
      else if s = ''policy_output'' then Some PolicyOutput else None)"

fun layer_de :: "json \<Rightarrow> claim_layer option" where
  "layer_de (JString s) = layer_of_name s"
| "layer_de (JObject [(s, JNull)]) = layer_of_name s"
| "layer_de _ = None"

text \<open>The reader of an internally tagged enum splits off the tag; the rest is read as the variant's struct.\<close>

fun tagged :: "string \<Rightarrow> json \<Rightarrow> (string \<times> json) option" where
  "tagged k (JObject m) = Option.bind (field m k string_de) (\<lambda>t. Some (t, JObject (filter (\<lambda>p. fst p \<noteq> k) m)))"
| "tagged k (JArray (v # vs)) = Option.bind (string_de v) (\<lambda>t. Some (t, JArray vs))"
| "tagged k _ = None"

definition provenance_de :: "libs \<Rightarrow> json \<Rightarrow> provenance option" where
  "provenance_de L v = Option.bind (tagged ''kind'' v) (\<lambda>(kind, rest).
     if kind = ''observation'' then
       Option.bind (struct_members [''source'', ''evidence''] rest) (\<lambda>m.
       Option.bind (field m ''source'' string_de) (\<lambda>source.
       Option.bind (field m ''evidence'' (hash_de L)) (\<lambda>evidence.
         Some (ProvObservation source evidence))))
     else if kind = ''derived'' then
       Option.bind (struct_members [''code_version'', ''inputs''] rest) (\<lambda>m.
       Option.bind (field m ''code_version'' (hash_de L)) (\<lambda>code_version.
       Option.bind (field m ''inputs'' (vec_de (hash_de L))) (\<lambda>inputs.
         Some (ProvDerived code_version inputs))))
     else if kind = ''judgment'' then
       Option.bind (struct_members [''policy_hash'', ''approvers'', ''evidence''] rest) (\<lambda>m.
       Option.bind (field m ''policy_hash'' (hash_de L)) (\<lambda>policy_hash.
       Option.bind (field m ''approvers'' (vec_de string_de)) (\<lambda>approvers.
       Option.bind (field m ''evidence'' (vec_de (hash_de L))) (\<lambda>evidence.
         Some (ProvJudgment policy_hash approvers evidence)))))
     else if kind = ''policy_output'' then
       Option.bind (struct_members [''policy_hash'', ''inputs''] rest) (\<lambda>m.
       Option.bind (field m ''policy_hash'' (hash_de L)) (\<lambda>policy_hash.
       Option.bind (field m ''inputs'' (vec_de (hash_de L))) (\<lambda>inputs.
         Some (ProvPolicyOutput policy_hash inputs))))
     else None)"

definition draft_de :: "libs \<Rightarrow> json \<Rightarrow> event_draft option" where
  "draft_de L v =
     Option.bind (struct_members [''tenant'', ''layer'', ''event_time'', ''supersedes'', ''provenance'', ''payload''] v) (\<lambda>m.
     Option.bind (field m ''tenant'' string_de) (\<lambda>tenant.
     Option.bind (field m ''layer'' layer_de) (\<lambda>layer.
     Option.bind (field m ''event_time'' time_de) (\<lambda>event_time.
     Option.bind (optional_field m ''supersedes'' (hash_de L)) (\<lambda>supersedes.
     Option.bind (field m ''provenance'' (provenance_de L)) (\<lambda>provenance.
     Option.bind (field m ''payload'' (\<lambda>v. Some (value_de v))) (\<lambda>payload.
       Some \<lparr>ev_tenant = tenant, ev_layer = layer, ev_time = event_time, ev_supersedes = supersedes,
         ev_provenance = provenance, ev_payload = payload\<rparr>)))))))"

definition sealed_de :: "libs \<Rightarrow> json \<Rightarrow> sealed_event option" where
  "sealed_de L v =
     Option.bind (struct_members [''event_id'', ''prev'', ''knowledge_time'', ''draft''] v) (\<lambda>m.
     Option.bind (field m ''event_id'' (hash_de L)) (\<lambda>event_id.
     Option.bind (field m ''prev'' (hash_de L)) (\<lambda>prev.
     Option.bind (field m ''knowledge_time'' time_de) (\<lambda>knowledge_time.
     Option.bind (field m ''draft'' (draft_de L)) (\<lambda>draft.
       Some \<lparr>se_event_id = event_id, se_prev = prev, se_knowledge_time = knowledge_time, se_draft = draft\<rparr>)))))"

subsection \<open>Derived writers\<close>

text \<open>Written straight to text, the fields come in the order of their declaration, the tag first.\<close>

fun provenance_ser :: "libs \<Rightarrow> provenance \<Rightarrow> json" where
  "provenance_ser L (ProvObservation source evidence) =
     JObject [(''kind'', JString ''observation''), (''source'', JString source), (''evidence'', hash_json L evidence)]"
| "provenance_ser L (ProvDerived code_version inputs) =
     JObject [(''kind'', JString ''derived''), (''code_version'', hash_json L code_version),
       (''inputs'', JArray (map (hash_json L) inputs))]"
| "provenance_ser L (ProvJudgment policy_hash approvers evidence) =
     JObject [(''kind'', JString ''judgment''), (''policy_hash'', hash_json L policy_hash),
       (''approvers'', JArray (map JString approvers)), (''evidence'', JArray (map (hash_json L) evidence))]"
| "provenance_ser L (ProvPolicyOutput policy_hash inputs) =
     JObject [(''kind'', JString ''policy_output''), (''policy_hash'', hash_json L policy_hash),
       (''inputs'', JArray (map (hash_json L) inputs))]"

definition draft_ser :: "libs \<Rightarrow> event_draft \<Rightarrow> json" where
  "draft_ser L d = JObject [
     (''tenant'', JString (ev_tenant d)),
     (''layer'', layer_json (ev_layer d)),
     (''event_time'', time_json (ev_time d)),
     (''supersedes'', json_option (hash_json L) (ev_supersedes d)),
     (''provenance'', provenance_ser L (ev_provenance d)),
     (''payload'', ev_payload d)]"

definition sealed_ser :: "libs \<Rightarrow> sealed_event \<Rightarrow> json" where
  "sealed_ser L e = JObject [
     (''event_id'', hash_json L (se_event_id e)),
     (''prev'', hash_json L (se_prev e)),
     (''knowledge_time'', time_json (se_knowledge_time e)),
     (''draft'', draft_ser L (se_draft e))]"

subsection \<open>Reading undoes writing\<close>

lemma string_de_Some [simp]: "string_de v = Some s \<longleftrightarrow> v = JString s"
  by (cases v) auto

lemma hash_de_json [simp]: "libs_ok L \<Longrightarrow> hash_de L (hash_json L h) = Some h"
  by (simp add: hash_de_def hash_json_def from_hex_to_hex result_option_def)

lemma time_de_json [simp]: "in_i64 t \<Longrightarrow> time_de (time_json t) = Some t"
  by (simp add: time_de_def time_json_def time_from_text_def result_option_def)

lemma those_inverse [simp]: "(\<And>x. de (f x) = Some x) \<Longrightarrow> those (map (de \<circ> f) xs) = Some xs"
  by (induction xs) auto

lemma option_de_Some: "v \<noteq> JNull \<Longrightarrow> option_de de v = map_option Some (de v)"
  by (cases v) auto

lemma option_de_json:
  "(\<And>x. de (f x) = Some x) \<Longrightarrow> (\<And>x. f x \<noteq> JNull) \<Longrightarrow> option_de de (json_option f v) = Some v"
  by (cases v) (simp_all add: json_option_def option_de_Some)

lemma layer_de_json [simp]: "layer_de (layer_json l) = Some l"
  by (cases l) simp_all

lemma bt_insert_last: "\<forall>k' \<in> set (map fst m). k' < k \<Longrightarrow> bt_insert k v m = m @ [(k, v)]"
  by (induction m) (auto simp: not_less_iff_gr_or_eq)

lemma fold_insert_sorted:
  "bt_wf (acc @ m) \<Longrightarrow> fold (\<lambda>(k, v). bt_insert k v) m acc = acc @ m"
proof (induction m arbitrary: acc)
  case (Cons p m)
  obtain k v where p: "p = (k, v)" by (cases p)
  have "bt_insert k v acc = acc @ [(k, v)]"
    using Cons.prems by (intro bt_insert_last) (auto simp: bt_wf_def p sorted_wrt_append)
  with Cons.IH [of "acc @ [p]"] Cons.prems show ?case by (simp add: p)
qed simp

lemma value_de_wf: "json_wf v \<Longrightarrow> value_de v = v"
proof (induction v)
  case (JArray vs)
  then show ?case by (auto intro: map_idI)
next
  case (JObject m)
  have "map (\<lambda>(k, v). (k, value_de v)) m = m"
    using JObject by (intro map_idI) (fastforce simp: snds.simps)
  with JObject.prems fold_insert_sorted [of "[]" m] show ?case by (simp add: bt_wf_def)
qed simp_all

lemma provenance_de_ser: "libs_ok L \<Longrightarrow> provenance_de L (provenance_ser L p) = Some p"
  by (cases p) (simp_all add: provenance_de_def field_def)

definition draft_typed :: "event_draft \<Rightarrow> bool" where
  "draft_typed d \<longleftrightarrow> in_i64 (ev_time d) \<and> json_wf (ev_payload d)"

lemma draft_de_ser:
  assumes "libs_ok L" and "draft_typed d"
  shows "draft_de L (draft_ser L d) = Some d"
  using assms option_de_json [of "hash_de L" "hash_json L" "ev_supersedes d"]
  by (cases d) (simp add: draft_de_def draft_ser_def field_def optional_field_def provenance_de_ser
      draft_typed_def value_de_wf)

lemma sealed_de_ser:
  assumes "libs_ok L" and "draft_typed (se_draft e)" and "in_i64 (se_knowledge_time e)"
  shows "sealed_de L (sealed_ser L e) = Some e"
  using assms draft_de_ser [OF assms(1,2)]
  by (cases e) (simp add: sealed_de_def sealed_ser_def field_def)

subsection \<open>Nesting\<close>

lemma provenance_nested [simp]: "nested_within (Suc (Suc k)) (provenance_ser L p)"
  by (cases p) (auto simp: hash_json_def)

lemma scalar_nested [simp]: "nested_within k (hash_json L h)" "nested_within k (time_json t)"
  "nested_within k (layer_json l)" "nested_within k (json_option (hash_json L) s)"
  by (simp_all add: hash_json_def time_json_def json_option_def split: option.splits) (cases l; simp)

lemma sealed_nested: "nested_within (Suc (Suc (Suc (Suc k)))) (sealed_ser L e) \<longleftrightarrow>
    nested_within (Suc (Suc k)) (ev_payload (se_draft e))"
  by (simp add: sealed_ser_def draft_ser_def)

definition payload_limit :: nat where
  "payload_limit = 125"

lemma sealed_nested_limit:
  "nested_within recursion_limit (sealed_ser L e) \<longleftrightarrow> nested_within payload_limit (ev_payload (se_draft e))"
  using sealed_nested [of 123 L e] by (simp add: recursion_limit_def payload_limit_def)

lemma numbers_ok_value: "json_wf v \<Longrightarrow> float_free v \<Longrightarrow> numbers_ok v"
proof (induction v)
  case (JNumber n)
  then show ?case by (cases n) auto
next
  case (JObject m)
  then show ?case by (fastforce simp: snds.simps)
qed auto

lemma sealed_numbers:
  "json_wf (ev_payload (se_draft e)) \<Longrightarrow> float_free (ev_payload (se_draft e)) \<Longrightarrow> numbers_ok (sealed_ser L e)"
  using numbers_ok_value
  by (cases "ev_provenance (se_draft e)"; cases "ev_layer (se_draft e)")
    (auto simp: sealed_ser_def draft_ser_def hash_json_def time_json_def json_option_def split: option.splits)

text \<open>The two sides of the reader: what it takes back, and what it refuses.\<close>

lemma event_text:
  assumes "json_text_ok J" and "libs_ok L" and "draft_typed (se_draft e)" and "in_i64 (se_knowledge_time e)"
    and "float_free (ev_payload (se_draft e))"
  obtains l where "jt_write J (sealed_ser L e) = Some l" and "is_line l"
    and "Option.bind (jt_read J l) (sealed_de L) =
      (if nested_within payload_limit (ev_payload (se_draft e)) then Some e else None)"
proof -
  have "numbers_ok (sealed_ser L e)"
    using sealed_numbers assms(3,5) by (simp add: draft_typed_def)
  then obtain l where "jt_write J (sealed_ser L e) = Some l" "is_line l"
    "jt_read J l = (if nested_within recursion_limit (sealed_ser L e) then Some (sealed_ser L e) else None)"
    using assms(1) by (auto simp: json_text_ok_def)
  with sealed_de_ser [OF assms(2-4)] that show thesis by (simp add: sealed_nested_limit)
qed

end
