(* ===== verification/Json_Demo.thy ===== *)
theory Json_Demo
  imports Event_Wire Evidence_File
begin

section \<open>A concrete text for JSON trees\<close>

text \<open>
  The text of JSON trees is a parameter of the durable ledger. This theory gives one concrete text, a
  one-line prefix code with its reader, and shows that it satisfies \<open>json_text_ok\<close>: what the durable
  ledger relies on can hold. The witnesses evaluate on it.
\<close>

fun code :: "json \<Rightarrow> string" where
  "code JNull = ''n''"
| "code (JBool b) = (if b then ''t'' else ''f'')"
| "code (JNumber (PosInt w)) = ''+'' @ show_int (int (unat w)) @ ''.''"
| "code (JNumber (NegInt i)) = ''-'' @ show_int i @ ''.''"
| "code (JNumber (Float s)) = ''n''"
| "code (JString s) = ''$'' @ hex_enc_bytes s @ ''.''"
| "code (JArray vs) = ''['' @ concat (map code vs) @ '']''"
| "code (JObject m) = ''{'' @ concat (map (\<lambda>(k, v). hex_enc_bytes k @ ''.'' @ code v) m) @ ''}''"

definition upto_dot :: "string \<Rightarrow> string \<times> string" where
  "upto_dot s = (takeWhile (\<lambda>c. c \<noteq> CHR ''.'') s, drop 1 (dropWhile (\<lambda>c. c \<noteq> CHR ''.'') s))"

definition dotted :: "(string \<Rightarrow> 'a option) \<Rightarrow> string \<Rightarrow> ('a \<times> string) option" where
  "dotted f s = (case upto_dot s of (a, r) \<Rightarrow> map_option (\<lambda>x. (x, r)) (f a))"

fun decode :: "nat \<Rightarrow> string \<Rightarrow> (json \<times> string) option"
  and decode_items :: "nat \<Rightarrow> string \<Rightarrow> (json list \<times> string) option"
  and decode_members :: "nat \<Rightarrow> string \<Rightarrow> ((string \<times> json) list \<times> string) option" where
  "decode (Suc n) (c # s) =
     (if c = CHR ''n'' then Some (JNull, s)
      else if c = CHR ''t'' then Some (JBool True, s)
      else if c = CHR ''f'' then Some (JBool False, s)
      else if c = CHR ''+'' then map_option (\<lambda>(i, r). (JNumber (PosInt (of_nat (nat i))), r)) (dotted parse_int s)
      else if c = CHR ''-'' then map_option (\<lambda>(i, r). (JNumber (NegInt i), r)) (dotted parse_int s)
      else if c = CHR ''$'' then map_option (\<lambda>(t, r). (JString t, r)) (dotted hex_dec_bytes s)
      else if c = CHR ''['' then map_option (\<lambda>(vs, r). (JArray vs, r)) (decode_items n s)
      else if c = CHR ''{'' then map_option (\<lambda>(m, r). (JObject m, r)) (decode_members n s)
      else None)"
| "decode _ _ = None"
| "decode_items (Suc n) (c # s) =
     (if c = CHR '']'' then Some ([], s)
      else Option.bind (decode n (c # s)) (\<lambda>(v, r). map_option (\<lambda>(vs, t). (v # vs, t)) (decode_items n r)))"
| "decode_items _ _ = None"
| "decode_members (Suc n) (c # s) =
     (if c = CHR ''}'' then Some ([], s)
      else Option.bind (dotted hex_dec_bytes (c # s)) (\<lambda>(k, r).
        Option.bind (decode n r) (\<lambda>(v, t). map_option (\<lambda>(m, u). ((k, v) # m, u)) (decode_members n t))))"
| "decode_members _ _ = None"

definition demo_text :: json_text where
  "demo_text = \<lparr>jt_write = (\<lambda>v. Some (code v)),
     jt_read = (\<lambda>l. case decode (length l) l of
        Some (v, []) \<Rightarrow> if nested_within recursion_limit v then Some v else None
      | _ \<Rightarrow> None)\<rparr>"

lemma dotted_append:
  assumes "CHR ''.'' \<notin> set a" and "f a = Some x"
  shows "dotted f (a @ CHR ''.'' # r) = Some (x, r)"
proof -
  have "\<forall>c \<in> set a. c \<noteq> CHR ''.''" using assms(1) by auto
  then show ?thesis
    using assms(2) by (simp add: dotted_def upto_dot_def takeWhile_append2 dropWhile_append2)
qed

lemma hex_no: "c \<notin> set hex_alphabet \<Longrightarrow> c \<notin> set (hex_enc_bytes s)"
  using hex_enc_alphabet [of s] by blast

lemma dotted_hex [simp]: "dotted hex_dec_bytes (hex_enc_bytes s @ CHR ''.'' # r) = Some (s, r)"
  by (rule dotted_append) (auto simp: hex_dec_enc_bytes hex_alphabet_def intro!: hex_no)

lemma dotted_int [simp]: "dotted parse_int (show_int i @ CHR ''.'' # r) = Some (i, r)"
  by (rule dotted_append) (auto simp: number_char_def dest: number_char_show_int)

lemma code_opens: "\<exists>c s. code v = c # s \<and> c \<noteq> CHR '']''"
  by (induction v rule: code.induct) auto

lemma member_opens: "hex_enc_bytes k @ CHR ''.'' # r = c # s \<Longrightarrow> c \<noteq> CHR ''}''"
  using hex_no [of "CHR ''}''" k] by (cases "hex_enc_bytes k") (auto simp: hex_alphabet_def)

lemma decode_code:
  "numbers_ok v \<Longrightarrow> length (code v) \<le> n \<Longrightarrow> decode n (code v @ r) = Some (v, r)"
proof (induction v arbitrary: n r)
  case (JNumber x)
  then show ?case by (cases n; cases x) auto
next
  case (JArray vs)
  have "decode_items m (concat (map code us) @ CHR '']'' # r) = Some (us, r)"
    if "set us \<subseteq> set vs" "length (concat (map code us)) < m" for us m
    using that
  proof (induction us arbitrary: m)
    case Nil
    then show ?case by (cases m) auto
  next
    case (Cons u us)
    obtain c s where c: "code u = c # s" "c \<noteq> CHR '']''" using code_opens by blast
    obtain k where m: "m = Suc k" using Cons.prems by (cases m) auto
    have u: "decode k (code u @ z) = Some (u, z)" for z
      using Cons.prems JArray by (auto simp: m)
    have "decode_items k (concat (map code us) @ CHR '']'' # r) = Some (us, r)"
      using Cons.prems c by (intro Cons.IH) (auto simp: m)
    then show ?case using u [of "concat (map code us) @ CHR '']'' # r"] c by (simp add: m)
  qed
  from this [of vs "n - 1"] JArray.prems show ?case by (cases n) auto
next
  case (JObject ms)
  let ?code = "\<lambda>(k, v). hex_enc_bytes k @ CHR ''.'' # code v"
  have "decode_members m (concat (map ?code us) @ CHR ''}'' # r) = Some (us, r)"
    if "set us \<subseteq> set ms" "length (concat (map ?code us)) < m" for us m
    using that
  proof (induction us arbitrary: m)
    case Nil
    then show ?case by (cases m) auto
  next
    case (Cons u us)
    obtain k v where uv: "u = (k, v)" by (cases u)
    obtain j where m: "m = Suc j" using Cons.prems by (cases m) auto
    have v: "decode j (code v @ z) = Some (v, z)" for z
      using Cons.prems JObject.prems by (intro JObject.IH [of "(k, v)"]) (auto simp: m uv snds.simps)
    have us: "decode_members j (concat (map ?code us) @ CHR ''}'' # r) = Some (us, r)"
      using Cons.prems by (intro Cons.IH) (auto simp: m uv)
    obtain c s where c: "hex_enc_bytes k @ CHR ''.'' # code v @ concat (map ?code us) @ CHR ''}'' # r = c # s"
      by (cases "hex_enc_bytes k") auto
    then have "c \<noteq> CHR ''}''" by (rule member_opens)
    then have "decode_members m (c # s) = Some ((k, v) # us, r)"
      using v us dotted_hex [of k "code v @ concat (map ?code us) @ CHR ''}'' # r"] unfolding c by (simp add: m)
    then show ?case by (simp add: uv c)
  qed
  from this [of ms "n - 1"] JObject.prems show ?case by (cases n) auto
next
  case JNull
  then show ?case by (cases n) auto
next
  case (JBool b)
  then show ?case by (cases n; cases b) auto
next
  case (JString t)
  then show ?case by (cases n) auto
qed

lemma code_ascii: "ascii (code v)"
proof -
  have hex: "ascii (hex_enc_bytes s)" for s
    by (rule ascii_subset [OF _ hex_enc_alphabet]) (simp add: hex_alphabet_def)
  have int: "ascii (show_int i)" for i
    by (auto simp: ascii_def list_all_iff number_char_def dest!: number_char_show_int)
  show ?thesis
  proof (induction v rule: code.induct)
    case (8 m)
    then show ?case using hex by (auto simp: ascii_def list_all_iff)
  qed (use hex int in \<open>auto simp: ascii_def list_all_iff\<close>)
qed

lemma code_is_line: "is_line (code v)"
proof -
  have "newline \<notin> set (code v)"
  proof (induction v rule: code.induct)
    case (8 m)
    then show ?case using hex_no [of newline] by (auto simp: newline_def hex_alphabet_def)
  qed (use hex_no [of newline] in \<open>auto simp: newline_def hex_alphabet_def number_char_def dest!: number_char_show_int\<close>)
  moreover have "last (code v) \<noteq> carriage_return"
    by (cases v rule: code.cases) (auto simp: carriage_return_def)
  ultimately show ?thesis by (simp add: is_line_def ascii_utf8 [OF code_ascii])
qed

lemma demo_text_ok: "json_text_ok demo_text"
  using decode_code [where r = "[]"] by (auto simp: json_text_ok_def demo_text_def code_is_line)

end
