(* ===== verification/Ledger_File.thy ===== *)
theory Ledger_File
  imports Ledger Event_Wire Json_Demo
begin

section \<open>The durable ledger (treasury-ledger, file.rs)\<close>

text \<open>
  Models \<open>crates/treasury-ledger/src/file.rs\<close>. A record is written with \<open>serde_json::to_string\<close> and read
  with \<open>from_str\<close>: the codec \<open>serde_codec L J\<close> composes the derived writers and readers of \<open>Event_Wire\<close>
  with the text \<open>J\<close> of JSON trees. Loading replays every record through the validation of
  \<open>append\<close>, so whatever the file holds, a ledger that opens satisfies the ledger's invariant; and a
  ledger all of whose writes succeeded reopens as it was, provided no payload is nested more than 125
  deep. The canonical encoder accepts three levels more: such an event is accepted and written, and from
  then on the file does not open. A file is read as a \<open>String\<close>: a crash that tears a record inside a
  character leaves a file that no way of opening reads.
\<close>

record event_codec =
  event_ser :: "sealed_event \<Rightarrow> string option"
  event_de :: "string \<Rightarrow> sealed_event option"

definition serde_codec :: "libs \<Rightarrow> json_text \<Rightarrow> event_codec" where
  "serde_codec L J = \<lparr>event_ser = (\<lambda>e. jt_write J (sealed_ser L e)),
     event_de = (\<lambda>line. Option.bind (jt_read J line) (sealed_de L))\<rparr>"

datatype file_ledger_error =
    FlIo string
  | FlCorruptRecord nat string
  | FlTornTail

record file_ledger =
  fl_inner :: ledger
  fl_file :: string

definition file_ledger_error_text :: "file_ledger_error \<Rightarrow> string" where
  "file_ledger_error_text e =
     (case e of FlIo m \<Rightarrow> ''io failure: '' @ m
      | FlCorruptRecord line detail \<Rightarrow> ''corrupt record at line '' @ show_nat line @ '': '' @ detail
      | FlTornTail \<Rightarrow> ''torn trailing record; open_with_recovery truncates it'')"

definition fl_load_line :: "libs \<Rightarrow> event_codec \<Rightarrow> nat \<Rightarrow> string \<Rightarrow> ledger
  \<Rightarrow> (file_ledger_error, ledger) result" where
  "fl_load_line L C index line inner =
     and_then (ok_or (FlCorruptRecord index ''not a sealed event'') (event_de C line)) (\<lambda>recorded.
       case lg_append L (se_draft recorded) (se_knowledge_time recorded) inner of
         (r, inner') \<Rightarrow>
           and_then (map_err (\<lambda>_. FlCorruptRecord index ''fails validation on replay'') r) (\<lambda>replayed.
             if replayed \<noteq> se_event_id recorded
             then Inl (FlCorruptRecord index ''replayed id differs'')
             else Inr inner'))"

definition fl_open_internal :: "libs \<Rightarrow> event_codec \<Rightarrow> (string, string) result
  \<Rightarrow> string option \<Rightarrow> bool \<Rightarrow> (file_ledger_error, file_ledger) result" where
  "fl_open_internal L C read_outcome truncate_error recover =
     and_then (open_log FlIo FlTornTail (fl_load_line L C) lg_new read_outcome truncate_error recover)
       (\<lambda>(inner, bytes). Inr \<lparr>fl_inner = inner, fl_file = bytes\<rparr>)"

definition fl_open :: "libs \<Rightarrow> event_codec \<Rightarrow> (string, string) result
  \<Rightarrow> (file_ledger_error, file_ledger) result" where
  "fl_open L C read_outcome = fl_open_internal L C read_outcome None False"

definition fl_open_with_recovery :: "libs \<Rightarrow> event_codec \<Rightarrow> (string, string) result
  \<Rightarrow> string option \<Rightarrow> (file_ledger_error, file_ledger) result" where
  "fl_open_with_recovery L C read_outcome truncate_error =
     fl_open_internal L C read_outcome truncate_error True"

text \<open>The outcomes of the two writes and of the sync.\<close>

type_synonym persist_os = "write_outcome \<times> write_outcome \<times> string option"

definition fl_persist :: "event_codec \<Rightarrow> persist_os \<Rightarrow> tenant_id \<Rightarrow> file_ledger
  \<Rightarrow> (file_ledger_error, unit) result \<times> string" where
  "fl_persist C os tenant s =
     (case last_event (lg_stream (fl_inner s) tenant) of
        None \<Rightarrow> (Inl (FlCorruptRecord 0 ''no event after append''), fl_file s)
      | Some sealed \<Rightarrow>
          (case event_ser C sealed of
             None \<Rightarrow> (Inl (FlCorruptRecord 0 ''serialize failed''), fl_file s)
           | Some line \<Rightarrow>
               (case write_all (fst os) line (fl_file s) of
                  (Inl e, f) \<Rightarrow> (Inl (FlIo e), f)
                | (Inr _, f) \<Rightarrow>
                    (case write_all (fst (snd os)) [newline] f of
                       (Inl e, f') \<Rightarrow> (Inl (FlIo e), f')
                     | (Inr _, f') \<Rightarrow> (map_err FlIo (sync_all (snd (snd os))), f')))))"

definition fl_append :: "libs \<Rightarrow> event_codec \<Rightarrow> persist_os \<Rightarrow> event_draft \<Rightarrow> timestamp_ns \<Rightarrow> file_ledger
  \<Rightarrow> (ledger_error, event_id) result \<times> file_ledger" where
  "fl_append L C os draft knowledge_time s =
     (case lg_append L draft knowledge_time (fl_inner s) of
        (Inl e, inner) \<Rightarrow> (Inl e, s\<lparr>fl_inner := inner\<rparr>)
      | (Inr event_id, inner) \<Rightarrow>
          (case fl_persist C os (ev_tenant draft) (s\<lparr>fl_inner := inner\<rparr>) of
             (r, f) \<Rightarrow>
               (and_then (map_err (\<lambda>e. LedgerBackend (file_ledger_error_text e)) r) (\<lambda>_. Inr event_id),
                \<lparr>fl_inner = inner, fl_file = f\<rparr>)))"

definition fl_as_of :: "file_ledger \<Rightarrow> tenant_id \<Rightarrow> timestamp_ns \<Rightarrow> sealed_event list" where
  "fl_as_of s = lg_as_of (fl_inner s)"

definition fl_verify_chain :: "libs \<Rightarrow> file_ledger \<Rightarrow> tenant_id \<Rightarrow> (ledger_error, unit) result" where
  "fl_verify_chain L s = lg_verify_chain L (fl_inner s)"

definition fl_stream :: "file_ledger \<Rightarrow> tenant_id \<Rightarrow> sealed_event list" where
  "fl_stream s = lg_stream (fl_inner s)"

subsection \<open>The trait contract\<close>

lemma fl_append_inner: "fl_inner (snd (fl_append L C os d t s)) = snd (lg_append L d t (fl_inner s))"
  by (simp add: fl_append_def split: prod.splits sum.splits)

lemmas fl_lift = fl_append_inner fl_as_of_def fl_verify_chain_def fl_stream_def

interpretation durable_ledger: ledger_backend "\<lambda>s. lg_inv L (fl_inner s)" "fl_append L C" fl_as_of
  "fl_verify_chain L" fl_stream
  for L C
  by (unfold_locales, unfold fl_lift)
    (auto simp: mem_ledger.append_inv mem_ledger.append_grows mem_ledger.increasing mem_ledger.chained
      mem_ledger.as_of_stream)

subsection \<open>Loading\<close>

lemma fl_load_line_inv:
  "lg_inv L s \<Longrightarrow> fl_load_line L C i l s = Inr s' \<Longrightarrow> lg_inv L s'"
  using lg_append_inv [of L s]
  by (auto simp: fl_load_line_def result_simps case_prod_beta split: if_splits)

lemma replay_inv:
  assumes "\<And>i l s s'. P s \<Longrightarrow> step i l s = Inr s' \<Longrightarrow> P s'"
  shows "P s \<Longrightarrow> replay step i ls s = Inr s' \<Longrightarrow> P s'"
  by (induction ls arbitrary: i s) (auto simp: result_simps intro: assms)

lemma open_log_replayed:
  "open_log io torn step fresh rd tr rec = Inr (s, f) \<Longrightarrow> \<exists>ls. replay step 0 ls fresh = Inr s"
  by (auto simp: open_log_def Let_def result_simps split: if_splits option.splits)

lemma fl_open_internal_inv:
  assumes "fl_open_internal L C rd tr rec = Inr s"
  shows "lg_inv L (fl_inner s)"
proof -
  obtain ls where "replay (fl_load_line L C) 0 ls lg_new = Inr (fl_inner s)"
    using assms by (auto simp: fl_open_internal_def result_simps dest!: open_log_replayed)
  then show ?thesis
    by (rule replay_inv [rotated 2]) (auto intro: fl_load_line_inv simp: lg_inv_new)
qed

subsection \<open>Reopening\<close>

definition round_trips :: "event_codec \<Rightarrow> sealed_event \<Rightarrow> bool" where
  "round_trips C e \<longleftrightarrow> (\<exists>l. event_ser C e = Some l \<and> is_line l \<and> event_de C l = Some e)"

definition fl_line :: "event_codec \<Rightarrow> sealed_event \<Rightarrow> string" where
  "fl_line C e = (case event_ser C e of None \<Rightarrow> [] | Some l \<Rightarrow> l)"

definition fl_admissible :: "libs \<Rightarrow> event_codec \<Rightarrow> sealed_event \<Rightarrow> ledger \<Rightarrow> bool" where
  "fl_admissible L C e lg \<longleftrightarrow>
     round_trips C e \<and> lg_admit L (se_draft e) (se_knowledge_time e) lg = Inr e"

interpretation fl_log: durable_log "fl_load_line L C" lg_new "fl_line C" "fl_admissible L C" lg_push
  for L C
proof
  fix x s i
  assume x: "fl_admissible L C x s"
  then show "is_line (fl_line C x)"
    by (auto simp: fl_admissible_def round_trips_def fl_line_def)
  show "fl_load_line L C i (fl_line C x) s = Inr (lg_push x s)"
    using x by (auto simp: fl_admissible_def round_trips_def fl_line_def fl_load_line_def lg_append_def)
qed

definition fl_committed :: "libs \<Rightarrow> event_codec \<Rightarrow> file_ledger \<Rightarrow> bool" where
  "fl_committed L C s \<longleftrightarrow> fl_log.committed C L (fl_inner s) (fl_file s)"

lemma fl_committed_new: "fl_committed L C \<lparr>fl_inner = lg_new, fl_file = []\<rparr>"
  by (simp add: fl_committed_def fl_log.committed_fresh)

lemma write_all_Inr [result_simps]:
  "write_all w b f = (Inr u, f') \<longleftrightarrow> w = WriteOk \<and> f' = f @ b"
  by (cases w) auto

lemma write_all_Inl [result_simps]:
  "write_all w b f = (Inl e, f') \<longleftrightarrow> (\<exists>n. w = WriteErr n e \<and> f' = f @ take n b)"
  by (cases w) auto

lemma fl_append_success:
  assumes "fl_append L C os d t s = (Inr x, s')"
  shows "\<exists>e l. lg_admit L d t (fl_inner s) = Inr e \<and> event_ser C e = Some l \<and> se_draft e = d \<and>
    se_knowledge_time e = t \<and> s' = \<lparr>fl_inner = lg_push e (fl_inner s), fl_file = fl_file s @ l @ [newline]\<rparr>"
proof (cases rule: lg_append_cases [of L d t "fl_inner s"])
  case (rejected e)
  with assms show ?thesis by (simp add: fl_append_def)
next
  case (sealed e)
  then have "se_draft e = d" "se_knowledge_time e = t" by (auto simp: lg_admit_Inr)
  with sealed assms show ?thesis
    by (auto simp: fl_append_def fl_persist_def lg_stream_push last_event_def result_simps
        split: prod.splits option.splits sum.splits)
qed

lemma fl_committed_append:
  assumes "fl_committed L C s" and "fl_append L C os d t s = (Inr x, s')"
    and "\<And>e. lg_admit L d t (fl_inner s) = Inr e \<Longrightarrow> round_trips C e"
  shows "fl_committed L C s'"
proof -
  obtain e l where e: "lg_admit L d t (fl_inner s) = Inr e" "event_ser C e = Some l" "se_draft e = d"
    "se_knowledge_time e = t"
    and s': "s' = \<lparr>fl_inner = lg_push e (fl_inner s), fl_file = fl_file s @ l @ [newline]\<rparr>"
    using fl_append_success [OF assms(2)] by blast
  have "fl_admissible L C e (fl_inner s)" using e assms(3) by (simp add: fl_admissible_def)
  from fl_log.committed_append [OF assms(1) [unfolded fl_committed_def] this]
  show ?thesis using e(2) by (simp add: fl_committed_def s' fl_line_def)
qed

lemma fl_reopen: "fl_committed L C s \<Longrightarrow> fl_open L C (Inr (fl_file s)) = Inr s"
  using fl_log.open_committed [of C L "fl_inner s" "fl_file s"]
  by (simp add: fl_committed_def fl_open_def fl_open_internal_def)

lemma fl_reopen_torn:
  assumes "fl_committed L C s" and "newline \<notin> set tail" and "tail \<noteq> []"
  shows "fl_open L C (Inr (fl_file s @ tail)) = Inl (if utf8_ok tail then FlTornTail else FlIo invalid_utf8)"
    and "fl_open_with_recovery L C (Inr (fl_file s @ tail)) None =
      (if utf8_ok tail then Inr s else Inl (FlIo invalid_utf8))"
  using fl_log.open_tail [OF assms(1) [unfolded fl_committed_def] assms(2,3)]
  by (simp_all add: fl_open_def fl_open_with_recovery_def fl_open_internal_def)

text \<open>A failed write leaves the event in memory, although the error says it did not commit.\<close>

lemma fl_append_failed_write:
  assumes "lg_admit L d t (fl_inner s) = Inr e" and "event_ser C e = Some l"
  shows "fl_append L C (WriteErr 0 m, w, sy) d t s =
    (Inl (LedgerBackend (''io failure: '' @ m)), \<lparr>fl_inner = lg_push e (fl_inner s), fl_file = fl_file s\<rparr>)"
proof -
  have "se_draft e = d" using assms(1) by (auto simp: lg_admit_Inr)
  with assms show ?thesis
    by (simp add: fl_append_def fl_persist_def lg_append_def lg_stream_push last_event_def
        file_ledger_error_text_def)
qed

subsection \<open>Properties\<close>

text \<open>Appends whose writes all succeed.\<close>

fun fl_run :: "libs \<Rightarrow> event_codec \<Rightarrow> (event_draft \<times> timestamp_ns) list \<Rightarrow> file_ledger \<Rightarrow> file_ledger" where
  "fl_run L C [] s = s"
| "fl_run L C ((d, t) # ops) s = fl_run L C ops (snd (fl_append L C (WriteOk, WriteOk, None) d t s))"

definition fl_empty :: file_ledger where
  "fl_empty = \<lparr>fl_inner = lg_new, fl_file = []\<rparr>"

lemma fl_run_appends:
  "fl_run L C ops s = durable_ledger.appends L C (map (\<lambda>(d, t). ((WriteOk, WriteOk, None), d, t)) ops) s"
  by (induction L C ops s rule: fl_run.induct) simp_all

lemma fl_run_prefix: "prefix (fl_stream s tenant) (fl_stream (fl_run L C ops s) tenant)"
  unfolding fl_run_appends by (rule durable_ledger.appends_prefix)

lemma fl_append_written:
  assumes "lg_admit L d t (fl_inner s) = Inr e" and "event_ser C e = Some l"
  shows "fl_append L C (WriteOk, WriteOk, None) d t s =
    (Inr (se_event_id e), \<lparr>fl_inner = lg_push e (fl_inner s), fl_file = fl_file s @ l @ [newline]\<rparr>)"
proof -
  have "se_draft e = d" using assms(1) by (auto simp: lg_admit_Inr)
  with assms show ?thesis by (simp add: fl_append_def fl_persist_def lg_append_def lg_stream_push last_event_def)
qed

text \<open>The drafts a ledger file can hold: legal values of their types, not nested too deeply.\<close>

definition draft_storable :: "event_draft \<Rightarrow> bool" where
  "draft_storable d \<longleftrightarrow> draft_typed d \<and> nested_within payload_limit (ev_payload d)"

lemma admitted_float_free:
  assumes "libs_ok L" and "draft_typed d" and "lg_admit L d t s = Inr e"
  shows "float_free (ev_payload d)"
  using compute_id_ok [OF assms(1), of d "lg_prev L s (ev_tenant d)" t] assms(2,3)
  by (auto simp: draft_typed_def lg_admit_Inr is_ok_iff payload_ok_def json_ok_def)

lemma admitted_text:
  assumes "libs_ok L" and "json_text_ok J" and "draft_typed d" and "in_i64 t" and "lg_admit L d t s = Inr e"
  obtains l where "event_ser (serde_codec L J) e = Some l" and "is_line l"
    and "event_de (serde_codec L J) l = (if nested_within payload_limit (ev_payload d) then Some e else None)"
proof -
  have e: "se_draft e = d" "se_knowledge_time e = t" using assms(5) by (auto simp: lg_admit_Inr)
  obtain l where "jt_write J (sealed_ser L e) = Some l" "is_line l"
    "Option.bind (jt_read J l) (sealed_de L) = (if nested_within payload_limit (ev_payload (se_draft e)) then Some e else None)"
    by (rule event_text [OF assms(2,1), of e]) (use e assms(3,4) admitted_float_free [OF assms(1,3,5)] in auto)
  with e that show thesis by (simp add: serde_codec_def)
qed

lemma fl_append_committed:
  assumes "libs_ok L" and "json_text_ok J" and "draft_storable d" and "in_i64 t"
    and "fl_committed L (serde_codec L J) s"
  shows "fl_committed L (serde_codec L J) (snd (fl_append L (serde_codec L J) (WriteOk, WriteOk, None) d t s))"
proof (cases "lg_admit L d t (fl_inner s)")
  case (Inl e)
  then show ?thesis using assms(5) by (simp add: fl_append_def lg_append_def)
next
  case (Inr e)
  from assms(3) have d: "draft_typed d" "nested_within payload_limit (ev_payload d)"
    by (simp_all add: draft_storable_def)
  obtain l where l: "event_ser (serde_codec L J) e = Some l" "is_line l"
    "event_de (serde_codec L J) l = (if nested_within payload_limit (ev_payload d) then Some e else None)"
    using admitted_text [OF assms(1,2) d(1) assms(4) Inr] by blast
  then have "round_trips (serde_codec L J) e" using d(2) by (simp add: round_trips_def)
  then show ?thesis
    using fl_committed_append [OF assms(5) fl_append_written [OF Inr l(1)]] Inr fl_append_written [OF Inr l(1)] by simp
qed

lemma fl_run_committed:
  assumes "libs_ok L" and "json_text_ok J" and "list_all (\<lambda>(d, t). draft_storable d \<and> in_i64 t) ops"
    and "fl_committed L (serde_codec L J) s"
  shows "fl_committed L (serde_codec L J) (fl_run L (serde_codec L J) ops s)"
  using assms(3,4)
proof (induction ops arbitrary: s)
  case (Cons op ops)
  then show ?case using fl_append_committed [OF assms(1,2)] by (cases op) auto
qed simp

text \<open>C19: The durable ledger survives a restart: after any mixture of accepted and rejected appends of drafts
  that are legal values nested at most 125 deep, whose writes succeeded, reopening the file replays to
  exactly that ledger. When further bytes without a newline follow, as after a crash in the middle of a write,
  it depends on where they end: if they are whole characters, they are refused as a torn tail and the explicit
  recovery drops exactly them; if they end inside a character, or are no UTF-8 for another reason, the file cannot
  be read into a string and is refused as an io failure, by the recovery too.\<close>

theorem durable_ledger_reopens:
  assumes "libs_ok L" and "json_text_ok J" and "list_all (\<lambda>(d, t). draft_storable d \<and> in_i64 t) ops"
    and "newline \<notin> set tail" and "tail \<noteq> []"
  shows "let C = serde_codec L J; s = fl_run L C ops fl_empty in
    fl_open L C (Inr (fl_file s)) = Inr s \<and>
    fl_open L C (Inr (fl_file s @ tail)) = Inl (if utf8_ok tail then FlTornTail else FlIo invalid_utf8) \<and>
    fl_open_with_recovery L C (Inr (fl_file s @ tail)) None =
      (if utf8_ok tail then Inr s else Inl (FlIo invalid_utf8))"
proof -
  have "fl_committed L (serde_codec L J) (fl_run L (serde_codec L J) ops fl_empty)"
    using fl_run_committed [OF assms(1-3)] by (simp add: fl_empty_def fl_committed_new)
  from fl_reopen [OF this] fl_reopen_torn [OF this assms(4,5)] show ?thesis by (simp add: Let_def)
qed

theorem durable_ledger_reopens_witness:
  "let C = serde_codec (demo_libs demo_hash) demo_text; s = fl_run (demo_libs demo_hash) C [(demo_draft None, 10)] fl_empty in
   fl_stream s ''acme'' \<noteq> [] \<and> fl_open (demo_libs demo_hash) C (Inr (fl_file s)) = Inr s"
proof -
  let ?L = "demo_libs demo_hash" and ?C = "serde_codec (demo_libs demo_hash) demo_text"
  have draft: "draft_storable (demo_draft None)" by (simp add: draft_storable_def draft_typed_def demo_draft_def in_i64_def)
  have admit: "lg_admit ?L (demo_draft None) 10 lg_new = Inr (demo_event (hash_of_byte (CHR 0x00)) 10 None)"
    by (simp add: lg_admit_def lg_check_time_def lg_check_supersedes_def lg_prev_def lg_new_def demo_event_def Let_def)
  have "event_ser ?C (demo_event (hash_of_byte (CHR 0x00)) 10 None) = Some (code (sealed_ser ?L (demo_event (hash_of_byte (CHR 0x00)) 10 None)))"
    by (simp add: serde_codec_def demo_text_def)
  from fl_append_written [of ?L "demo_draft None" 10 fl_empty, OF _ this] admit
  have "fl_stream (fl_run ?L ?C [(demo_draft None, 10)] fl_empty) ''acme'' \<noteq> []"
    by (simp add: fl_empty_def fl_stream_def lg_stream_push demo_event_def demo_draft_def)
  moreover have "fl_open ?L ?C (Inr (fl_file (fl_run ?L ?C [(demo_draft None, 10)] fl_empty))) =
      Inr (fl_run ?L ?C [(demo_draft None, 10)] fl_empty)"
    using durable_ledger_reopens [OF demo_libs_ok [of demo_hash] demo_text_ok, of "[(demo_draft None, 10)]" "''x''"] draft
    by (simp add: newline_def in_i64_def Let_def)
  ultimately show ?thesis by (simp add: Let_def)
qed

text \<open>A crash inside a character, here the two-byte character U+00E9, is beyond the recovery, although only an
  unfinished record is lost.\<close>

theorem torn_character_locks_ledger:
  assumes "libs_ok L" and "json_text_ok J" and "list_all (\<lambda>(d, t). draft_storable d \<and> in_i64 t) ops"
    and "ascii start" and "newline \<notin> set start"
  shows "let C = serde_codec L J; s = fl_run L C ops fl_empty in
    fl_open_with_recovery L C (Inr (fl_file s @ start @ [CHR 0xC3])) None = Inl (FlIo invalid_utf8) \<and>
    fl_open_with_recovery L C (Inr (fl_file s @ start @ [CHR 0xC3, CHR 0xA9])) None = Inr s"
proof -
  let ?C = "serde_codec L J"
  have s: "fl_committed L ?C (fl_run L ?C ops fl_empty)"
    using fl_run_committed [OF assms(1-3)] by (simp add: fl_empty_def fl_committed_new)
  have "\<not> utf8_ok (start @ [CHR 0xC3])" "utf8_ok (start @ [CHR 0xC3, CHR 0xA9])"
    using ascii_utf8 [OF assms(4)] by (simp_all add: utf8_append) (simp_all add: utf8_ok_def utf8_follow_def)
  then show ?thesis
    using fl_reopen_torn(2) [OF s, of "start @ [CHR 0xC3]"] fl_reopen_torn(2) [OF s, of "start @ [CHR 0xC3, CHR 0xA9]"] assms(5)
    by (simp add: Let_def newline_def)
qed

theorem torn_character_locks_ledger_witness:
  "fl_open_with_recovery (demo_libs demo_hash) (serde_codec (demo_libs demo_hash) demo_text)
     (Inr (fl_file fl_empty @ ''{'' @ [CHR 0xC3])) None = Inl (FlIo invalid_utf8)"
  using torn_character_locks_ledger [OF demo_libs_ok [of demo_hash] demo_text_ok, of "[]" "''{''"]
  by (simp add: Let_def newline_def)

text \<open>Further appends, whatever comes of their writes, only add to the file.\<close>

fun fl_appends :: "libs \<Rightarrow> event_codec \<Rightarrow> (persist_os \<times> event_draft \<times> timestamp_ns) list \<Rightarrow> file_ledger \<Rightarrow> file_ledger" where
  "fl_appends L C [] s = s"
| "fl_appends L C ((os, d, t) # ops) s = fl_appends L C ops (snd (fl_append L C os d t s))"

lemma write_all_grows: "\<exists>more. snd (write_all w b f) = f @ more"
  by (cases w) auto

lemma fl_append_grows: "\<exists>more. fl_file (snd (fl_append L C os d t s)) = fl_file s @ more"
proof -
  have "\<exists>more. snd (fl_persist C os u s) = fl_file s @ more" for u s
    using write_all_grows [of "fst os" _ "fl_file s"] write_all_grows [of "fst (snd os)" "[newline]"]
    by (auto simp: fl_persist_def split: option.splits prod.splits sum.splits) (metis append.assoc snd_conv)+
  then show ?thesis by (auto simp: fl_append_def split: prod.splits sum.splits) (metis file_ledger.select_convs(2) file_ledger.update_convs(1) file_ledger.surjective snd_conv)
qed

lemma fl_appends_grow: "\<exists>more. fl_file (fl_appends L C ops s) = fl_file s @ more"
proof (induction L C ops s rule: fl_appends.induct)
  case (2 L C os d t ops s)
  then show ?case using fl_append_grows [of L C os d t s] by auto
qed simp

lemma deep_event_admitted:
  assumes "libs_ok L" and "payload_ok (ev_payload d)" and "ev_layer d = prov_layer (ev_provenance d)"
    and "ev_supersedes d = None" and "list_all (\<lambda>e. se_knowledge_time e < t) (lg_stream s (ev_tenant d))"
  obtains e where "lg_admit L d t s = Inr e" "se_draft e = d" "se_knowledge_time e = t"
proof -
  have "json_wf (ev_payload d)" using assms(2) by (simp add: payload_ok_def json_ok_def)
  then obtain x where "compute_id L (lg_prev L s (ev_tenant d)) t d = Inr x"
    using compute_id_ok [OF assms(1), of d "lg_prev L s (ev_tenant d)" t] assms(2) by (auto simp: is_ok_iff)
  moreover have "lg_stream s (ev_tenant d) = [] \<or> se_knowledge_time (last (lg_stream s (ev_tenant d))) < t"
    using assms(5) by (cases "lg_stream s (ev_tenant d) = []") (simp_all add: list_all_iff)
  ultimately have "lg_admit L d t s = Inr \<lparr>se_event_id = x, se_prev = lg_prev L s (ev_tenant d), se_knowledge_time = t, se_draft = d\<rparr>"
    using assms(3,4) by (simp add: lg_admit_Inr lg_check_time_Inr lg_check_supersedes_Inr)
  with that show thesis by simp
qed

text \<open>C40: A payload nested too deeply locks the ledger. A draft whose payload the canonical encoder takes (float-free, and
  no deeper than its 128 levels) but that nests more than 125 containers, with a layer that fits and a knowledge time
  after its stream's last, is accepted and its record is written; but no record may nest more than 127 containers
  when it is read, and the record puts two around the payload. The file opened before; from then on,
  whatever appends follow and whatever comes of their writes, it opens neither with \<open>open\<close> nor with
  \<open>open_with_recovery\<close>.\<close>

theorem deep_payload_locks_ledger:
  assumes "libs_ok L" and "json_text_ok J" and "list_all (\<lambda>(d, t). draft_storable d \<and> in_i64 t) ops"
    and "in_i64 (ev_time d)" and "in_i64 t" and "payload_ok (ev_payload d)"
    and "\<not> nested_within payload_limit (ev_payload d)"
    and "ev_layer d = prov_layer (ev_provenance d)" and "ev_supersedes d = None"
    and "list_all (\<lambda>e. se_knowledge_time e < t) (fl_stream (fl_run L (serde_codec L J) ops fl_empty) (ev_tenant d))"
  shows "let C = serde_codec L J; s = fl_run L C ops fl_empty; (r, s') = fl_append L C (WriteOk, WriteOk, None) d t s in
    fl_open L C (Inr (fl_file s)) = Inr s \<and>
    (\<exists>e. r = Inr (se_event_id e) \<and> se_draft e = d \<and> se_knowledge_time e = t \<and>
      fl_stream s' (ev_tenant d) = fl_stream s (ev_tenant d) @ [e]) \<and>
    (\<exists>n. fl_open L C (Inr (fl_file s')) = Inl (FlCorruptRecord n ''not a sealed event'')) \<and>
    (\<exists>error. fl_open L C (Inr (fl_file (fl_appends L C later s'))) = Inl error) \<and>
    (\<exists>error. fl_open_with_recovery L C (Inr (fl_file (fl_appends L C later s'))) tr = Inl error)"
proof -
  let ?C = "serde_codec L J"
  let ?s = "fl_run L ?C ops fl_empty"
  have s: "fl_committed L ?C ?s"
    using fl_run_committed [OF assms(1-3)] by (simp add: fl_empty_def fl_committed_new)
  have typed: "draft_typed d" using assms(4,6) by (simp add: draft_typed_def payload_ok_def json_ok_def)
  obtain e where e: "lg_admit L d t (fl_inner ?s) = Inr e" "se_draft e = d" "se_knowledge_time e = t"
    by (rule deep_event_admitted [OF assms(1,6,8,9)]) (use assms(10) in \<open>simp_all add: fl_stream_def\<close>)
  obtain l where l: "event_ser ?C e = Some l" "is_line l"
    "event_de ?C l = (if nested_within payload_limit (ev_payload d) then Some e else None)"
    using admitted_text [OF assms(1,2) typed assms(5) e(1)] by blast
  define s' where "s' = \<lparr>fl_inner = lg_push e (fl_inner ?s), fl_file = fl_file ?s @ l @ [newline]\<rparr>"
  have append: "fl_append L ?C (WriteOk, WriteOk, None) d t ?s = (Inr (se_event_id e), s')"
    unfolding s'_def by (rule fl_append_written [OF e(1) l(1)])
  obtain rest where longer: "fl_file (fl_appends L ?C later s') = fl_file ?s @ l @ newline # rest"
    using fl_appends_grow [of L ?C later s'] by (auto simp: s'_def)
  have refused: "fl_load_line L ?C i l (fl_inner ?s) = Inl (FlCorruptRecord i ''not a sealed event'')" for i
    using l(3) assms(7) by (simp add: fl_load_line_def)
  have "\<exists>n. open_log FlIo FlTornTail (fl_load_line L ?C) lg_new (Inr (fl_file ?s @ l @ newline # more)) tr rec
        \<in> {Inl (FlCorruptRecord n ''not a sealed event''), Inl FlTornTail, Inl (FlIo invalid_utf8)} \<and>
      (more = [] \<longrightarrow> open_log FlIo FlTornTail (fl_load_line L ?C) lg_new (Inr (fl_file ?s @ l @ newline # more)) tr rec =
        Inl (FlCorruptRecord n ''not a sealed event''))" for tr rec more
    by (rule fl_log.open_refused [OF s [unfolded fl_committed_def] l(2), where err = "\<lambda>n. FlCorruptRecord n ''not a sealed event''"])
      (use refused in blast)
  note log = this
  have closed: "\<exists>error. fl_open_internal L ?C (Inr (fl_file (fl_appends L ?C later s'))) tr rec = Inl error" for tr rec
    using log [of rest tr rec] unfolding fl_open_internal_def longer by auto
  have "\<exists>n. fl_open L ?C (Inr (fl_file s')) = Inl (FlCorruptRecord n ''not a sealed event'')"
    using log [of "[]" None False] by (auto simp: fl_open_def fl_open_internal_def s'_def)
  moreover have "fl_stream s' (ev_tenant d) = fl_stream ?s (ev_tenant d) @ [e]"
    using e(2) by (simp add: s'_def fl_stream_def lg_stream_push)
  ultimately show ?thesis
    using fl_reopen [OF s] closed e(2,3) by (simp add: Let_def append fl_open_def [of L ?C "Inr (fl_file (fl_appends L ?C later s'))"] fl_open_with_recovery_def)
qed

fun nest :: "nat \<Rightarrow> json" where
  "nest 0 = JNull"
| "nest (Suc n) = JArray [nest n]"

lemma nest_legal [simp]: "json_wf (nest n)" "float_free (nest n)"
  by (induction n) simp_all

lemma nest_nested [simp]: "nested_within k (nest n) \<longleftrightarrow> n \<le> k"
proof (induction n arbitrary: k)
  case (Suc n)
  then show ?case by (cases k) simp_all
qed simp

lemma nest_depth [simp]: "n \<le> k \<Longrightarrow> depth_ok k (nest n)"
proof (induction n arbitrary: k)
  case (Suc n)
  then show ?case by (cases k) simp_all
qed simp

theorem deep_payload_locks_ledger_witness:
  "\<exists>r s'. fl_append (demo_libs demo_hash) (serde_codec (demo_libs demo_hash) demo_text) (WriteOk, WriteOk, None)
       ((demo_draft None)\<lparr>ev_payload := nest 126\<rparr>) 10 fl_empty = (r, s') \<and> is_ok r \<and>
     (\<exists>error. fl_open_with_recovery (demo_libs demo_hash) (serde_codec (demo_libs demo_hash) demo_text)
       (Inr (fl_file (fl_appends (demo_libs demo_hash) (serde_codec (demo_libs demo_hash) demo_text)
          [((WriteOk, WriteOk, None), demo_draft None, 20)] s'))) None = Inl error)"
proof -
  let ?L = "demo_libs demo_hash" and ?d = "(demo_draft None)\<lparr>ev_payload := nest 126\<rparr>"
  have "in_i64 (ev_time ?d)" "payload_ok (ev_payload ?d)" "\<not> nested_within payload_limit (ev_payload ?d)"
    "ev_layer ?d = prov_layer (ev_provenance ?d)" "ev_supersedes ?d = None"
    by (simp_all add: demo_draft_def in_i64_def payload_ok_def json_ok_def payload_limit_def)
  note d = this
  have "list_all (\<lambda>e. se_knowledge_time e < 10) (fl_stream (fl_run ?L (serde_codec ?L demo_text) [] fl_empty) (ev_tenant ?d))"
    by (simp add: fl_empty_def fl_stream_def lg_stream_new)
  from deep_payload_locks_ledger [OF demo_libs_ok demo_text_ok _ d(1) _ d(2-5) this, where tr = None and later = "[((WriteOk, WriteOk, None), demo_draft None, 20)]"]
  show ?thesis by (auto simp: Let_def in_i64_def case_prod_beta prod_eq_iff is_ok_iff simp del: fl_appends.simps)
qed

text \<open>Loading fails closed: whatever bytes the file holds, a ledger that opens, with or without
  recovery, has verified hash chains and strictly increasing knowledge times in every stream.\<close>

theorem durable_ledger_loads_verified:
  assumes "fl_open_internal L C read_outcome truncate_error recover = Inr s"
  shows "fl_verify_chain L s tenant = Inr () \<and>
    sorted_wrt (<) (map se_knowledge_time (fl_stream s tenant)) \<and> supersession_ok (fl_stream s tenant)"
  using fl_open_internal_inv [OF assms] durable_ledger.chained [of L s tenant] durable_ledger.increasing [of L s tenant]
  by (simp add: times_increase_def lg_inv_def fl_stream_def)

definition demo_codec :: event_codec where
  "demo_codec = \<lparr>event_ser = (\<lambda>e. Some ''event''),
     event_de = (\<lambda>l. if l = ''event'' then Some (demo_event (hash_of_byte (CHR 0x00)) 10 None) else None)\<rparr>"

theorem durable_ledger_loads_verified_witness:
  "fl_verify_chain (demo_libs demo_hash) \<lparr>fl_inner = lg_push (demo_event (hash_of_byte (CHR 0x00)) 10 None) lg_new,
     fl_file = ''event'' @ [newline]\<rparr> ''acme'' = Inr ()"
proof -
  have "fl_open_internal (demo_libs demo_hash) demo_codec (Inr (''event'' @ [newline])) None False =
    Inr \<lparr>fl_inner = lg_push (demo_event (hash_of_byte (CHR 0x00)) 10 None) lg_new, fl_file = ''event'' @ [newline]\<rparr>"
    by (simp add: fl_open_internal_def open_log_def read_to_string_def utf8_ok_def utf8_follow_def complete_len_def lines_of_def newline_def strip_cr_def
        carriage_return_def fl_load_line_def demo_codec_def lg_append_def lg_admit_def lg_check_time_def
        lg_check_supersedes_def lg_prev_def lg_new_def demo_event_def Let_def)
  from durable_ledger_loads_verified [OF this, of "''acme''"] show ?thesis by simp
qed

end
