(* ===== verification/Lots.thy ===== *)
theory Lots
  imports Amount
begin

section \<open>Lot accounting (treasury-lots)\<close>

text \<open>
  Models \<open>crates/treasury-lots/src/\<close> \<open>lot.rs\<close> and \<open>book.rs\<close>. A book is the tenant and the
  vector of open lots. \<open>dispose\<close> and \<open>transfer\<close> plan a relief without touching the book and
  then apply it lot by lot; \<open>apply_relief\<close> returns the book it leaves behind also when it
  fails half way, and \<open>relieve_lot\<close> keeps the order of the code's assignments, so that the
  state after an error is the code's.

  The lemmas show that a successful disposal or transfer conserves quantity, basis and fee
  exactly, that it keeps the invariant of the book, which lots are relieved and by how much,
  and when a disposal succeeds; the last section shows what a failing one can leave behind.
\<close>

type_synonym lot_id = content_hash

record lot =
  lot_id :: lot_id
  lot_tenant :: tenant_id
  lot_asset :: asset_id
  lot_venue :: venue_id
  lot_atoms :: int
  lot_cost_basis :: asset_amount
  lot_acquisition_fee :: asset_amount
  lot_acquired_at :: timestamp_ns
  lot_source_event :: content_hash
  lot_moved_from :: "lot_id option"

datatype lot_error =
    NonPositiveQuantity int
  | NegativeMoney
  | CurrencyMismatch
  | InsufficientQuantity int int
  | UnknownLot lot_id
  | WrongLotTarget lot_id
  | LotOverflow
  | LotAmount amount_error
  | LotCanon canon_error

datatype relief_method = Fifo | SpecificLots "lot_id list"

record lot_relief =
  lr_lot_id :: lot_id
  lr_atoms :: int
  lr_basis_relieved :: asset_amount
  lr_fee_relieved :: asset_amount

record disposal_result =
  dr_method :: relief_method
  dr_policy_hash :: content_hash
  dr_reliefs :: "lot_relief list"
  dr_total_basis_relieved :: asset_amount
  dr_proceeds :: asset_amount
  dr_realized :: asset_amount

record lot_book =
  lb_tenant :: tenant_id
  lb_lots :: "lot list"

definition lot_schema :: string where
  "lot_schema = ''treasury-lots/lot/v1''"

definition lots_state_schema :: string where
  "lots_state_schema = ''treasury-lots/lots-state/v1''"

subsection \<open>Identity\<close>

text \<open>The opening facts of a lot are the fields of the lot other than its id.\<close>

definition lot_env :: "libs \<Rightarrow> lot \<Rightarrow> json" where
  "lot_env L l = json_object [
     (''schema'', JString lot_schema),
     (''tenant'', JString (lot_tenant l)),
     (''asset'', JString (lot_asset l)),
     (''venue'', JString (lot_venue l)),
     (''atoms'', JString (show_int (lot_atoms l))),
     (''cost_basis'', amount_json (lot_cost_basis l)),
     (''acquisition_fee'', amount_json (lot_acquisition_fee l)),
     (''acquired_at'', time_json (lot_acquired_at l)),
     (''source_event'', JString (to_hex L (lot_source_event l))),
     (''moved_from'', json_option (hash_json L) (lot_moved_from l))]"

definition compute_lot_id :: "libs \<Rightarrow> lot \<Rightarrow> (canon_error, lot_id) result" where
  "compute_lot_id L l = content_id L (lot_env L l)"

definition lot_json :: "libs \<Rightarrow> lot \<Rightarrow> json" where
  "lot_json L l = json_object [
     (''lot_id'', hash_json L (lot_id l)),
     (''tenant'', JString (lot_tenant l)),
     (''asset'', JString (lot_asset l)),
     (''venue'', JString (lot_venue l)),
     (''atoms'', JString (show_int (lot_atoms l))),
     (''cost_basis'', amount_json (lot_cost_basis l)),
     (''acquisition_fee'', amount_json (lot_acquisition_fee l)),
     (''acquired_at'', time_json (lot_acquired_at l)),
     (''source_event'', hash_json L (lot_source_event l)),
     (''moved_from'', json_option (hash_json L) (lot_moved_from l))]"

subsection \<open>Opening and reading\<close>

definition lb_new :: "tenant_id \<Rightarrow> lot_book" where
  "lb_new tenant = \<lparr>lb_tenant = tenant, lb_lots = []\<rparr>"

text \<open>A lot with its id filled in.\<close>

definition open_lot :: "libs \<Rightarrow> lot \<Rightarrow> lot_book \<Rightarrow> (lot_error, lot_id) result \<times> lot_book" where
  "open_lot L l b =
     (case compute_lot_id L l of
        Inl e \<Rightarrow> (Inl (LotCanon e), b)
      | Inr i \<Rightarrow> (Inr i, b\<lparr>lb_lots := lb_lots b @ [l\<lparr>lot_id := i\<rparr>]\<rparr>))"

definition acquire :: "libs \<Rightarrow> asset_id \<Rightarrow> venue_id \<Rightarrow> int \<Rightarrow> asset_amount \<Rightarrow> asset_amount \<Rightarrow> timestamp_ns
  \<Rightarrow> content_hash \<Rightarrow> lot_book \<Rightarrow> (lot_error, lot_id) result \<times> lot_book" where
  "acquire L asset venue atoms cost_basis acquisition_fee acquired_at source_event b =
     (if atoms \<le> 0 then (Inl (NonPositiveQuantity atoms), b)
      else if amt_atoms cost_basis < 0 \<or> amt_atoms acquisition_fee < 0 then (Inl NegativeMoney, b)
      else if amt_asset cost_basis \<noteq> amt_asset acquisition_fee then (Inl CurrencyMismatch, b)
      else open_lot L
        \<lparr>lot_id = hash_of_byte (CHR 0x00), lot_tenant = lb_tenant b, lot_asset = asset, lot_venue = venue,
         lot_atoms = atoms, lot_cost_basis = cost_basis, lot_acquisition_fee = acquisition_fee,
         lot_acquired_at = acquired_at, lot_source_event = source_event, lot_moved_from = None\<rparr> b)"

definition at_position :: "asset_id \<Rightarrow> venue_id \<Rightarrow> lot \<Rightarrow> bool" where
  "at_position asset venue l \<longleftrightarrow> lot_asset l = asset \<and> lot_venue l = venue"

definition held :: "lot_book \<Rightarrow> asset_id \<Rightarrow> venue_id \<Rightarrow> int" where
  "held b asset venue =
     fold (\<lambda>l total. if at_position asset venue l then i128_saturating_add total (lot_atoms l) else total)
       (lb_lots b) 0"

definition lot_key :: "lot \<Rightarrow> timestamp_ns \<times> lot_id" where
  "lot_key l = (lot_acquired_at l, lot_id l)"

definition open_lots :: "lot_book \<Rightarrow> lot list" where
  "open_lots b = sort_key lot_key (lb_lots b)"

definition lots_env :: "libs \<Rightarrow> lot_book \<Rightarrow> json" where
  "lots_env L b = json_object [
     (''schema'', JString lots_state_schema),
     (''lot_schema'', JString lot_schema),
     (''tenant'', JString (lb_tenant b)),
     (''lots'', JArray (map (lot_json L) (sort_key lot_id (lb_lots b))))]"

definition lots_hash :: "libs \<Rightarrow> lot_book \<Rightarrow> (lot_error, content_hash) result" where
  "lots_hash L b = map_err LotCanon (content_id L (lots_env L b))"

subsection \<open>Planning\<close>

definition find_lot :: "lot_id \<Rightarrow> lot list \<Rightarrow> lot option" where
  "find_lot i lots = List.find (\<lambda>l. lot_id l = i) lots"

fun specific_candidates :: "asset_id \<Rightarrow> venue_id \<Rightarrow> lot list \<Rightarrow> lot_id list \<Rightarrow> (lot_error, lot list) result"
where
  "specific_candidates asset venue lots [] = Inr []"
| "specific_candidates asset venue lots (i # ids) =
     and_then (ok_or (UnknownLot i) (find_lot i lots)) (\<lambda>l.
       if \<not> at_position asset venue l then Inl (WrongLotTarget i)
       else and_then (specific_candidates asset venue lots ids) (\<lambda>ls. Inr (l # ls)))"

definition candidates :: "asset_id \<Rightarrow> venue_id \<Rightarrow> relief_method \<Rightarrow> lot list \<Rightarrow> (lot_error, lot list) result"
where
  "candidates asset venue method lots =
     (case method of
        Fifo \<Rightarrow> Inr (sort_key lot_key (filter (at_position asset venue) lots))
      | SpecificLots ids \<Rightarrow> specific_candidates asset venue lots ids)"

fun sum_available :: "int \<Rightarrow> lot list \<Rightarrow> (lot_error, int) result" where
  "sum_available available [] = Inr available"
| "sum_available available (l # ls) =
     and_then (ok_or LotOverflow (i128_add available (lot_atoms l))) (\<lambda>a. sum_available a ls)"

fun take_plan :: "int \<Rightarrow> lot list \<Rightarrow> (lot_error, (lot_id \<times> int) list) result" where
  "take_plan needed [] = Inr []"
| "take_plan needed (l # ls) =
     (if needed = 0 then Inr []
      else (let t = min needed (lot_atoms l) in
        and_then (ok_or LotOverflow (i128_sub needed t)) (\<lambda>rest.
          and_then (take_plan rest ls) (\<lambda>plan. Inr ((lot_id l, t) # plan)))))"

definition plan_relief :: "asset_id \<Rightarrow> venue_id \<Rightarrow> int \<Rightarrow> relief_method \<Rightarrow> lot_book
  \<Rightarrow> (lot_error, (lot_id \<times> int) list) result" where
  "plan_relief asset venue atoms method b =
     (if atoms \<le> 0 then Inl (NonPositiveQuantity atoms)
      else and_then (candidates asset venue method (lb_lots b)) (\<lambda>ordered.
        and_then (sum_available 0 ordered) (\<lambda>available.
          if available < atoms then Inl (InsufficientQuantity atoms available)
          else take_plan atoms ordered)))"

fun check_currency :: "asset_id \<Rightarrow> lot list \<Rightarrow> (lot_id \<times> int) list \<Rightarrow> (lot_error, asset_id) result" where
  "check_currency currency lots [] = Inr currency"
| "check_currency currency lots ((i, _) # plan) =
     and_then (ok_or (UnknownLot i) (find_lot i lots)) (\<lambda>l.
       if amt_asset (lot_cost_basis l) \<noteq> currency then Inl CurrencyMismatch
       else check_currency currency lots plan)"

definition basis_currency :: "(lot_id \<times> int) list \<Rightarrow> lot list \<Rightarrow> (lot_error, asset_id) result" where
  "basis_currency plan lots =
     (case plan of
        [] \<Rightarrow> Inl (NonPositiveQuantity 0)
      | (first_id, _) # _ \<Rightarrow>
          and_then (ok_or (UnknownLot first_id) (find_lot first_id lots)) (\<lambda>first.
            check_currency (amt_asset (lot_cost_basis first)) lots plan))"

subsection \<open>Applying\<close>

definition pro_rata :: "int \<Rightarrow> int \<Rightarrow> int \<Rightarrow> (lot_error, int) result" where
  "pro_rata amount part whole =
     and_then (ok_or LotOverflow (i128_mul amount part)) (\<lambda>scaled. ok_or LotOverflow (i128_div scaled whole))"

text \<open>The body of the loop on one lot, with the lot it leaves behind in every case.\<close>

definition relieve_lot :: "int \<Rightarrow> lot \<Rightarrow> (lot_error, lot_relief) result \<times> lot" where
  "relieve_lot t l =
     (case pro_rata (amt_atoms (lot_cost_basis l)) t (lot_atoms l) of
        Inl e \<Rightarrow> (Inl e, l)
      | Inr basis_part \<Rightarrow>
     (case pro_rata (amt_atoms (lot_acquisition_fee l)) t (lot_atoms l) of
        Inl e \<Rightarrow> (Inl e, l)
      | Inr fee_part \<Rightarrow>
     (case i128_sub (lot_atoms l) t of
        None \<Rightarrow> (Inl LotOverflow, l)
      | Some atoms \<Rightarrow>
     (let l1 = l\<lparr>lot_atoms := atoms\<rparr>; currency = amt_asset (lot_cost_basis l) in
      case i128_sub (amt_atoms (lot_cost_basis l)) basis_part of
        None \<Rightarrow> (Inl LotOverflow, l1)
      | Some basis_left \<Rightarrow>
     (case i128_sub (amt_atoms (lot_acquisition_fee l)) fee_part of
        None \<Rightarrow> (Inl LotOverflow, l1)
      | Some fee_left \<Rightarrow>
          (Inr \<lparr>lr_lot_id = lot_id l, lr_atoms = t, lr_basis_relieved = amount_new currency basis_part,
                lr_fee_relieved = amount_new currency fee_part\<rparr>,
           l1\<lparr>lot_cost_basis := amount_new currency basis_left,
              lot_acquisition_fee := amount_new currency fee_left\<rparr>))))))"

fun update_first :: "('a \<Rightarrow> bool) \<Rightarrow> 'a \<Rightarrow> 'a list \<Rightarrow> 'a list" where
  "update_first P y [] = []"
| "update_first P y (x # xs) = (if P x then y # xs else x # update_first P y xs)"

fun relief_loop :: "(lot_id \<times> int) list \<Rightarrow> lot list \<Rightarrow> (lot_error, lot_relief list) result \<times> lot list" where
  "relief_loop [] lots = (Inr [], lots)"
| "relief_loop ((i, t) # plan) lots =
     (case find_lot i lots of
        None \<Rightarrow> (Inl (UnknownLot i), lots)
      | Some l \<Rightarrow>
          (case relieve_lot t l of
             (Inl e, l') \<Rightarrow> (Inl e, update_first (\<lambda>x. lot_id x = i) l' lots)
           | (Inr r, l') \<Rightarrow>
               (case relief_loop plan (update_first (\<lambda>x. lot_id x = i) l' lots) of
                  (Inl e, lots') \<Rightarrow> (Inl e, lots')
                | (Inr rs, lots') \<Rightarrow> (Inr (r # rs), lots'))))"

definition apply_relief :: "(lot_id \<times> int) list \<Rightarrow> lot_book \<Rightarrow> (lot_error, lot_relief list) result \<times> lot_book"
where
  "apply_relief plan b =
     (case relief_loop plan (lb_lots b) of
        (Inl e, lots) \<Rightarrow> (Inl e, b\<lparr>lb_lots := lots\<rparr>)
      | (Inr rs, lots) \<Rightarrow> (Inr rs, b\<lparr>lb_lots := filter (\<lambda>l. 0 < lot_atoms l) lots\<rparr>))"

fun sum_basis :: "asset_amount \<Rightarrow> lot_relief list \<Rightarrow> (lot_error, asset_amount) result" where
  "sum_basis acc [] = Inr acc"
| "sum_basis acc (r # rs) =
     and_then (map_err LotAmount (checked_add acc (lr_basis_relieved r))) (\<lambda>t. sum_basis t rs)"

definition dispose :: "asset_id \<Rightarrow> venue_id \<Rightarrow> int \<Rightarrow> relief_method \<Rightarrow> content_hash \<Rightarrow> asset_amount
  \<Rightarrow> lot_book \<Rightarrow> (lot_error, disposal_result) result \<times> lot_book" where
  "dispose asset venue atoms method policy_hash proceeds b =
     (case and_then (plan_relief asset venue atoms method b) (\<lambda>plan.
             and_then (basis_currency plan (lb_lots b)) (\<lambda>currency.
               if amt_asset proceeds \<noteq> currency then Inl CurrencyMismatch else Inr (plan, currency))) of
        Inl e \<Rightarrow> (Inl e, b)
      | Inr (plan, currency) \<Rightarrow>
          (case apply_relief plan b of
             (Inl e, b') \<Rightarrow> (Inl e, b')
           | (Inr reliefs, b') \<Rightarrow>
               (and_then (sum_basis (amount_new currency 0) reliefs) (\<lambda>total_basis.
                  and_then (map_err LotAmount (checked_sub proceeds total_basis)) (\<lambda>realized.
                    Inr \<lparr>dr_method = method, dr_policy_hash = policy_hash, dr_reliefs = reliefs,
                         dr_total_basis_relieved = total_basis, dr_proceeds = proceeds,
                         dr_realized = realized\<rparr>)), b')))"

fun plan_origins :: "lot list \<Rightarrow> (lot_id \<times> int) list \<Rightarrow> (lot_error, (lot_id \<times> timestamp_ns) list) result" where
  "plan_origins lots [] = Inr []"
| "plan_origins lots ((i, _) # plan) =
     and_then (ok_or (UnknownLot i) (find_lot i lots)) (\<lambda>l.
       and_then (plan_origins lots plan) (\<lambda>os. Inr ((i, lot_acquired_at l) # os)))"

fun reopen :: "libs \<Rightarrow> asset_id \<Rightarrow> venue_id \<Rightarrow> content_hash \<Rightarrow> (lot_id \<times> timestamp_ns) list \<Rightarrow> lot_relief list
  \<Rightarrow> lot_book \<Rightarrow> (lot_error, lot_id list) result \<times> lot_book" where
  "reopen L asset to_venue transfer_event origins [] b = (Inr [], b)"
| "reopen L asset to_venue transfer_event origins (r # rs) b =
     (case map_of origins (lr_lot_id r) of
        None \<Rightarrow> (Inl (UnknownLot (lr_lot_id r)), b)
      | Some acquired_at \<Rightarrow>
          (case open_lot L
             \<lparr>lot_id = hash_of_byte (CHR 0x00), lot_tenant = lb_tenant b, lot_asset = asset,
              lot_venue = to_venue, lot_atoms = lr_atoms r, lot_cost_basis = lr_basis_relieved r,
              lot_acquisition_fee = lr_fee_relieved r, lot_acquired_at = acquired_at,
              lot_source_event = transfer_event, lot_moved_from = Some (lr_lot_id r)\<rparr> b of
             (Inl e, b') \<Rightarrow> (Inl e, b')
           | (Inr i, b') \<Rightarrow>
               (case reopen L asset to_venue transfer_event origins rs b' of
                  (Inl e, b'') \<Rightarrow> (Inl e, b'')
                | (Inr ids, b'') \<Rightarrow> (Inr (i # ids), b''))))"

definition transfer :: "libs \<Rightarrow> asset_id \<Rightarrow> venue_id \<Rightarrow> venue_id \<Rightarrow> int \<Rightarrow> content_hash
  \<Rightarrow> lot_book \<Rightarrow> (lot_error, lot_id list) result \<times> lot_book" where
  "transfer L asset from_venue to_venue atoms transfer_event b =
     (case and_then (plan_relief asset from_venue atoms Fifo b) (\<lambda>plan.
             and_then (plan_origins (lb_lots b) plan) (\<lambda>origins. Inr (plan, origins))) of
        Inl e \<Rightarrow> (Inl e, b)
      | Inr (plan, origins) \<Rightarrow>
          (case apply_relief plan b of
             (Inl e, b') \<Rightarrow> (Inl e, b')
           | (Inr reliefs, b') \<Rightarrow> reopen L asset to_venue transfer_event origins reliefs b'))"

subsection \<open>Invariant and totals\<close>

definition lot_money_ok :: "lot \<Rightarrow> bool" where
  "lot_money_ok l \<longleftrightarrow>
     0 \<le> amt_atoms (lot_cost_basis l) \<and> in_i128 (amt_atoms (lot_cost_basis l)) \<and>
     0 \<le> amt_atoms (lot_acquisition_fee l) \<and> in_i128 (amt_atoms (lot_acquisition_fee l)) \<and>
     amt_asset (lot_acquisition_fee l) = amt_asset (lot_cost_basis l)"

definition lot_ok :: "lot \<Rightarrow> bool" where
  "lot_ok l \<longleftrightarrow> 0 < lot_atoms l \<and> in_i128 (lot_atoms l) \<and> lot_money_ok l"

text \<open>A lot that has been emptied carries no money.\<close>

definition lot_emptied :: "lot \<Rightarrow> bool" where
  "lot_emptied l \<longleftrightarrow> lot_atoms l = 0 \<and> amt_atoms (lot_cost_basis l) = 0 \<and> amt_atoms (lot_acquisition_fee l) = 0"

definition lb_ok :: "lot_book \<Rightarrow> bool" where
  "lb_ok b \<longleftrightarrow> (\<forall>l \<in> set (lb_lots b). lot_ok l \<and> lot_tenant l = lb_tenant b)"

definition lb_distinct :: "lot_book \<Rightarrow> bool" where
  "lb_distinct b \<longleftrightarrow> distinct (map lot_id (lb_lots b))"

definition atoms_at :: "asset_id \<Rightarrow> venue_id \<Rightarrow> lot list \<Rightarrow> int" where
  "atoms_at asset venue lots = (\<Sum>l \<leftarrow> lots. if at_position asset venue l then lot_atoms l else 0)"

definition basis_in :: "asset_id \<Rightarrow> lot list \<Rightarrow> int" where
  "basis_in currency lots =
     (\<Sum>l \<leftarrow> lots. if amt_asset (lot_cost_basis l) = currency then amt_atoms (lot_cost_basis l) else 0)"

definition fee_in :: "asset_id \<Rightarrow> lot list \<Rightarrow> int" where
  "fee_in currency lots =
     (\<Sum>l \<leftarrow> lots. if amt_asset (lot_acquisition_fee l) = currency then amt_atoms (lot_acquisition_fee l) else 0)"

definition amounts_in :: "asset_id \<Rightarrow> asset_amount list \<Rightarrow> int" where
  "amounts_in currency as = (\<Sum>a \<leftarrow> as. if amt_asset a = currency then amt_atoms a else 0)"

subsection \<open>Relieving one lot\<close>

definition lot_part :: "int \<Rightarrow> int \<Rightarrow> lot \<Rightarrow> int" where
  "lot_part t m l = m * t div lot_atoms l"

definition relief_of :: "int \<Rightarrow> lot \<Rightarrow> lot_relief" where
  "relief_of t l =
     \<lparr>lr_lot_id = lot_id l, lr_atoms = t,
      lr_basis_relieved = amount_new (amt_asset (lot_cost_basis l)) (lot_part t (amt_atoms (lot_cost_basis l)) l),
      lr_fee_relieved = amount_new (amt_asset (lot_cost_basis l)) (lot_part t (amt_atoms (lot_acquisition_fee l)) l)\<rparr>"

definition remainder :: "int \<Rightarrow> lot \<Rightarrow> lot" where
  "remainder t l = l\<lparr>lot_atoms := lot_atoms l - t,
     lot_cost_basis := amount_new (amt_asset (lot_cost_basis l))
       (amt_atoms (lot_cost_basis l) - lot_part t (amt_atoms (lot_cost_basis l)) l),
     lot_acquisition_fee := amount_new (amt_asset (lot_cost_basis l))
       (amt_atoms (lot_acquisition_fee l) - lot_part t (amt_atoms (lot_acquisition_fee l)) l)\<rparr>"

definition relief_fits :: "int \<Rightarrow> lot \<Rightarrow> bool" where
  "relief_fits t l \<longleftrightarrow>
     in_i128 (amt_atoms (lot_cost_basis l) * t) \<and> in_i128 (amt_atoms (lot_acquisition_fee l) * t)"

lemma part_bounds:
  assumes "0 \<le> m" and "0 < t" and "t \<le> a"
  shows "0 \<le> m * t div a" "m * t div a \<le> (m::int)"
proof -
  show "0 \<le> m * t div a" using assms by (simp add: pos_imp_zdiv_nonneg_iff)
  have "m * t \<le> m * a" using assms by (simp add: mult_left_mono)
  then have "m * t div a \<le> m * a div a" using assms by (intro zdiv_mono1) simp_all
  also have "\<dots> = m" using assms by simp
  finally show "m * t div a \<le> m" .
qed

lemma in_i128_between: "in_i128 m \<Longrightarrow> 0 \<le> x \<Longrightarrow> x \<le> m \<Longrightarrow> in_i128 x"
  by (auto simp: in_i128_def)

lemma pro_rata_eq:
  assumes "0 \<le> m" and "in_i128 m" and "0 < t" and "t \<le> a"
  shows "pro_rata m t a = (if in_i128 (m * t) then Inr (m * t div a) else Inl LotOverflow)"
proof -
  have "in_i128 (m * t div a)"
    using part_bounds [OF assms(1,3,4)] by (rule in_i128_between [OF assms(2)])
  moreover have "m * t sdiv a = m * t div a" using assms by (intro sdiv_nonneg) simp_all
  ultimately show ?thesis using assms by (simp add: pro_rata_def i128_ops i128_opt_def)
qed

lemma relieve_lot_eq:
  assumes "lot_ok l" and "0 < t" and "t \<le> lot_atoms l"
  shows "relieve_lot t l = (if relief_fits t l then (Inr (relief_of t l), remainder t l) else (Inl LotOverflow, l))"
proof -
  let ?b = "amt_atoms (lot_cost_basis l)" and ?f = "amt_atoms (lot_acquisition_fee l)" and ?a = "lot_atoms l"
  have m: "0 \<le> ?b" "in_i128 ?b" "0 \<le> ?f" "in_i128 ?f"
    using assms(1) by (simp_all add: lot_ok_def lot_money_ok_def)
  have "in_i128 (?a - t)" using assms by - (rule in_i128_between [of ?a], simp_all add: lot_ok_def)
  moreover have "in_i128 (?b - ?b * t div ?a)"
    by (rule in_i128_between [OF m(2)]) (use part_bounds [OF m(1) assms(2,3)] in simp_all)
  moreover have "in_i128 (?f - ?f * t div ?a)"
    by (rule in_i128_between [OF m(4)]) (use part_bounds [OF m(3) assms(2,3)] in simp_all)
  ultimately show ?thesis
    using pro_rata_eq [OF m(1,2) assms(2,3)] pro_rata_eq [OF m(3,4) assms(2,3)]
    by (simp add: relieve_lot_def relief_fits_def i128_sub_def i128_opt_def Let_def relief_of_def remainder_def
        lot_part_def)
qed

lemma relieve_lot_emptied: "lot_atoms l = 0 \<Longrightarrow> \<exists>e. relieve_lot t l = (Inl e, l)"
  by (cases "in_i128 (amt_atoms (lot_cost_basis l) * t)")
    (simp_all add: relieve_lot_def pro_rata_def i128_mul_def i128_div_def i128_opt_def)

lemma remainder_simps [simp]:
  "lot_id (remainder t l) = lot_id l" "lot_tenant (remainder t l) = lot_tenant l"
  "lot_asset (remainder t l) = lot_asset l" "lot_venue (remainder t l) = lot_venue l"
  "lot_atoms (remainder t l) = lot_atoms l - t"
  "amt_asset (lot_cost_basis (remainder t l)) = amt_asset (lot_cost_basis l)"
  "amt_asset (lot_acquisition_fee (remainder t l)) = amt_asset (lot_cost_basis l)"
  "amt_atoms (lot_cost_basis (remainder t l)) =
     amt_atoms (lot_cost_basis l) - lot_part t (amt_atoms (lot_cost_basis l)) l"
  "amt_atoms (lot_acquisition_fee (remainder t l)) =
     amt_atoms (lot_acquisition_fee l) - lot_part t (amt_atoms (lot_acquisition_fee l)) l"
  by (simp_all add: remainder_def)

lemma remainder_ok:
  assumes "lot_ok l" and "0 < t" and "t \<le> lot_atoms l"
  shows "lot_ok (remainder t l) \<or> lot_emptied (remainder t l)"
proof (cases "t = lot_atoms l")
  case True
  then show ?thesis using assms by (simp add: lot_emptied_def lot_part_def)
next
  case False
  have m: "0 \<le> amt_atoms (lot_cost_basis l)" "in_i128 (amt_atoms (lot_cost_basis l))"
    "0 \<le> amt_atoms (lot_acquisition_fee l)" "in_i128 (amt_atoms (lot_acquisition_fee l))"
    using assms(1) by (simp_all add: lot_ok_def lot_money_ok_def)
  have "in_i128 (lot_atoms l - t)" "0 < lot_atoms l - t"
    using False assms by (auto simp: lot_ok_def intro: in_i128_between [of "lot_atoms l"])
  moreover have "lot_money_ok (remainder t l)"
    using m part_bounds [OF m(1) assms(2,3)] part_bounds [OF m(3) assms(2,3)]
      in_i128_between [OF m(2)] in_i128_between [OF m(4)]
    by (simp add: lot_money_ok_def lot_part_def)
  ultimately show ?thesis by (simp add: lot_ok_def)
qed

subsection \<open>The loop over a plan\<close>

lemma find_lot_Some: "find_lot i lots = Some l \<Longrightarrow> lot_id l = i \<and> l \<in> set lots"
  by (auto simp: find_lot_def find_Some_iff)

lemma find_update_other:
  "lot_id l' = i \<Longrightarrow> j \<noteq> i \<Longrightarrow> find_lot j (update_first (\<lambda>x. lot_id x = i) l' lots) = find_lot j lots"
  by (induction lots) (auto simp: find_lot_def)

lemma find_update_same:
  "lot_id l' = i \<Longrightarrow> find_lot i lots = Some l \<Longrightarrow> find_lot i (update_first (\<lambda>x. lot_id x = i) l' lots) = Some l'"
  by (induction lots) (auto simp: find_lot_def split: if_splits)

lemma sum_update:
  "find_lot i lots = Some l \<Longrightarrow>
     (\<Sum>x \<leftarrow> update_first (\<lambda>x. lot_id x = i) l' lots. f x) = (\<Sum>x \<leftarrow> lots. f x) - f l + (f l' :: int)"
  by (induction lots) (auto simp: find_lot_def split: if_splits)

lemma set_update: "set (update_first P y xs) \<subseteq> insert y (set xs)"
  by (induction xs) auto

lemma map_update:
  "find_lot i lots = Some l \<Longrightarrow> f l' = f l \<Longrightarrow> map f (update_first (\<lambda>x. lot_id x = i) l' lots) = map f lots"
  by (induction lots) (auto simp: find_lot_def split: if_splits)

definition entry_ok :: "lot list \<Rightarrow> lot_id \<times> int \<Rightarrow> bool" where
  "entry_ok lots p \<longleftrightarrow> (\<exists>l. find_lot (fst p) lots = Some l \<and> lot_ok l \<and> 0 < snd p \<and> snd p \<le> lot_atoms l)"

definition valid_plan :: "lot list \<Rightarrow> (lot_id \<times> int) list \<Rightarrow> bool" where
  "valid_plan lots plan \<longleftrightarrow> distinct (map fst plan) \<and> (\<forall>p \<in> set plan. entry_ok lots p)"

definition lot_of :: "lot list \<Rightarrow> lot_id \<Rightarrow> lot" where
  "lot_of lots i = (case find_lot i lots of None \<Rightarrow> undefined | Some l \<Rightarrow> l)"

lemma valid_plan_step:
  assumes "valid_plan lots ((i, t) # plan)" and "find_lot i lots = Some l" and "lot_id l' = i"
  shows "valid_plan (update_first (\<lambda>x. lot_id x = i) l' lots) plan"
    and "\<forall>p \<in> set plan. find_lot (fst p) (update_first (\<lambda>x. lot_id x = i) l' lots) = find_lot (fst p) lots"
proof -
  show same: "\<forall>p \<in> set plan. find_lot (fst p) (update_first (\<lambda>x. lot_id x = i) l' lots) = find_lot (fst p) lots"
    using assms(1) by (auto simp: valid_plan_def image_iff intro!: find_update_other [OF assms(3)])
  show "valid_plan (update_first (\<lambda>x. lot_id x = i) l' lots) plan"
    using assms(1) same by (auto simp: valid_plan_def entry_ok_def)
qed

text \<open>
  On a valid plan the loop succeeds exactly when no product overflows, and each relief is the
  pro-rata share of the lot as the plan found it.
\<close>

lemma relief_loop_eq:
  assumes "valid_plan lots plan"
  shows "is_ok (fst (relief_loop plan lots)) \<longleftrightarrow> (\<forall>(i, t) \<in> set plan. relief_fits t (lot_of lots i))"
    and "fst (relief_loop plan lots) = Inr rs \<Longrightarrow> rs = map (\<lambda>(i, t). relief_of t (lot_of lots i)) plan"
proof -
  have "(is_ok (fst (relief_loop plan lots)) \<longleftrightarrow> (\<forall>(i, t) \<in> set plan. relief_fits t (lot_of lots i))) \<and>
    (\<forall>rs. fst (relief_loop plan lots) = Inr rs \<longrightarrow> rs = map (\<lambda>(i, t). relief_of t (lot_of lots i)) plan)"
    using assms
  proof (induction plan arbitrary: lots)
    case (Cons p plan)
    obtain i t where p: "p = (i, t)" by (cases p)
    obtain l where l: "find_lot i lots = Some l" "lot_ok l" "0 < t" "t \<le> lot_atoms l" "lot_of lots i = l"
      using Cons.prems by (auto simp: valid_plan_def entry_ok_def p lot_of_def)
    let ?lots = "update_first (\<lambda>x. lot_id x = i) (remainder t l) lots"
    have idl: "lot_id (remainder t l) = i" using find_lot_Some [OF l(1)] by simp
    note step = valid_plan_step [OF Cons.prems [unfolded p] l(1) idl]
    have same: "lot_of ?lots (fst q) = lot_of lots (fst q)" if "q \<in> set plan" for q
      using step(2) that by (simp add: lot_of_def)
    note IH = Cons.IH [OF step(1)]
    show ?case
    proof (cases "relief_fits t l")
      case True
      have loop: "relief_loop (p # plan) lots = (case relief_loop plan ?lots of
          (Inl e, lots') \<Rightarrow> (Inl e, lots') | (Inr rs, lots') \<Rightarrow> (Inr (relief_of t l # rs), lots'))"
        using True by (simp add: p l relieve_lot_eq [OF l(2-4)])
      have m: "map (\<lambda>(i, t). relief_of t (lot_of ?lots i)) plan = map (\<lambda>(i, t). relief_of t (lot_of lots i)) plan"
        using same by (auto simp: case_prod_beta)
      have b: "(\<forall>(i, t) \<in> set plan. relief_fits t (lot_of ?lots i)) \<longleftrightarrow>
          (\<forall>(i, t) \<in> set plan. relief_fits t (lot_of lots i))"
        using same by (auto simp: case_prod_beta)
      show ?thesis using IH True unfolding loop m b
        by (auto simp: p l(5) split: prod.splits sum.splits)
    qed (simp add: p l relieve_lot_eq [OF l(2-4)])
  qed simp
  then show "is_ok (fst (relief_loop plan lots)) \<longleftrightarrow> (\<forall>(i, t) \<in> set plan. relief_fits t (lot_of lots i))"
    and "fst (relief_loop plan lots) = Inr rs \<Longrightarrow> rs = map (\<lambda>(i, t). relief_of t (lot_of lots i)) plan"
    by blast+
qed

subsection \<open>Conservation along the loop\<close>

lemma relief_loop_Cons_Inr:
  assumes "relief_loop ((i, t) # plan) lots = (Inr rs, lots')" and "entry_ok lots (i, t)"
  shows "\<exists>l rs'. find_lot i lots = Some l \<and> lot_ok l \<and> 0 < t \<and> t \<le> lot_atoms l \<and> lot_id l = i \<and> lot_of lots i = l \<and>
    rs = relief_of t l # rs' \<and>
    relief_loop plan (update_first (\<lambda>x. lot_id x = i) (remainder t l) lots) = (Inr rs', lots')"
proof -
  obtain l where l: "find_lot i lots = Some l" "lot_ok l" "0 < t" "t \<le> lot_atoms l"
    using assms(2) by (auto simp: entry_ok_def)
  with assms(1) find_lot_Some [OF l(1)] show ?thesis
    by (auto simp: relieve_lot_eq [OF l(2-4)] lot_of_def split: if_splits prod.splits sum.splits)
qed

lemma plan_cong:
  "\<forall>p \<in> set plan. find_lot (fst p) lots1 = find_lot (fst p) lots \<Longrightarrow>
     map (\<lambda>(i, t). h t (lot_of lots1 i)) plan = map (\<lambda>(i, t). h t (lot_of lots i)) plan"
  by (auto simp: lot_of_def)

lemma relief_loop_sum:
  fixes f :: "lot \<Rightarrow> int"
  assumes "\<And>l t. lot_ok l \<Longrightarrow> f (remainder t l) = f l - g t l"
    and "valid_plan lots plan" and "relief_loop plan lots = (Inr rs, lots')"
  shows "(\<Sum>l \<leftarrow> lots'. f l) = (\<Sum>l \<leftarrow> lots. f l) - (\<Sum>(i, t) \<leftarrow> plan. g t (lot_of lots i))"
  using assms(2,3)
proof (induction plan arbitrary: lots rs)
  case (Cons p plan)
  obtain i t where p: "p = (i, t)" by (cases p)
  have "entry_ok lots (i, t)" using Cons.prems(1) by (simp add: valid_plan_def p)
  from relief_loop_Cons_Inr [OF Cons.prems(2) [unfolded p] this]
  obtain l rs' where l: "find_lot i lots = Some l" "lot_ok l" "lot_id l = i" "lot_of lots i = l"
    and loop: "relief_loop plan (update_first (\<lambda>x. lot_id x = i) (remainder t l) lots) = (Inr rs', lots')"
    by blast
  have idl: "lot_id (remainder t l) = i" using l(3) by simp
  note step = valid_plan_step [OF Cons.prems(1) [unfolded p] l(1) idl]
  show ?case
    using Cons.IH [OF step(1) loop] sum_update [OF l(1), of f "remainder t l"] assms(1) [OF l(2), of t]
    by (simp add: p l(4) plan_cong [OF step(2)])
qed simp

definition weakly_ok :: "lot \<Rightarrow> bool" where
  "weakly_ok l \<longleftrightarrow> lot_ok l \<or> lot_emptied l"

lemma relief_loop_lots:
  assumes "valid_plan lots plan" and "relief_loop plan lots = (Inr rs, lots')"
    and "\<forall>l \<in> set lots. weakly_ok l \<and> lot_tenant l = tenant"
  shows "(\<forall>l \<in> set lots'. weakly_ok l \<and> lot_tenant l = tenant) \<and> map lot_id lots' = map lot_id lots"
  using assms
proof (induction plan arbitrary: lots rs)
  case (Cons p plan)
  obtain i t where p: "p = (i, t)" by (cases p)
  have "entry_ok lots (i, t)" using Cons.prems(1) by (simp add: valid_plan_def p)
  from relief_loop_Cons_Inr [OF Cons.prems(2) [unfolded p] this]
  obtain l rs' where l: "find_lot i lots = Some l" "lot_ok l" "0 < t" "t \<le> lot_atoms l" "lot_id l = i"
    and loop: "relief_loop plan (update_first (\<lambda>x. lot_id x = i) (remainder t l) lots) = (Inr rs', lots')"
    by blast
  have idl: "lot_id (remainder t l) = i" using l(5) by simp
  have "\<forall>x \<in> set (update_first (\<lambda>x. lot_id x = i) (remainder t l) lots). weakly_ok x \<and> lot_tenant x = tenant"
    using set_update [of "\<lambda>x. lot_id x = i" "remainder t l" lots] Cons.prems(3) find_lot_Some [OF l(1)]
      remainder_ok [OF l(2-4)] by (auto simp: weakly_ok_def)
  from Cons.IH [OF valid_plan_step(1) [OF Cons.prems(1) [unfolded p] l(1) idl] loop this]
  show ?case using map_update [OF l(1), of lot_id "remainder t l"] by simp
qed simp

text \<open>Dropping emptied lots changes no total.\<close>

lemma sum_filter_emptied:
  "\<forall>l \<in> set lots. weakly_ok l \<Longrightarrow> (\<And>l. lot_emptied l \<Longrightarrow> f l = (0 :: int)) \<Longrightarrow>
     (\<Sum>l \<leftarrow> filter (\<lambda>l. 0 < lot_atoms l) lots. f l) = (\<Sum>l \<leftarrow> lots. f l)"
  by (induction lots) (auto simp: weakly_ok_def lot_ok_def lot_emptied_def)

lemma apply_relief_Inr:
  assumes "apply_relief plan b = (Inr rs, b')" and "valid_plan (lb_lots b) plan" and "lb_ok b"
  shows "lb_ok b' \<and> (lb_distinct b \<longrightarrow> lb_distinct b') \<and> lb_tenant b' = lb_tenant b \<and>
    rs = map (\<lambda>(i, t). relief_of t (lot_of (lb_lots b) i)) plan \<and>
    atoms_at asset venue (lb_lots b') = atoms_at asset venue (lb_lots b) -
      (\<Sum>(i, t) \<leftarrow> plan. if at_position asset venue (lot_of (lb_lots b) i) then t else 0) \<and>
    basis_in c (lb_lots b') = basis_in c (lb_lots b) - amounts_in c (map lr_basis_relieved rs) \<and>
    fee_in c (lb_lots b') = fee_in c (lb_lots b) - amounts_in c (map lr_fee_relieved rs)"
proof -
  obtain lots' where loop: "relief_loop plan (lb_lots b) = (Inr rs, lots')"
    and b': "b' = b\<lparr>lb_lots := filter (\<lambda>l. 0 < lot_atoms l) lots'\<rparr>"
    using assms(1) by (auto simp: apply_relief_def split: prod.splits sum.splits)
  have "\<forall>l \<in> set (lb_lots b). weakly_ok l \<and> lot_tenant l = lb_tenant b"
    using assms(3) by (simp add: lb_ok_def weakly_ok_def)
  note lots = relief_loop_lots [OF assms(2) loop this]
  have rs: "rs = map (\<lambda>(i, t). relief_of t (lot_of (lb_lots b) i)) plan"
    by (rule relief_loop_eq(2) [OF assms(2)]) (simp add: loop)
  have keep: "(\<Sum>l \<leftarrow> lb_lots b'. f l) = (\<Sum>l \<leftarrow> lb_lots b. f l) - (\<Sum>(i, t) \<leftarrow> plan. g t (lot_of (lb_lots b) i))"
    if "\<And>l t. lot_ok l \<Longrightarrow> f (remainder t l) = f l - g t l" "\<And>l. lot_emptied l \<Longrightarrow> f l = (0 :: int)" for f g
    using relief_loop_sum [OF that(1) assms(2) loop] sum_filter_emptied [of lots' f] that(2) lots
    by (simp add: b')
  have "atoms_at asset venue (lb_lots b') = atoms_at asset venue (lb_lots b) -
      (\<Sum>(i, t) \<leftarrow> plan. if at_position asset venue (lot_of (lb_lots b) i) then t else 0)"
    unfolding atoms_at_def
    by (rule keep [where g = "\<lambda>t l. if at_position asset venue l then t else 0"])
      (simp_all add: at_position_def lot_emptied_def)
  moreover have "basis_in c (lb_lots b') = basis_in c (lb_lots b) - amounts_in c (map lr_basis_relieved rs)"
    unfolding basis_in_def
    by (subst keep [where g = "\<lambda>t l. if amt_asset (lot_cost_basis l) = c then lot_part t (amt_atoms (lot_cost_basis l)) l else 0"])
      (simp_all add: lot_emptied_def amounts_in_def rs relief_of_def comp_def split_def cong: if_cong)
  moreover have "fee_in c (lb_lots b') = fee_in c (lb_lots b) - amounts_in c (map lr_fee_relieved rs)"
    unfolding fee_in_def
    by (subst keep [where g = "\<lambda>t l. if amt_asset (lot_cost_basis l) = c then lot_part t (amt_atoms (lot_acquisition_fee l)) l else 0"])
      (simp_all add: lot_ok_def lot_money_ok_def lot_emptied_def amounts_in_def rs relief_of_def comp_def split_def cong: if_cong)
  moreover have "lb_ok b'"
    using lots by (auto simp: lb_ok_def b' weakly_ok_def lot_emptied_def)
  moreover have "lb_distinct b \<longrightarrow> lb_distinct b'"
    using lots by (auto simp: lb_distinct_def b' intro: distinct_map_filter)
  ultimately show ?thesis using rs by (simp add: b')
qed

subsection \<open>Plans\<close>

text \<open>A plan takes lots in order, each entirely except perhaps the last.\<close>

fun drains :: "lot list \<Rightarrow> (lot_id \<times> int) list \<Rightarrow> bool" where
  "drains ls [] = True"
| "drains [] (p # ps) = False"
| "drains (l # ls) ((i, t) # ps) =
     (i = lot_id l \<and> 0 < t \<and> t \<le> lot_atoms l \<and> (ps = [] \<or> t = lot_atoms l) \<and> drains ls ps)"

lemma atoms_nonneg: "\<forall>l \<in> set ls. 0 < lot_atoms l \<Longrightarrow> 0 \<le> (\<Sum>l \<leftarrow> ls. lot_atoms l)"
  by (induction ls) auto

lemma take_plan_ok:
  assumes "0 \<le> n" and "in_i128 n" and "\<forall>l \<in> set ls. 0 < lot_atoms l"
  shows "\<exists>plan. take_plan n ls = Inr plan \<and> drains ls plan \<and>
    (\<Sum>(i, t) \<leftarrow> plan. t) = min n (\<Sum>l \<leftarrow> ls. lot_atoms l)"
  using assms
proof (induction ls arbitrary: n)
  case (Cons l ls)
  show ?case
  proof (cases "n = 0")
    case True
    moreover have "0 \<le> (\<Sum>l \<leftarrow> ls. lot_atoms l)" "0 < lot_atoms l"
      using Cons.prems(3) atoms_nonneg [of ls] by simp_all
    ultimately show ?thesis by simp
  next
    case False
    let ?t = "min n (lot_atoms l)"
    have r: "0 \<le> n - ?t" "in_i128 (n - ?t)"
      using Cons.prems by (auto simp: min_def intro: in_i128_between [OF Cons.prems(2)] simp: in_i128_def)
    obtain plan where plan: "take_plan (n - ?t) ls = Inr plan" "drains ls plan"
      "(\<Sum>(i, t) \<leftarrow> plan. t) = min (n - ?t) (\<Sum>l \<leftarrow> ls. lot_atoms l)"
      using Cons.IH [OF r] Cons.prems(3) by auto
    have nonneg: "0 \<le> (\<Sum>l \<leftarrow> ls. lot_atoms l)"
      using Cons.prems(3) by (simp add: atoms_nonneg)
    have "plan = [] \<or> ?t = lot_atoms l"
    proof (cases "n \<le> lot_atoms l")
      case True
      then have "take_plan (n - ?t) ls = Inr []" by (cases ls) simp_all
      then show ?thesis using plan(1) by simp
    qed (simp add: min_def)
    with plan r False Cons.prems nonneg show ?thesis
      by (auto simp: i128_sub_def i128_opt_def Let_def min_def)
  qed
qed simp

definition from_book :: "lot list \<Rightarrow> lot list \<Rightarrow> bool" where
  "from_book lots ls \<longleftrightarrow> (\<forall>l \<in> set ls. find_lot (lot_id l) lots = Some l)"

lemma find_lot_distinct:
  "distinct (map lot_id lots) \<Longrightarrow> l \<in> set lots \<Longrightarrow> find_lot (lot_id l) lots = Some l"
  by (induction lots) (auto simp: find_lot_def)

lemma specific_candidates_Inr:
  "specific_candidates asset venue lots ids = Inr ls \<Longrightarrow>
     map lot_id ls = ids \<and> from_book lots ls \<and> list_all (at_position asset venue) ls"
proof (induction ids arbitrary: ls)
  case (Cons i ids)
  then obtain l ls' where "find_lot i lots = Some l" "at_position asset venue l" "ls = l # ls'"
    "specific_candidates asset venue lots ids = Inr ls'"
    by (auto simp: result_simps split: if_splits)
  with Cons.IH [of ls'] find_lot_Some [of i lots l] show ?case by (simp add: from_book_def)
qed (simp add: from_book_def)

lemma candidates_Inr:
  assumes "candidates asset venue m lots = Inr ls" and "distinct (map lot_id lots)"
  shows "from_book lots ls \<and> list_all (at_position asset venue) ls"
  using assms specific_candidates_Inr [of asset venue lots _ ls] find_lot_distinct [of lots]
  by (auto simp: candidates_def from_book_def list_all_iff split: relief_method.splits)

lemma from_book_in: "from_book lots ls \<Longrightarrow> l \<in> set ls \<Longrightarrow> l \<in> set lots"
  by (auto simp: from_book_def dest: find_lot_Some)

lemma drains_entries:
  assumes "drains ls plan" and "from_book lots ls" and "\<forall>l \<in> set lots. lot_ok l"
  shows "(\<forall>p \<in> set plan. entry_ok lots p) \<and> (\<forall>p \<in> set plan. lot_of lots (fst p) \<in> set ls)"
  using assms(1,2)
proof (induction ls plan rule: drains.induct)
  case (3 l ls i t ps)
  then have "find_lot i lots = Some l" by (simp add: from_book_def)
  moreover have "lot_ok l" using assms(3) find_lot_Some calculation by blast
  ultimately have "entry_ok lots (i, t)" "lot_of lots i = l"
    using 3 by (auto simp: entry_ok_def lot_of_def)
  with 3 show ?case by (auto simp: from_book_def)
qed simp_all

subsection \<open>A lot is never relieved twice\<close>

lemma relieve_lot_id: "relieve_lot t l = (r, l') \<Longrightarrow> lot_id l' = lot_id l"
  by (auto simp: relieve_lot_def Let_def split: sum.splits option.splits)

lemma emptied_not_relieved:
  assumes "find_lot i lots = Some l" and "lot_atoms l = 0" and "relief_loop plan lots = (Inr rs, lots')"
  shows "i \<notin> fst ` set plan"
  using assms
proof (induction plan arbitrary: lots rs)
  case (Cons p plan)
  obtain j t where p: "p = (j, t)" by (cases p)
  obtain k r k' rs' where k: "find_lot j lots = Some k" "relieve_lot t k = (Inr r, k')"
    and loop: "relief_loop plan (update_first (\<lambda>x. lot_id x = j) k' lots) = (Inr rs', lots')"
    using Cons.prems(3) by (auto simp: p split: option.splits prod.splits sum.splits)
  have "i \<noteq> j" using k Cons.prems(1,2) relieve_lot_emptied [of l t] by auto
  moreover have "find_lot i (update_first (\<lambda>x. lot_id x = j) k' lots) = Some l"
    using find_update_other [of k' j i lots] \<open>i \<noteq> j\<close> relieve_lot_id [OF k(2)] find_lot_Some [OF k(1)] Cons.prems(1)
    by simp
  ultimately show ?case using Cons.IH [OF _ Cons.prems(2) loop] by (simp add: p)
qed simp

fun draining :: "lot list \<Rightarrow> (lot_id \<times> int) list \<Rightarrow> bool" where
  "draining lots [] = True"
| "draining lots ((i, t) # ps) =
     (entry_ok lots (i, t) \<and> (ps = [] \<or> t = lot_atoms (lot_of lots i)) \<and> draining lots ps)"

lemma drains_draining:
  "drains ls plan \<Longrightarrow> from_book lots ls \<Longrightarrow> \<forall>l \<in> set lots. lot_ok l \<Longrightarrow> draining lots plan"
proof (induction ls plan rule: drains.induct)
  case (3 l ls i t ps)
  then have f: "find_lot i lots = Some l" by (simp add: from_book_def)
  moreover have "lot_ok l" using 3(4) find_lot_Some [OF f] by blast
  ultimately show ?case using 3 by (auto simp: entry_ok_def lot_of_def from_book_def)
qed simp_all

lemma draining_cong:
  "\<forall>p \<in> set plan. find_lot (fst p) lots1 = find_lot (fst p) lots \<Longrightarrow> draining lots plan \<Longrightarrow> draining lots1 plan"
  by (induction lots plan rule: draining.induct) (auto simp: entry_ok_def lot_of_def)

lemma draining_distinct:
  assumes "draining lots plan" and "relief_loop plan lots = (Inr rs, lots')"
  shows "distinct (map fst plan)"
  using assms
proof (induction plan arbitrary: lots rs)
  case (Cons p plan)
  obtain i t where p: "p = (i, t)" by (cases p)
  have "entry_ok lots (i, t)" using Cons.prems(1) by (simp add: p)
  from relief_loop_Cons_Inr [OF Cons.prems(2) [unfolded p] this]
  obtain l rs' where l: "find_lot i lots = Some l" "lot_id l = i" "lot_of lots i = l"
    and loop: "relief_loop plan (update_first (\<lambda>x. lot_id x = i) (remainder t l) lots) = (Inr rs', lots')"
    by blast
  have idl: "lot_id (remainder t l) = i" using l(2) by simp
  show ?case
  proof (cases "plan = []")
    case False
    then have "lot_atoms (remainder t l) = 0" using Cons.prems(1) l(3) by (simp add: p)
    then have fresh: "i \<notin> fst ` set plan"
      by (rule emptied_not_relieved [OF find_update_same [OF idl l(1)] _ loop])
    have "draining (update_first (\<lambda>x. lot_id x = i) (remainder t l) lots) plan"
      by (rule draining_cong [of _ _ lots])
        (use fresh Cons.prems(1) in \<open>auto simp: p image_iff intro!: find_update_other [OF idl]\<close>)
    from Cons.IH [OF this loop] show ?thesis using fresh by (simp add: p)
  qed (simp add: p)
qed simp

subsection \<open>Disposals\<close>

lemma sum_available_eq:
  "0 \<le> a \<Longrightarrow> in_i128 a \<Longrightarrow> \<forall>l \<in> set ls. 0 < lot_atoms l \<Longrightarrow>
     sum_available a ls = (if in_i128 (a + (\<Sum>l \<leftarrow> ls. lot_atoms l))
       then Inr (a + (\<Sum>l \<leftarrow> ls. lot_atoms l)) else Inl LotOverflow)"
proof (induction ls arbitrary: a)
  case (Cons l ls)
  have pos: "0 < lot_atoms l" "0 \<le> (\<Sum>l \<leftarrow> ls. lot_atoms l)"
    using Cons.prems(3) atoms_nonneg [of ls] by simp_all
  show ?case
  proof (cases "in_i128 (a + lot_atoms l)")
    case True
    then show ?thesis using Cons.IH [of "a + lot_atoms l"] Cons.prems pos
      by (simp add: i128_add_def i128_opt_def add.assoc)
  next
    case False
    then have "\<not> in_i128 (a + (lot_atoms l + (\<Sum>l \<leftarrow> ls. lot_atoms l)))"
      using Cons.prems pos by (auto simp: in_i128_def)
    with False show ?thesis by (simp add: i128_add_def i128_opt_def)
  qed
qed (simp add: i128_opt_def)

lemma plan_relief_Inr:
  assumes "plan_relief asset venue atoms m b = Inr plan" and "lb_ok b" and "lb_distinct b"
  obtains ls where "candidates asset venue m (lb_lots b) = Inr ls" "from_book (lb_lots b) ls"
    "list_all (at_position asset venue) ls" "drains ls plan" "(\<Sum>(i, t) \<leftarrow> plan. t) = atoms" "0 < atoms"
proof -
  obtain ls available where ls: "candidates asset venue m (lb_lots b) = Inr ls" "sum_available 0 ls = Inr available"
    "atoms \<le> available" "take_plan atoms ls = Inr plan" "0 < atoms"
    using assms(1) by (auto simp: plan_relief_def result_simps split: if_splits)
  have c: "from_book (lb_lots b) ls" "list_all (at_position asset venue) ls"
    using candidates_Inr [OF ls(1)] assms(3) by (simp_all add: lb_distinct_def)
  have pos: "\<forall>l \<in> set ls. 0 < lot_atoms l"
    using from_book_in [OF c(1)] assms(2) by (auto simp: lb_ok_def lot_ok_def)
  have a: "available = (\<Sum>l \<leftarrow> ls. lot_atoms l)" "in_i128 available"
    using sum_available_eq [OF _ _ pos, of 0] ls(2) by (auto simp: in_i128_def split: if_splits)
  have "in_i128 atoms" by (rule in_i128_between [OF a(2)]) (use ls in simp_all)
  from take_plan_ok [OF _ this pos] ls(3-5) a(1)
  have "drains ls plan" "(\<Sum>(i, t) \<leftarrow> plan. t) = atoms" by auto
  with ls(1,5) c show thesis by (intro that)
qed

lemma check_currency_Inr:
  "check_currency c lots plan = Inr c' \<longleftrightarrow>
     c' = c \<and> (\<forall>p \<in> set plan. \<exists>l. find_lot (fst p) lots = Some l \<and> amt_asset (lot_cost_basis l) = c)"
  by (induction c lots plan rule: check_currency.induct) (auto simp: result_simps split: if_splits)

lemma basis_currency_Inr:
  "basis_currency plan lots = Inr c \<Longrightarrow>
     plan \<noteq> [] \<and> (\<forall>p \<in> set plan. \<exists>l. find_lot (fst p) lots = Some l \<and> amt_asset (lot_cost_basis l) = c)"
  unfolding basis_currency_def
  by (cases plan) (auto simp del: check_currency.simps simp: result_simps check_currency_Inr dest!: bspec)

lemma sum_basis_Inr:
  "sum_basis a rs = Inr total_basis \<Longrightarrow>
     amt_asset total_basis = amt_asset a \<and> (\<forall>r \<in> set rs. amt_asset (lr_basis_relieved r) = amt_asset a) \<and>
     amt_atoms total_basis = amt_atoms a + (\<Sum>r \<leftarrow> rs. amt_atoms (lr_basis_relieved r))"
  by (induction rs arbitrary: a) (auto simp: result_simps)

lemma amounts_in_same:
  "\<forall>a \<in> set as. amt_asset a = c \<Longrightarrow> amounts_in c' as = (if c' = c then (\<Sum>a \<leftarrow> as. amt_atoms a) else 0)"
  by (induction as) (auto simp: amounts_in_def)

lemma dispose_Inr:
  assumes "dispose asset venue atoms m policy proceeds b = (Inr r, b')"
  obtains plan currency where "plan_relief asset venue atoms m b = Inr plan"
    "basis_currency plan (lb_lots b) = Inr currency" "amt_asset proceeds = currency"
    "apply_relief plan b = (Inr (dr_reliefs r), b')"
    "sum_basis (amount_new currency 0) (dr_reliefs r) = Inr (dr_total_basis_relieved r)"
    "checked_sub proceeds (dr_total_basis_relieved r) = Inr (dr_realized r)"
    "dr_method r = m" "dr_policy_hash r = policy" "dr_proceeds r = proceeds"
proof -
  obtain plan currency where a: "plan_relief asset venue atoms m b = Inr plan"
    "basis_currency plan (lb_lots b) = Inr currency" "amt_asset proceeds = currency"
    and c: "(case apply_relief plan b of
             (Inl e, b') \<Rightarrow> (Inl e, b')
           | (Inr reliefs, b') \<Rightarrow>
               (and_then (sum_basis (amount_new currency 0) reliefs) (\<lambda>total_basis.
                  and_then (map_err LotAmount (checked_sub proceeds total_basis)) (\<lambda>realized.
                    Inr \<lparr>dr_method = m, dr_policy_hash = policy, dr_reliefs = reliefs,
                         dr_total_basis_relieved = total_basis, dr_proceeds = proceeds,
                         dr_realized = realized\<rparr>)), b')) = (Inr r, b')"
    using assms by (auto simp: dispose_def and_then_Inr split: sum.splits if_splits)
  then show thesis
    by (intro that [OF a])
      (auto simp: and_then_Inr map_err_Inr split: prod.splits sum.splits)
qed

lemma plan_at_position:
  assumes "drains ls plan" and "from_book lots ls" and "list_all (at_position asset venue) ls"
    and "\<forall>l \<in> set lots. lot_ok l"
  shows "(\<Sum>(i, t) \<leftarrow> plan. if at_position a v (lot_of lots i) then t else 0) =
    (if a = asset \<and> v = venue then (\<Sum>(i, t) \<leftarrow> plan. t) else 0)"
proof -
  have "at_position asset venue (lot_of lots (fst p))" if "p \<in> set plan" for p
    using drains_entries [OF assms(1,2,4)] that assms(3) by (auto simp: list_all_iff)
  then have "map (\<lambda>(i, t). if at_position a v (lot_of lots i) then t else 0) plan =
      map (\<lambda>(i, t). if a = asset \<and> v = venue then t else 0) plan"
    by (fastforce simp: at_position_def)
  then have "(\<Sum>(i, t) \<leftarrow> plan. if at_position a v (lot_of lots i) then t else 0) =
      (\<Sum>(i, t) \<leftarrow> plan. if a = asset \<and> v = venue then t else 0)"
    by (rule arg_cong)
  also have "\<dots> = (if a = asset \<and> v = venue then (\<Sum>(i, t) \<leftarrow> plan. t) else 0)"
    by (cases "a = asset \<and> v = venue") (auto simp: split_def)
  finally show ?thesis .
qed

lemma successful_plan_valid:
  assumes "apply_relief plan b = (Inr rs, b')" and "drains ls plan" and "from_book (lb_lots b) ls" and "lb_ok b"
  shows "valid_plan (lb_lots b) plan"
proof -
  obtain lots' where loop: "relief_loop plan (lb_lots b) = (Inr rs, lots')"
    using assms(1) by (auto simp: apply_relief_def split: prod.splits sum.splits)
  have ok: "\<forall>l \<in> set (lb_lots b). lot_ok l" using assms(4) by (simp add: lb_ok_def)
  show ?thesis
    using draining_distinct [OF drains_draining [OF assms(2,3) ok] loop] drains_entries [OF assms(2,3) ok]
    by (simp add: valid_plan_def)
qed

lemma dispose_conserves:
  assumes "lb_ok b" and "lb_distinct b" and "dispose asset venue atoms m policy proceeds b = (Inr r, b')"
  shows "lb_ok b' \<and> lb_distinct b' \<and>
    atoms_at a v (lb_lots b') = atoms_at a v (lb_lots b) - (if a = asset \<and> v = venue then atoms else 0) \<and>
    basis_in c (lb_lots b') = basis_in c (lb_lots b) -
      (if c = amt_asset proceeds then amt_atoms (dr_total_basis_relieved r) else 0) \<and>
    fee_in c (lb_lots b') = fee_in c (lb_lots b) - amounts_in c (map lr_fee_relieved (dr_reliefs r)) \<and>
    amt_asset (dr_realized r) = amt_asset proceeds \<and>
    amt_atoms (dr_realized r) = amt_atoms proceeds - amt_atoms (dr_total_basis_relieved r) \<and>
    (\<Sum>x \<leftarrow> dr_reliefs r. lr_atoms x) = atoms"
proof -
  from assms(3) obtain plan currency where d: "plan_relief asset venue atoms m b = Inr plan"
    "amt_asset proceeds = currency" "apply_relief plan b = (Inr (dr_reliefs r), b')"
    "sum_basis (amount_new currency 0) (dr_reliefs r) = Inr (dr_total_basis_relieved r)"
    "checked_sub proceeds (dr_total_basis_relieved r) = Inr (dr_realized r)" by (rule dispose_Inr)
  from plan_relief_Inr [OF d(1) assms(1,2)] obtain ls where ls: "from_book (lb_lots b) ls"
    "list_all (at_position asset venue) ls" "drains ls plan" "(\<Sum>(i, t) \<leftarrow> plan. t) = atoms" by metis
  have ok: "\<forall>l \<in> set (lb_lots b). lot_ok l" using assms(1) by (simp add: lb_ok_def)
  note valid = successful_plan_valid [OF d(3) ls(3,1) assms(1)]
  note result = apply_relief_Inr [OF d(3) valid assms(1), of a v c]
  note total_basis = sum_basis_Inr [OF d(4)]
  have "amounts_in c (map lr_basis_relieved (dr_reliefs r)) =
      (if c = currency then amt_atoms (dr_total_basis_relieved r) else 0)"
    using total_basis amounts_in_same [of "map lr_basis_relieved (dr_reliefs r)" currency c] by (simp add: comp_def)
  moreover have "(\<Sum>x \<leftarrow> dr_reliefs r. lr_atoms x) = atoms"
    using result ls(4) by (simp add: relief_of_def comp_def split_def)
  ultimately show ?thesis
    using result plan_at_position [OF ls(3,1,2) ok, of a v] ls(4) assms(2) d(2,5)
    by (simp add: checked_sub_Inr)
qed

text \<open>Under FIFO the lots are relieved in the order of acquisition, each but the last entirely.\<close>

lemma dispose_fifo_order:
  assumes "lb_ok b" and "lb_distinct b" and "dispose asset venue atoms Fifo policy proceeds b = (Inr r, b')"
  shows "\<exists>n. map lr_lot_id (dr_reliefs r) =
      map lot_id (take n (sort_key lot_key (filter (at_position asset venue) (lb_lots b)))) \<and>
    (\<forall>k. Suc k < n \<longrightarrow> lr_atoms (dr_reliefs r ! k) =
      lot_atoms (sort_key lot_key (filter (at_position asset venue) (lb_lots b)) ! k))"
proof -
  have drained: "map fst plan = map lot_id (take (length plan) ls) \<and> length plan \<le> length ls \<and>
      (\<forall>k. Suc k < length plan \<longrightarrow> snd (plan ! k) = lot_atoms (ls ! k))" if "drains ls plan" for ls plan
    using that by (induction ls plan rule: drains.induct) (auto simp: less_Suc_eq_0_disj nth_Cons')
  from assms(3) obtain plan currency where d: "plan_relief asset venue atoms Fifo b = Inr plan"
    "apply_relief plan b = (Inr (dr_reliefs r), b')" by (rule dispose_Inr)
  from plan_relief_Inr [OF d(1) assms(1,2)] obtain ls
    where ls: "ls = sort_key lot_key (filter (at_position asset venue) (lb_lots b))"
    "from_book (lb_lots b) ls" "drains ls plan" by (metis candidates_def relief_method.case(1) sum.inject(2))
  note valid = successful_plan_valid [OF d(2) ls(3,2) assms(1)]
  have reliefs: "dr_reliefs r = map (\<lambda>(i, t). relief_of t (lot_of (lb_lots b) i)) plan"
    using apply_relief_Inr [OF d(2) valid assms(1)] by blast
  have "lot_id (lot_of (lb_lots b) (fst p)) = fst p" if p: "p \<in> set plan" for p
  proof -
    obtain l where "find_lot (fst p) (lb_lots b) = Some l"
      using valid p by (auto simp: valid_plan_def entry_ok_def)
    with find_lot_Some [OF this] show ?thesis by (simp add: lot_of_def)
  qed
  then have "map lr_lot_id (dr_reliefs r) = map fst plan"
    by (auto simp: reliefs relief_of_def)
  moreover have "lr_atoms (dr_reliefs r ! k) = snd (plan ! k)" if "k < length plan" for k
    using that by (simp add: reliefs relief_of_def split_def)
  ultimately show ?thesis using drained [OF ls(3)] unfolding ls(1) by (intro exI [of _ "length plan"]) simp
qed

subsection \<open>When a disposal succeeds\<close>

text \<open>
  Enough quantity, one currency, and products that fit 128 bits: the conditions under which a
  FIFO disposal goes through.
\<close>

definition fifo_ready :: "asset_id \<Rightarrow> venue_id \<Rightarrow> int \<Rightarrow> asset_amount \<Rightarrow> lot_book \<Rightarrow> bool" where
  "fifo_ready asset venue atoms proceeds b \<longleftrightarrow>
     0 < atoms \<and> atoms \<le> atoms_at asset venue (lb_lots b) \<and> in_i128 (atoms_at asset venue (lb_lots b)) \<and>
     0 \<le> amt_atoms proceeds \<and> in_i128 (amt_atoms proceeds) \<and>
     in_i128 (basis_in (amt_asset proceeds) (lb_lots b)) \<and>
     (\<forall>l \<in> set (lb_lots b). at_position asset venue l \<longrightarrow>
        amt_asset (lot_cost_basis l) = amt_asset proceeds \<and> relief_fits (lot_atoms l) l)"

lemma in_i128_mult_le:
  assumes "0 \<le> m" and "0 < t" and "t \<le> a" and "in_i128 (m * a)"
  shows "in_i128 (m * t)"
proof (rule in_i128_between [OF assms(4)])
  show "0 \<le> m * t" using assms by simp
  show "m * t \<le> m * a" using assms by (simp add: mult_left_mono)
qed

lemma relief_fits_le:
  assumes "lot_ok l" and "relief_fits (lot_atoms l) l" and "0 < t" and "t \<le> lot_atoms l"
  shows "relief_fits t l"
  using assms in_i128_mult_le [of "amt_atoms (lot_cost_basis l)" t "lot_atoms l"]
    in_i128_mult_le [of "amt_atoms (lot_acquisition_fee l)" t "lot_atoms l"]
  by (simp add: relief_fits_def lot_ok_def lot_money_ok_def)

lemma drains_ids: "drains ls plan \<Longrightarrow> \<exists>n. map fst plan = map lot_id (take n ls)"
proof (induction ls plan rule: drains.induct)
  case (3 l ls i t ps)
  then obtain n where "map fst ps = map lot_id (take n ls)" by auto
  with 3 show ?case by (intro exI [of _ "Suc n"]) simp
qed (auto intro: exI [of _ 0])

lemma fifo_plan:
  assumes "lb_ok b" and "lb_distinct b" and "fifo_ready asset venue atoms proceeds b"
  obtains plan where "plan_relief asset venue atoms Fifo b = Inr plan" "valid_plan (lb_lots b) plan"
    "plan \<noteq> []" "\<forall>p \<in> set plan. at_position asset venue (lot_of (lb_lots b) (fst p))"
proof -
  let ?ls = "sort_key lot_key (filter (at_position asset venue) (lb_lots b))"
  have c: "candidates asset venue Fifo (lb_lots b) = Inr ?ls" by (simp add: candidates_def)
  have book: "from_book (lb_lots b) ?ls"
    using candidates_Inr [OF c] assms(2) by (simp add: lb_distinct_def)
  have ok: "\<forall>l \<in> set (lb_lots b). lot_ok l" using assms(1) by (simp add: lb_ok_def)
  then have pos: "\<forall>l \<in> set ?ls. 0 < lot_atoms l" by (simp add: lot_ok_def)
  have "mset (map lot_atoms ?ls) = mset (map lot_atoms (filter (at_position asset venue) (lb_lots b)))" by simp
  then have "sum_list (map lot_atoms ?ls) = sum_list (map lot_atoms (filter (at_position asset venue) (lb_lots b)))"
    by (metis sum_mset_sum_list)
  then have sum: "(\<Sum>l \<leftarrow> ?ls. lot_atoms l) = atoms_at asset venue (lb_lots b)"
    by (simp add: atoms_at_def sum_list_map_filter')
  have r: "0 < atoms" "atoms \<le> atoms_at asset venue (lb_lots b)" "in_i128 (atoms_at asset venue (lb_lots b))"
    using assms(3) by (simp_all add: fifo_ready_def)
  have "in_i128 atoms" by (rule in_i128_between [OF r(3)]) (use r in simp_all)
  then obtain plan where plan: "take_plan atoms ?ls = Inr plan" "drains ?ls plan" "(\<Sum>(i, t) \<leftarrow> plan. t) = atoms"
    using take_plan_ok [OF _ _ pos, of atoms] r sum by auto
  have "plan_relief asset venue atoms Fifo b = Inr plan"
    using r plan(1) sum_available_eq [OF _ _ pos, of 0]
    by (simp add: plan_relief_def c sum in_i128_def)
  moreover have "distinct (map fst plan)"
  proof -
    obtain n where "map fst plan = map lot_id (take n ?ls)" using drains_ids [OF plan(2)] by blast
    moreover have "distinct (map lot_id ?ls)"
      using assms(2) by (simp add: lb_distinct_def distinct_map inj_on_def distinct_map_filter)
    ultimately show ?thesis by (metis distinct_take take_map)
  qed
  ultimately show thesis
    using drains_entries [OF plan(2) book ok] r(1) plan(3)
    by (intro that [of plan]) (auto simp: valid_plan_def)
qed

lemma sum_basis_ok:
  "\<forall>r \<in> set rs. amt_asset (lr_basis_relieved r) = c \<and> 0 \<le> amt_atoms (lr_basis_relieved r) \<Longrightarrow> 0 \<le> n \<Longrightarrow>
     in_i128 (n + (\<Sum>r \<leftarrow> rs. amt_atoms (lr_basis_relieved r))) \<Longrightarrow>
     sum_basis (amount_new c n) rs = Inr (amount_new c (n + (\<Sum>r \<leftarrow> rs. amt_atoms (lr_basis_relieved r))))"
proof (induction rs arbitrary: n)
  case (Cons r rs)
  have "0 \<le> (\<Sum>r \<leftarrow> rs. amt_atoms (lr_basis_relieved r))"
    using Cons.prems(1) by (intro sum_list_nonneg) auto
  then have "in_i128 (n + amt_atoms (lr_basis_relieved r))"
    using Cons.prems by (intro in_i128_between [OF Cons.prems(3)]) auto
  then have "checked_add (amount_new c n) (lr_basis_relieved r) = Inr (amount_new c (n + amt_atoms (lr_basis_relieved r)))"
    using Cons.prems(1) by (simp add: checked_add_Inr)
  then show ?case using Cons.IH [of "n + amt_atoms (lr_basis_relieved r)"] Cons.prems by (simp add: add.assoc)
qed simp

lemma valid_plan_lot:
  assumes "valid_plan lots plan" and "p \<in> set plan"
  shows "find_lot (fst p) lots = Some (lot_of lots (fst p)) \<and> lot_ok (lot_of lots (fst p)) \<and>
    0 < snd p \<and> snd p \<le> lot_atoms (lot_of lots (fst p)) \<and> lot_of lots (fst p) \<in> set lots"
proof -
  obtain l where "find_lot (fst p) lots = Some l" "lot_ok l" "0 < snd p" "snd p \<le> lot_atoms l"
    using assms by (auto simp: valid_plan_def entry_ok_def)
  with find_lot_Some [OF this(1)] show ?thesis by (simp add: lot_of_def)
qed

lemma basis_in_nonneg: "lb_ok b \<Longrightarrow> 0 \<le> basis_in c (lb_lots b)"
  unfolding basis_in_def by (intro sum_list_nonneg) (auto simp: lb_ok_def lot_ok_def lot_money_ok_def)

lemma dispose_fifo_succeeds:
  assumes "lb_ok b" and "lb_distinct b" and "fifo_ready asset venue atoms proceeds b"
  shows "is_ok (fst (dispose asset venue atoms Fifo policy proceeds b))"
proof -
  let ?c = "amt_asset proceeds"
  obtain plan where plan: "plan_relief asset venue atoms Fifo b = Inr plan" "valid_plan (lb_lots b) plan"
    "plan \<noteq> []" "\<forall>p \<in> set plan. at_position asset venue (lot_of (lb_lots b) (fst p))"
    by (rule fifo_plan [OF assms])
  note lots = valid_plan_lot [OF plan(2)]
  have ready: "amt_asset (lot_cost_basis (lot_of (lb_lots b) (fst p))) = ?c"
    "relief_fits (lot_atoms (lot_of (lb_lots b) (fst p))) (lot_of (lb_lots b) (fst p))" if "p \<in> set plan" for p
    using assms(3) lots [OF that] plan(4) that by (auto simp: fifo_ready_def)
  have "basis_currency plan (lb_lots b) = Inr ?c"
  proof -
    obtain p ps where p: "plan = p # ps" using plan(3) by (cases plan) auto
    have "check_currency ?c (lb_lots b) plan = Inr ?c"
      unfolding check_currency_Inr using lots ready(1) by blast
    then show ?thesis using lots [of p] ready(1) [of p] unfolding basis_currency_def p by (cases p) simp
  qed
  moreover obtain rs b' where app: "apply_relief plan b = (Inr rs, b')"
  proof -
    have "is_ok (fst (relief_loop plan (lb_lots b)))"
      unfolding relief_loop_eq(1) [OF plan(2)] using lots ready(2) relief_fits_le by (fastforce simp: split_def)
    then show thesis
      by (cases "relief_loop plan (lb_lots b)"; cases "fst (relief_loop plan (lb_lots b))")
        (auto simp: apply_relief_def intro: that)
  qed
  moreover have "\<exists>t. sum_basis (amount_new ?c 0) rs = Inr t \<and> is_ok (checked_sub proceeds t)"
  proof -
    note result = apply_relief_Inr [OF app plan(2) assms(1), of asset venue ?c]
    have rs: "\<forall>r \<in> set rs. amt_asset (lr_basis_relieved r) = ?c \<and> 0 \<le> amt_atoms (lr_basis_relieved r)"
      using result lots ready(1) part_bounds(1)
      by (fastforce simp: relief_of_def lot_part_def lot_ok_def lot_money_ok_def split_def)
    let ?s = "\<Sum>r \<leftarrow> rs. amt_atoms (lr_basis_relieved r)"
    have "amounts_in ?c (map lr_basis_relieved rs) = ?s"
      using amounts_in_same [of "map lr_basis_relieved rs" ?c ?c] rs by (simp add: comp_def)
    then have "?s \<le> basis_in ?c (lb_lots b)"
      using result basis_in_nonneg [of b' ?c] by simp
    moreover have "0 \<le> ?s" using rs by (intro sum_list_nonneg) auto
    moreover have "in_i128 (basis_in ?c (lb_lots b))" "0 \<le> amt_atoms proceeds" "in_i128 (amt_atoms proceeds)"
      using assms(3) by (simp_all add: fifo_ready_def)
    ultimately have "in_i128 ?s" "in_i128 (amt_atoms proceeds - ?s)" by (auto simp: in_i128_def)
    moreover from this(1) have "sum_basis (amount_new ?c 0) rs = Inr (amount_new ?c ?s)"
      using sum_basis_ok [OF rs, of 0] by simp
    ultimately show ?thesis by (auto simp: is_ok_iff checked_sub_Inr)
  qed
  ultimately show ?thesis using plan(1) by (auto simp: dispose_def is_ok_iff)
qed

subsection \<open>Transfers\<close>

lemma plan_origins_Inr:
  "plan_origins lots plan = Inr os \<Longrightarrow>
     os = map (\<lambda>(i, t). (i, lot_acquired_at (lot_of lots i))) plan"
  by (induction lots plan arbitrary: os rule: plan_origins.induct) (auto simp: result_simps lot_of_def)

definition moved_ok :: "asset_id \<Rightarrow> venue_id \<Rightarrow> content_hash \<Rightarrow> (lot_id \<times> timestamp_ns) list \<Rightarrow> tenant_id
  \<Rightarrow> lot_relief \<Rightarrow> lot \<Rightarrow> bool" where
  "moved_ok asset to_venue ev origins tenant r l \<longleftrightarrow>
     lot_tenant l = tenant \<and> lot_asset l = asset \<and> lot_venue l = to_venue \<and> lot_atoms l = lr_atoms r \<and>
     lot_cost_basis l = lr_basis_relieved r \<and> lot_acquisition_fee l = lr_fee_relieved r \<and>
     lot_source_event l = ev \<and> lot_moved_from l = Some (lr_lot_id r) \<and>
     map_of origins (lr_lot_id r) = Some (lot_acquired_at l)"

lemma reopen_Inr:
  "reopen L asset to_venue ev origins rs b = (Inr ids, b') \<Longrightarrow>
     \<exists>new. lb_lots b' = lb_lots b @ new \<and> lb_tenant b' = lb_tenant b \<and> map lot_id new = ids \<and>
       list_all2 (moved_ok asset to_venue ev origins (lb_tenant b)) rs new"
proof (induction rs arbitrary: b ids)
  case (Cons r rs)
  then obtain t i b1 ids' where t: "map_of origins (lr_lot_id r) = Some t"
    and o: "open_lot L \<lparr>lot_id = hash_of_byte (CHR 0x00), lot_tenant = lb_tenant b, lot_asset = asset,
              lot_venue = to_venue, lot_atoms = lr_atoms r, lot_cost_basis = lr_basis_relieved r,
              lot_acquisition_fee = lr_fee_relieved r, lot_acquired_at = t,
              lot_source_event = ev, lot_moved_from = Some (lr_lot_id r)\<rparr> b = (Inr i, b1)"
    and rest: "reopen L asset to_venue ev origins rs b1 = (Inr ids', b')" "ids = i # ids'"
    by (auto split: option.splits prod.splits sum.splits)
  obtain l where l: "lb_lots b1 = lb_lots b @ [l]" "lb_tenant b1 = lb_tenant b" "lot_id l = i"
    "moved_ok asset to_venue ev origins (lb_tenant b) r l"
    using o t
    by (intro that [of "\<lparr>lot_id = i, lot_tenant = lb_tenant b, lot_asset = asset, lot_venue = to_venue,
          lot_atoms = lr_atoms r, lot_cost_basis = lr_basis_relieved r, lot_acquisition_fee = lr_fee_relieved r,
          lot_acquired_at = t, lot_source_event = ev, lot_moved_from = Some (lr_lot_id r)\<rparr>"])
      (auto simp: open_lot_def moved_ok_def split: sum.splits)
  from Cons.IH [OF rest(1)] l rest(2) show ?case by fastforce
qed simp

lemma list_all2_member: "list_all2 P xs ys \<Longrightarrow> y \<in> set ys \<Longrightarrow> \<exists>x \<in> set xs. P x y"
  by (induction rule: list_all2_induct) auto

lemma sum_moved:
  "list_all2 (moved_ok asset to_venue ev origins tenant) rs new \<Longrightarrow>
     atoms_at a v new = (if a = asset \<and> v = to_venue then (\<Sum>r \<leftarrow> rs. lr_atoms r) else 0) \<and>
     basis_in c new = amounts_in c (map lr_basis_relieved rs) \<and>
     fee_in c new = amounts_in c (map lr_fee_relieved rs)"
  by (induction rule: list_all2_induct)
    (auto simp: atoms_at_def basis_in_def fee_in_def amounts_in_def moved_ok_def at_position_def)

lemma totals_append:
  "atoms_at a v (xs @ ys) = atoms_at a v xs + atoms_at a v ys"
  "basis_in c (xs @ ys) = basis_in c xs + basis_in c ys" "fee_in c (xs @ ys) = fee_in c xs + fee_in c ys"
  by (simp_all add: atoms_at_def basis_in_def fee_in_def)

lemma relief_of_ok:
  assumes "lot_ok l" and "0 < t" and "t \<le> lot_atoms l" and "moved_ok asset to_venue ev origins tenant (relief_of t l) m"
  shows "lot_ok m"
proof -
  have m: "0 \<le> amt_atoms (lot_cost_basis l)" "in_i128 (amt_atoms (lot_cost_basis l))"
    "0 \<le> amt_atoms (lot_acquisition_fee l)" "in_i128 (amt_atoms (lot_acquisition_fee l))"
    "in_i128 (lot_atoms l)"
    using assms(1) by (simp_all add: lot_ok_def lot_money_ok_def)
  have "in_i128 t" by (rule in_i128_between [OF m(5)]) (use assms in simp_all)
  then show ?thesis
    using assms(2,4) part_bounds [OF m(1) assms(2,3)] part_bounds [OF m(3) assms(2,3)]
      in_i128_between [OF m(2)] in_i128_between [OF m(4)]
    by (simp add: moved_ok_def relief_of_def lot_part_def lot_ok_def lot_money_ok_def)
qed

lemma transfer_conserves:
  assumes "lb_ok b" and "lb_distinct b"
    and "transfer L asset from_venue to_venue atoms ev b = (Inr ids, b')"
  shows "lb_ok b' \<and>
    atoms_at a v (lb_lots b') = atoms_at a v (lb_lots b) - (if a = asset \<and> v = from_venue then atoms else 0)
      + (if a = asset \<and> v = to_venue then atoms else 0) \<and>
    basis_in c (lb_lots b') = basis_in c (lb_lots b) \<and> fee_in c (lb_lots b') = fee_in c (lb_lots b) \<and>
    (\<exists>kept new. lb_lots b' = kept @ new \<and> map lot_id new = ids \<and>
      list_all (\<lambda>l. lot_asset l = asset \<and> lot_venue l = to_venue \<and> lot_source_event l = ev \<and>
        (\<exists>o' \<in> set (lb_lots b). lot_moved_from l = Some (lot_id o') \<and> lot_acquired_at l = lot_acquired_at o')) new)"
proof -
  obtain plan origins rs b1 where p: "plan_relief asset from_venue atoms Fifo b = Inr plan"
    "plan_origins (lb_lots b) plan = Inr origins" "apply_relief plan b = (Inr rs, b1)"
    "reopen L asset to_venue ev origins rs b1 = (Inr ids, b')"
    using assms(3) by (auto simp: transfer_def and_then_Inr split: sum.splits prod.splits)
  from plan_relief_Inr [OF p(1) assms(1,2)] obtain ls where ls: "from_book (lb_lots b) ls"
    "list_all (at_position asset from_venue) ls" "drains ls plan" "(\<Sum>(i, t) \<leftarrow> plan. t) = atoms" by metis
  have ok: "\<forall>l \<in> set (lb_lots b). lot_ok l" using assms(1) by (simp add: lb_ok_def)
  note valid = successful_plan_valid [OF p(3) ls(3,1) assms(1)]
  note result = apply_relief_Inr [OF p(3) valid assms(1), of a v c]
  note lot = valid_plan_lot [OF valid]
  from reopen_Inr [OF p(4)] obtain new where new: "lb_lots b' = lb_lots b1 @ new" "lb_tenant b' = lb_tenant b1"
    "map lot_id new = ids" "list_all2 (moved_ok asset to_venue ev origins (lb_tenant b1)) rs new" by blast
  have sums: "(\<Sum>r \<leftarrow> rs. lr_atoms r) = atoms"
    using result ls(4) by (simp add: relief_of_def comp_def split_def)
  have each: "\<exists>p \<in> set plan. moved_ok asset to_venue ev origins (lb_tenant b1)
      (relief_of (snd p) (lot_of (lb_lots b) (fst p))) l" if "l \<in> set new" for l
  proof -
    from list_all2_member [OF new(4) that] obtain r where r: "r \<in> set rs"
      "moved_ok asset to_venue ev origins (lb_tenant b1) r l" by blast
    moreover have "rs = map (\<lambda>(i, t). relief_of t (lot_of (lb_lots b) i)) plan" using result by blast
    ultimately show ?thesis by (auto simp: split_def)
  qed
  have "lot_ok l \<and> lot_tenant l = lb_tenant b'" if "l \<in> set new" for l
  proof -
    from each [OF that] obtain q where q: "q \<in> set plan" "moved_ok asset to_venue ev origins (lb_tenant b1)
      (relief_of (snd q) (lot_of (lb_lots b) (fst q))) l" by blast
    then show ?thesis using relief_of_ok [OF _ _ _ q(2)] lot [OF q(1)] new(2) by (simp add: moved_ok_def)
  qed
  then have ok': "lb_ok b'" using result new(1,2) by (auto simp: lb_ok_def)
  have origin: "\<exists>o' \<in> set (lb_lots b). lot_moved_from l = Some (lot_id o') \<and> lot_acquired_at l = lot_acquired_at o'"
    if "l \<in> set new" for l
  proof -
    from each [OF that] obtain q where q: "q \<in> set plan" "moved_ok asset to_venue ev origins (lb_tenant b1)
      (relief_of (snd q) (lot_of (lb_lots b) (fst q))) l" by blast
    let ?o = "lot_of (lb_lots b) (fst q)"
    have "?o \<in> set (lb_lots b)" "lot_id ?o = fst q"
      using lot [OF q(1)] find_lot_Some [of "fst q" "lb_lots b" ?o] by simp_all
    moreover have "map_of origins (fst q) = Some (lot_acquired_at ?o)"
      using plan_origins_Inr [OF p(2)] valid q(1)
      by (intro map_of_is_SomeI) (auto simp: valid_plan_def comp_def split_def)
    ultimately show ?thesis using q(2)
      by (intro bexI [of _ ?o]) (simp_all add: moved_ok_def relief_of_def)
  qed
  have shape: "list_all (\<lambda>l. lot_asset l = asset \<and> lot_venue l = to_venue \<and> lot_source_event l = ev \<and>
      (\<exists>o' \<in> set (lb_lots b). lot_moved_from l = Some (lot_id o') \<and> lot_acquired_at l = lot_acquired_at o')) new"
    unfolding list_all_iff
  proof
    fix l assume l: "l \<in> set new"
    from each [OF l] have "lot_asset l = asset \<and> lot_venue l = to_venue \<and> lot_source_event l = ev"
      by (auto simp: moved_ok_def)
    with origin [OF l] show "lot_asset l = asset \<and> lot_venue l = to_venue \<and> lot_source_event l = ev \<and>
      (\<exists>o' \<in> set (lb_lots b). lot_moved_from l = Some (lot_id o') \<and> lot_acquired_at l = lot_acquired_at o')"
      by simp
  qed
  note moved = sum_moved [OF new(4), of a v c]
  have "atoms_at a v (lb_lots b') = atoms_at a v (lb_lots b) - (if a = asset \<and> v = from_venue then atoms else 0)
      + (if a = asset \<and> v = to_venue then atoms else 0)"
  proof -
    have "atoms_at a v (lb_lots b1) = atoms_at a v (lb_lots b) -
        (\<Sum>(i, t) \<leftarrow> plan. if at_position a v (lot_of (lb_lots b) i) then t else 0)" using result by blast
    also have "\<dots> = atoms_at a v (lb_lots b) - (if a = asset \<and> v = from_venue then atoms else 0)"
      unfolding plan_at_position [OF ls(3,1,2) ok, of a v] ls(4) ..
    finally show ?thesis using moved sums unfolding new(1) totals_append by (simp only:)
  qed
  moreover have "basis_in c (lb_lots b') = basis_in c (lb_lots b)" "fee_in c (lb_lots b') = fee_in c (lb_lots b)"
    unfolding new(1) totals_append using result moved by linarith+
  ultimately show ?thesis using ok' shape new(1,3) by blast
qed

subsection \<open>Acquisitions, holdings and hashes\<close>

lemma lot_env_ok [simp]: "json_ok (Suc (Suc k)) (lot_env L l)"
  by (simp add: lot_env_def)

text \<open>A lot whose id has not been computed yet.\<close>

definition lot_unsealed :: "lot \<Rightarrow> bool" where
  "lot_unsealed l \<longleftrightarrow> lot_id l = hash_of_byte (CHR 0x00)"

lemma lot_env_inject:
  assumes "libs_ok L" and "lot_id l = lot_id m"
  shows "lot_env L l = lot_env L m \<longleftrightarrow> l = m"
  using assms by (cases l; cases m) (simp add: lot_env_def json_object_inject show_int_inject)

interpretation lot_identity: artifact lot_env lot_unsealed
  by unfold_locales (simp_all add: lot_env_inject lot_unsealed_def json_ok_shallow)

lemma lot_json_ok [simp]: "json_ok (Suc (Suc k)) (lot_json L l)"
  by (simp add: lot_json_def)

lemma lot_json_inject [simp]:
  assumes "libs_ok L"
  shows "lot_json L l = lot_json L m \<longleftrightarrow> l = m"
  using assms by (cases l; cases m) (simp add: lot_json_def json_object_inject show_int_inject)

definition lots_state_env :: "libs \<Rightarrow> tenant_id \<times> lot list \<Rightarrow> json" where
  "lots_state_env L x = json_object [
     (''schema'', JString lots_state_schema),
     (''lot_schema'', JString lot_schema),
     (''tenant'', JString (fst x)),
     (''lots'', JArray (map (lot_json L) (snd x)))]"

lemma lots_state_env_ok [simp]: "json_ok (Suc (Suc (Suc (Suc k)))) (lots_state_env L x)"
  by (simp add: lots_state_env_def)

lemma lot_list_inject: "libs_ok L \<Longrightarrow> map (lot_json L) xs = map (lot_json L) ys \<longleftrightarrow> xs = ys"
  by (simp add: inj_map_eq_map inj_def)

interpretation lots_state: artifact lots_state_env "\<lambda>x. True"
proof
  fix x y :: "tenant_id \<times> lot list" and L
  show "json_ok max_depth (lots_state_env L x)" by (simp add: json_ok_shallow)
  show "libs_ok L \<Longrightarrow> lots_state_env L x = lots_state_env L y \<Longrightarrow> x = y"
    by (simp add: lots_state_env_def json_object_inject lot_list_inject prod_eq_iff)
qed

lemma lots_hash_state:
  "lots_hash L b = map_err LotCanon (content_id L (lots_state_env L (lb_tenant b, sort_key lot_id (lb_lots b))))"
  by (simp add: lots_hash_def lots_env_def lots_state_env_def)

lemma lots_hash_determines:
  assumes "libs_ok L" and "lots_hash L b = Inr h" and "lots_hash L b' = Inr h"
    and "no_collision L {preimage L (lots_env L b), preimage L (lots_env L b')}"
  shows "lb_tenant b = lb_tenant b' \<and> mset (lb_lots b) = mset (lb_lots b')"
proof -
  have env: "lots_env L x = lots_state_env L (lb_tenant x, sort_key lot_id (lb_lots x))" for x
    by (simp add: lots_env_def lots_state_env_def)
  have "(lb_tenant b, sort_key lot_id (lb_lots b)) = (lb_tenant b', sort_key lot_id (lb_lots b'))"
    by (rule lots_state.hash_determines [OF assms(1)])
      (use assms(2-4) in \<open>auto simp: env lots_hash_state map_err_Inr\<close>)
  then show ?thesis by (metis mset_sort prod.inject)
qed

lemma held_eq:
  assumes "lb_ok b"
  shows "held b asset venue = min (2 ^ 127 - 1) (atoms_at asset venue (lb_lots b))"
proof -
  have "fold (\<lambda>l acc. if at_position asset venue l then i128_saturating_add acc (lot_atoms l) else acc) ls n =
      min (2 ^ 127 - 1) (n + atoms_at asset venue ls)"
    if "\<forall>l \<in> set ls. 0 < lot_atoms l" "0 \<le> n" "n \<le> 2 ^ 127 - 1" for ls n
    using that
  proof (induction ls arbitrary: n)
    case (Cons l ls)
    have "0 \<le> atoms_at asset venue ls"
      using Cons.prems(1) unfolding atoms_at_def by (intro sum_list_nonneg) (auto intro: less_imp_le)
    then show ?case
      using Cons.IH [of n] Cons.IH [of "i128_saturating_add n (lot_atoms l)"] Cons.prems
      by (auto simp: atoms_at_def i128_saturating_add_def min_def max_def)
  qed (simp add: atoms_at_def)
  from this [of "lb_lots b" 0] assms show ?thesis by (auto simp: held_def lb_ok_def lot_ok_def)
qed

lemma acquire_Inr:
  assumes "acquire L asset venue atoms basis fee t ev b = (Inr i, b')"
  shows "\<exists>l. lb_lots b' = lb_lots b @ [l] \<and> lb_tenant b' = lb_tenant b \<and> lot_id l = i \<and> 0 < atoms \<and>
    0 \<le> amt_atoms basis \<and> 0 \<le> amt_atoms fee \<and> amt_asset basis = amt_asset fee \<and>
    l = \<lparr>lot_id = i, lot_tenant = lb_tenant b, lot_asset = asset, lot_venue = venue, lot_atoms = atoms,
         lot_cost_basis = basis, lot_acquisition_fee = fee, lot_acquired_at = t, lot_source_event = ev,
         lot_moved_from = None\<rparr>"
  using assms by (auto simp: acquire_def open_lot_def split: if_splits sum.splits)

lemma acquire_ok:
  assumes "lb_ok b" and "in_i128 atoms" and "amount_wf basis" and "amount_wf fee"
    and "acquire L asset venue atoms basis fee t ev b = (Inr i, b')"
  shows "lb_ok b'"
  using acquire_Inr [OF assms(5)] assms(1-4)
  by (auto simp: lb_ok_def lot_ok_def lot_money_ok_def amount_wf_def)

subsection \<open>A concrete book\<close>

definition demo_lot :: "char \<Rightarrow> int \<Rightarrow> int \<Rightarrow> timestamp_ns \<Rightarrow> lot" where
  "demo_lot n atoms basis t = \<lparr>lot_id = hash_of_byte n, lot_tenant = ''acme'', lot_asset = ''BTC'',
     lot_venue = ''cold'', lot_atoms = atoms, lot_cost_basis = amount_new ''USD'' basis,
     lot_acquisition_fee = amount_new ''USD'' 3, lot_acquired_at = t, lot_source_event = hash_of_byte n,
     lot_moved_from = None\<rparr>"

definition demo_book :: lot_book where
  "demo_book = \<lparr>lb_tenant = ''acme'', lb_lots = [demo_lot (CHR 0x01) 10 100 5, demo_lot (CHR 0x02) 7 40 4]\<rparr>"

lemma demo_book_ok [simp]: "lb_ok demo_book" "lb_distinct demo_book"
  by (simp_all add: lb_ok_def lb_distinct_def demo_book_def demo_lot_def lot_ok_def lot_money_ok_def in_i128_def)

lemma demo_dispose:
  "dispose ''BTC'' ''cold'' 12 Fifo (hash_of_byte (CHR 0x09)) (amount_new ''USD'' 500) demo_book =
    (Inr \<lparr>dr_method = Fifo, dr_policy_hash = hash_of_byte (CHR 0x09),
       dr_reliefs = [\<lparr>lr_lot_id = hash_of_byte (CHR 0x02), lr_atoms = 7, lr_basis_relieved = amount_new ''USD'' 40,
                      lr_fee_relieved = amount_new ''USD'' 3\<rparr>,
                     \<lparr>lr_lot_id = hash_of_byte (CHR 0x01), lr_atoms = 5, lr_basis_relieved = amount_new ''USD'' 50,
                      lr_fee_relieved = amount_new ''USD'' 1\<rparr>],
       dr_total_basis_relieved = amount_new ''USD'' 90, dr_proceeds = amount_new ''USD'' 500,
       dr_realized = amount_new ''USD'' 410\<rparr>,
     \<lparr>lb_tenant = ''acme'', lb_lots = [\<lparr>lot_id = hash_of_byte (CHR 0x01), lot_tenant = ''acme'', lot_asset = ''BTC'',
       lot_venue = ''cold'', lot_atoms = 5, lot_cost_basis = amount_new ''USD'' 50,
       lot_acquisition_fee = amount_new ''USD'' 2, lot_acquired_at = 5, lot_source_event = hash_of_byte (CHR 0x01),
       lot_moved_from = None\<rparr>]\<rparr>)"
  by (simp add: dispose_def plan_relief_def candidates_def demo_book_def demo_lot_def at_position_def lot_key_def
      i128_ops i128_opt_def in_i128_def basis_currency_def find_lot_def apply_relief_def relieve_lot_def
      pro_rata_def checked_add_def checked_sub_def sdiv_nonneg Let_def)

lemma compute_lot_id_total: "libs_ok L \<Longrightarrow> compute_lot_id L l = Inr (sha256 L (preimage L (lot_env L l)))"
  by (simp add: compute_lot_id_def content_id_eq json_ok_shallow)

definition const_libs :: "char \<Rightarrow> libs" where
  "const_libs c = demo_libs (\<lambda>_. hash_of_byte c)"

lemma demo_transfer:
  "fst (transfer (const_libs (CHR 0x07)) ''BTC'' ''cold'' ''hot'' 12 (hash_of_byte (CHR 0x08)) demo_book) =
     Inr [hash_of_byte (CHR 0x07), hash_of_byte (CHR 0x07)]"
  by (simp add: transfer_def plan_relief_def candidates_def demo_book_def demo_lot_def at_position_def lot_key_def
      i128_ops i128_opt_def in_i128_def find_lot_def apply_relief_def relieve_lot_def open_lot_def
      compute_lot_id_total const_libs_def sha256_def pro_rata_def sdiv_nonneg Let_def)

subsection \<open>Properties\<close>

text \<open>C3: A successful disposal conserves everything: the position loses exactly the disposed
  atoms and no other position changes, the basis that leaves the book is exactly the basis
  reported as relieved, the fee likewise, the realized result is proceeds minus relieved basis,
  and every remaining lot keeps positive quantity and non-negative money.\<close>

theorem lots_disposal_conserves:
  assumes "lb_ok b" and "lb_distinct b" and "dispose asset venue atoms m policy proceeds b = (Inr r, b')"
  shows "lb_ok b' \<and> lb_distinct b' \<and>
    atoms_at a v (lb_lots b') = atoms_at a v (lb_lots b) - (if a = asset \<and> v = venue then atoms else 0) \<and>
    basis_in c (lb_lots b') = basis_in c (lb_lots b) -
      (if c = amt_asset proceeds then amt_atoms (dr_total_basis_relieved r) else 0) \<and>
    fee_in c (lb_lots b') = fee_in c (lb_lots b) - amounts_in c (map lr_fee_relieved (dr_reliefs r)) \<and>
    amt_asset (dr_realized r) = amt_asset proceeds \<and>
    amt_atoms (dr_realized r) = amt_atoms proceeds - amt_atoms (dr_total_basis_relieved r) \<and>
    (\<Sum>x \<leftarrow> dr_reliefs r. lr_atoms x) = atoms"
  using assms by (rule dispose_conserves)

theorem lots_disposal_conserves_witness:
  "atoms_at ''BTC'' ''cold'' (lb_lots (snd (dispose ''BTC'' ''cold'' 12 Fifo (hash_of_byte (CHR 0x09))
      (amount_new ''USD'' 500) demo_book))) = 17 - 12"
  using lots_disposal_conserves [OF demo_book_ok demo_dispose, of "''BTC''" "''cold''"]
  by (simp add: demo_dispose) (simp add: atoms_at_def demo_book_def demo_lot_def at_position_def)

text \<open>C30: In a book of well-formed lots with ids of their own, a FIFO disposal of a positive quantity succeeds when the
  position holds it, the lots of the position are in the currency of the proceeds, the proceeds are not negative
  and no sum or product leaves 128 bits; it then relieves exactly that quantity from the lots of the position, in
  the order of acquisition time and lot id, every lot but the last one entirely.\<close>

theorem lots_fifo_disposal:
  assumes "lb_ok b" and "lb_distinct b" and "fifo_ready asset venue atoms proceeds b"
  shows "\<exists>r n. fst (dispose asset venue atoms Fifo policy proceeds b) = Inr r \<and>
    (\<Sum>x \<leftarrow> dr_reliefs r. lr_atoms x) = atoms \<and>
    map lr_lot_id (dr_reliefs r) =
      map lot_id (take n (sort_key lot_key (filter (at_position asset venue) (lb_lots b)))) \<and>
    (\<forall>k. Suc k \<ge> n \<or> lr_atoms (dr_reliefs r ! k) =
      lot_atoms (sort_key lot_key (filter (at_position asset venue) (lb_lots b)) ! k))"
proof -
  obtain r b' where d: "dispose asset venue atoms Fifo policy proceeds b = (Inr r, b')"
    using dispose_fifo_succeeds [OF assms, of policy] by (auto simp: is_ok_iff) (metis prod.collapse)
  let ?ls = "sort_key lot_key (filter (at_position asset venue) (lb_lots b))"
  obtain n where "map lr_lot_id (dr_reliefs r) = map lot_id (take n ?ls)"
    "\<forall>k. Suc k < n \<longrightarrow> lr_atoms (dr_reliefs r ! k) = lot_atoms (?ls ! k)"
    using dispose_fifo_order [OF assms(1,2) d] by blast
  moreover have "(\<Sum>x \<leftarrow> dr_reliefs r. lr_atoms x) = atoms" using dispose_conserves [OF assms(1,2) d] by blast
  ultimately show ?thesis using d by (intro exI [of _ r] exI [of _ n]) (auto intro: leI)
qed

theorem lots_fifo_disposal_witness:
  "\<exists>r. fst (dispose ''BTC'' ''cold'' 12 Fifo (hash_of_byte (CHR 0x09)) (amount_new ''USD'' 500) demo_book) = Inr r"
proof -
  have "fifo_ready ''BTC'' ''cold'' 12 (amount_new ''USD'' 500) demo_book"
    by (simp add: fifo_ready_def demo_book_def demo_lot_def atoms_at_def basis_in_def at_position_def
        relief_fits_def in_i128_def)
  from lots_fifo_disposal [OF demo_book_ok this, of "hash_of_byte (CHR 0x09)"] show ?thesis by blast
qed

text \<open>C31: A transfer moves quantity between venues without realizing: the atoms leave one position
  and arrive at the other, basis and fee of the whole book are unchanged in every currency, and
  every new lot names the lot it came from and keeps that lot's acquisition time.\<close>

theorem lots_transfer_conserves:
  assumes "lb_ok b" and "lb_distinct b"
    and "transfer L asset from_venue to_venue atoms ev b = (Inr ids, b')"
  shows "lb_ok b' \<and>
    atoms_at a v (lb_lots b') = atoms_at a v (lb_lots b) - (if a = asset \<and> v = from_venue then atoms else 0)
      + (if a = asset \<and> v = to_venue then atoms else 0) \<and>
    basis_in c (lb_lots b') = basis_in c (lb_lots b) \<and> fee_in c (lb_lots b') = fee_in c (lb_lots b) \<and>
    (\<exists>kept new. lb_lots b' = kept @ new \<and> map lot_id new = ids \<and>
      list_all (\<lambda>l. lot_asset l = asset \<and> lot_venue l = to_venue \<and> lot_source_event l = ev \<and>
        (\<exists>o' \<in> set (lb_lots b). lot_moved_from l = Some (lot_id o') \<and> lot_acquired_at l = lot_acquired_at o')) new)"
  using assms by (rule transfer_conserves)

theorem lots_transfer_conserves_witness:
  "basis_in ''USD'' (lb_lots (snd (transfer (const_libs (CHR 0x07)) ''BTC'' ''cold'' ''hot'' 12
      (hash_of_byte (CHR 0x08)) demo_book))) = 140"
proof -
  have "transfer (const_libs (CHR 0x07)) ''BTC'' ''cold'' ''hot'' 12 (hash_of_byte (CHR 0x08)) demo_book =
    (Inr [hash_of_byte (CHR 0x07), hash_of_byte (CHR 0x07)],
     snd (transfer (const_libs (CHR 0x07)) ''BTC'' ''cold'' ''hot'' 12 (hash_of_byte (CHR 0x08)) demo_book))"
    by (simp add: prod_eq_iff demo_transfer)
  from lots_transfer_conserves [OF demo_book_ok this, of "[]" "[]" "''USD''"]
  have "basis_in ''USD'' (lb_lots (snd (transfer (const_libs (CHR 0x07)) ''BTC'' ''cold'' ''hot'' 12
      (hash_of_byte (CHR 0x08)) demo_book))) = basis_in ''USD'' (lb_lots demo_book)" by blast
  also have "\<dots> = 140" by (simp add: basis_in_def demo_book_def demo_lot_def)
  finally show ?thesis .
qed

text \<open>The hash of the open lot set commits to the book: two books with the same lots hash have
  the same tenant and the same lots, up to order, unless SHA-256 collides on the two envelopes.\<close>

theorem lots_hash_commits:
  assumes "libs_ok L" and "lots_hash L b = Inr h" and "lots_hash L b' = Inr h"
    and "no_collision L {preimage L (lots_env L b), preimage L (lots_env L b')}"
  shows "lb_tenant b = lb_tenant b' \<and> mset (lb_lots b) = mset (lb_lots b')"
  using assms by (rule lots_hash_determines)

theorem lots_hash_commits_witness:
  "lb_tenant demo_book = ''acme'' \<and> mset (lb_lots demo_book) = mset (rev (lb_lots demo_book))"
proof -
  let ?L = "const_libs (CHR 0x07)" and ?b = "demo_book\<lparr>lb_lots := rev (lb_lots demo_book)\<rparr>"
  have env: "lots_env ?L demo_book = lots_env ?L ?b"
    by (simp add: lots_env_def demo_book_def demo_lot_def)
  have "lots_hash ?L demo_book = Inr (hash_of_byte (CHR 0x07))"
    using lots_state.hash_total [of ?L] by (simp add: lots_hash_state const_libs_def sha256_def)
  from lots_hash_commits [of ?L demo_book, OF _ this, of ?b] this env show ?thesis
    by (simp add: lots_hash_def const_libs_def no_collision_def) (simp add: demo_book_def)
qed

end
