(* ===== verification/Lots_Runs.thy ===== *)
theory Lots_Runs
  imports Lots
begin

section \<open>Runs of the lot book, failures included (treasury-lots, book.rs)\<close>

text \<open>
  The operations of \<open>crates/treasury-lots/src/book.rs\<close> mutate the book in place and may fail after they have begun:
  \<open>apply_relief\<close> returns early with the lots it has already reduced. This theory follows the book through
  every outcome. A lot is at every moment either well-formed or emptied (no atoms, no money), whatever
  operations succeeded or failed, and also when two lots carry one id: such lots were opened on the same facts, so the
  plan takes the first of them whole before it reaches the next. An emptied lot that a failure has left behind at the front of a position
  blocks every first-in-first-out disposal and every transfer from there.
\<close>

datatype lot_op =
    Acquire asset_id venue_id int asset_amount asset_amount timestamp_ns content_hash
  | Dispose asset_id venue_id int relief_method content_hash asset_amount
  | Transfer asset_id venue_id venue_id int content_hash

fun lot_step :: "libs \<Rightarrow> lot_op \<Rightarrow> lot_book \<Rightarrow> lot_book" where
  "lot_step L (Acquire asset venue atoms basis fee t ev) b = snd (acquire L asset venue atoms basis fee t ev b)"
| "lot_step L (Dispose asset venue atoms m policy proceeds) b = snd (dispose asset venue atoms m policy proceeds b)"
| "lot_step L (Transfer asset from_venue to_venue atoms ev) b = snd (transfer L asset from_venue to_venue atoms ev b)"

text \<open>The arguments of an operation are values of their machine types.\<close>

fun lot_op_typed :: "lot_op \<Rightarrow> bool" where
  "lot_op_typed (Acquire asset venue atoms basis fee t ev) = (in_i128 atoms \<and> amount_wf basis \<and> amount_wf fee)"
| "lot_op_typed _ = True"

text \<open>Every book a run goes through, the last one included.\<close>

fun lot_books :: "libs \<Rightarrow> lot_op list \<Rightarrow> lot_book \<Rightarrow> lot_book list" where
  "lot_books L [] b = [b]"
| "lot_books L (x # xs) b = b # lot_books L xs (lot_step L x b)"

definition lots_typed :: "tenant_id \<Rightarrow> lot list \<Rightarrow> bool" where
  "lots_typed tenant lots \<longleftrightarrow> (\<forall>l \<in> set lots. weakly_ok l \<and> lot_tenant l = tenant)"

definition lb_typed :: "lot_book \<Rightarrow> bool" where
  "lb_typed b \<longleftrightarrow> lots_typed (lb_tenant b) (lb_lots b)"

subsection \<open>The relief loop on every outcome\<close>

text \<open>
  A planned lot is in the book as it was planned, or is emptied by the time its turn comes: of the candidates
  with one id, the first is the one that a lookup by id finds, and it is taken whole before a second one is reached.
\<close>

definition planned :: "lot list \<Rightarrow> lot list \<Rightarrow> bool" where
  "planned lots cs \<longleftrightarrow> (\<forall>c \<in> set cs. weakly_ok c \<and>
     (\<exists>d. find_lot (lot_id c) lots = Some d \<and> (lot_atoms d = 0 \<or> find_lot (lot_id c) cs = Some d)))"

lemma update_found: "find_lot i lots = Some l \<Longrightarrow> update_first (\<lambda>x. lot_id x = i) l lots = lots"
  by (induction lots) (auto simp: find_lot_def split: if_splits)

lemma relief_loop_blocked:
  assumes "find_lot i lots = Some l" and "lot_atoms l = 0"
  shows "\<exists>e. relief_loop ((i, t) # plan) lots = (Inl e, lots)"
  using relieve_lot_emptied [OF assms(2), of t] assms(1) update_found [OF assms(1)] by auto

lemma lots_typed_update:
  "lots_typed tenant lots \<Longrightarrow> weakly_ok l \<Longrightarrow> lot_tenant l = tenant \<Longrightarrow> lots_typed tenant (update_first P l lots)"
  using set_update [of P l lots] by (auto simp: lots_typed_def)

lemma planned_after:
  assumes "planned lots (c # cs)" and "find_lot (lot_id c) lots = Some l" and "lot_id l' = lot_id c" and "lot_atoms l' = 0"
  shows "planned (update_first (\<lambda>x. lot_id x = lot_id c) l' lots) cs"
  unfolding planned_def
proof
  fix x assume x: "x \<in> set cs"
  then obtain d where d: "weakly_ok x" "find_lot (lot_id x) lots = Some d" "lot_atoms d = 0 \<or> find_lot (lot_id x) (c # cs) = Some d"
    using assms(1) unfolding planned_def by (meson list.set_intros(2))
  show "weakly_ok x \<and> (\<exists>d. find_lot (lot_id x) (update_first (\<lambda>x. lot_id x = lot_id c) l' lots) = Some d \<and>
      (lot_atoms d = 0 \<or> find_lot (lot_id x) cs = Some d))"
  proof (cases "lot_id x = lot_id c")
    case True
    then show ?thesis using d(1) find_update_same [OF assms(3,2)] assms(4) by simp
  next
    case False
    then have "find_lot (lot_id x) (c # cs) = find_lot (lot_id x) cs" by (simp add: find_lot_def)
    with d False show ?thesis using find_update_other [OF assms(3) False, of lots] by auto
  qed
qed

text \<open>The reliefs of a successful loop are parts of well-formed lots.\<close>

definition relief_typed :: "lot_relief \<Rightarrow> bool" where
  "relief_typed r \<longleftrightarrow> (\<exists>l t. lot_ok l \<and> 0 < t \<and> t \<le> lot_atoms l \<and> r = relief_of t l)"

lemma relief_loop_typed:
  assumes "take_plan n cs = Inr plan" and "0 \<le> n" and "planned lots cs" and "lots_typed tenant lots"
  shows "case relief_loop plan lots of (r, lots') \<Rightarrow> lots_typed tenant lots' \<and> map lot_id lots' = map lot_id lots \<and>
    (\<forall>rs. r = Inr rs \<longrightarrow> list_all relief_typed rs)"
  using assms
proof (induction cs arbitrary: n plan lots)
  case (Cons c cs)
  show ?case
  proof (cases "n = 0")
    case True
    then show ?thesis using Cons.prems by simp
  next
    case False
    let ?t = "min n (lot_atoms c)"
    from False Cons.prems(1) obtain plan' where plan': "take_plan (n - ?t) cs = Inr plan'" "plan = (lot_id c, ?t) # plan'"
      by (auto simp: Let_def result_simps i128_ops)
    from Cons.prems(3) obtain d where d: "find_lot (lot_id c) lots = Some d" "d = c \<or> lot_atoms d = 0" and c: "weakly_ok c"
      by (auto simp: planned_def find_lot_def)
    show ?thesis
    proof (cases "lot_atoms d = 0")
      case True
      with relief_loop_blocked [OF d(1)] obtain e where "relief_loop plan lots = (Inl e, lots)"
        unfolding plan'(2) by blast
      with Cons.prems(4) show ?thesis by simp
    next
      case False
      with d(2) have "d = c" by simp
      then have ok: "lot_ok c" using c False by (auto simp: weakly_ok_def lot_emptied_def)
      then have t: "0 < ?t" "?t \<le> lot_atoms c" using \<open>n \<noteq> 0\<close> Cons.prems(2) by (auto simp: lot_ok_def)
      note relieve = relieve_lot_eq [OF ok t]
      have tenant: "lot_tenant c = tenant"
        using find_lot_Some [OF d(1)] \<open>d = c\<close> Cons.prems(4) by (auto simp: lots_typed_def)
      show ?thesis
      proof (cases "relief_fits ?t c")
        case False
        then show ?thesis
          using relieve d(1) \<open>d = c\<close> update_found [OF d(1)] Cons.prems(4) by (simp add: plan'(2))
      next
        case True
        let ?lots = "update_first (\<lambda>x. lot_id x = lot_id c) (remainder ?t c) lots"
        have typed: "lots_typed tenant ?lots"
          by (rule lots_typed_update [OF Cons.prems(4)]) (use remainder_ok [OF ok t] tenant in \<open>auto simp: weakly_ok_def\<close>)
        have ids: "map lot_id ?lots = map lot_id lots" using map_update [OF d(1), of lot_id "remainder ?t c"] \<open>d = c\<close> by simp
        have "case relief_loop plan' ?lots of (r, lots') \<Rightarrow> lots_typed tenant lots' \<and> map lot_id lots' = map lot_id ?lots \<and>
            (\<forall>rs. r = Inr rs \<longrightarrow> list_all relief_typed rs)"
        proof (cases "?t = lot_atoms c")
          case True
          have "planned ?lots cs"
            by (rule planned_after [OF Cons.prems(3) d(1)]) (use True in simp_all)
          from Cons.IH [OF plan'(1) _ this typed] Cons.prems(2) show ?thesis by simp
        next
          case False
          then have "plan' = []" using plan'(1) by (cases cs) (auto simp: min_def split: if_splits)
          then show ?thesis using typed by simp
        qed
        moreover have "relief_typed (relief_of ?t c)" unfolding relief_typed_def using ok t by blast
        ultimately show ?thesis
          using relieve d(1) \<open>d = c\<close> True ids by (auto simp: plan'(2) split: prod.splits sum.splits)
      qed
    qed
  qed
qed simp

subsection \<open>Every operation keeps the types\<close>

text \<open>What never changes about a lot: its id, position and acquisition time.\<close>

definition lot_place :: "lot \<Rightarrow> lot_id \<times> asset_id \<times> venue_id \<times> timestamp_ns" where
  "lot_place l = (lot_id l, lot_asset l, lot_venue l, lot_acquired_at l)"

text \<open>Lots with one id are of one position and one time, though there may be several.\<close>

definition coherent :: "lot list \<Rightarrow> bool" where
  "coherent lots \<longleftrightarrow> (\<forall>l \<in> set lots. \<forall>m \<in> set lots. lot_id l = lot_id m \<longrightarrow> lot_place l = lot_place m)"

lemma find_lot_filter:
  "find_lot i lots = (case filter (\<lambda>l. lot_id l = i) lots of [] \<Rightarrow> None | l # _ \<Rightarrow> Some l)"
  by (induction lots) (simp_all add: find_lot_def)

lemma find_lot_sorted:
  assumes "coherent lots" and "c \<in> set lots" and "at_position asset venue c"
  shows "find_lot (lot_id c) (sort_key lot_key (filter (at_position asset venue) lots)) = find_lot (lot_id c) lots"
proof -
  have same: "lot_place l = lot_place c" if "l \<in> set lots" "lot_id l = lot_id c" for l
    using assms(1,2) that unfolding coherent_def by blast
  have "filter (\<lambda>l. lot_id l = lot_id c) (filter (at_position asset venue) lots) = filter (\<lambda>l. lot_id l = lot_id c) lots"
    unfolding filter_filter
  proof (rule filter_cong [OF refl])
    fix l assume "l \<in> set lots"
    then show "at_position asset venue l \<and> lot_id l = lot_id c \<longleftrightarrow> lot_id l = lot_id c"
      using same [of l] assms(3) unfolding lot_place_def at_position_def by blast
  qed
  moreover have "sort_key lot_key (filter (\<lambda>l. lot_id l = lot_id c) lots) = filter (\<lambda>l. lot_id l = lot_id c) lots"
  proof (rule sort_key_id_if_sorted)
    have "lot_key l = lot_key c" if "l \<in> set lots" "lot_id l = lot_id c" for l
      using same [OF that] by (simp add: lot_place_def lot_key_def)
    then have "map lot_key (filter (\<lambda>l. lot_id l = lot_id c) lots) = replicate (length (filter (\<lambda>l. lot_id l = lot_id c) lots)) (lot_key c)"
      by (intro replicate_eqI) auto
    then show "sorted (map lot_key (filter (\<lambda>l. lot_id l = lot_id c) lots))" by (simp add: sorted_replicate)
  qed
  ultimately show ?thesis by (simp add: find_lot_filter filter_sort)
qed

lemma find_lot_exists: "c \<in> set lots \<Longrightarrow> \<exists>d. find_lot (lot_id c) lots = Some d"
  by (induction lots) (auto simp: find_lot_def)

lemma candidates_planned:
  assumes "candidates asset venue m lots = Inr cs" and "coherent lots" and "lots_typed tenant lots"
  shows "planned lots cs"
proof (cases m)
  case Fifo
  then have cs: "cs = sort_key lot_key (filter (at_position asset venue) lots)"
    using assms(1) by (simp add: candidates_def)
  show ?thesis unfolding planned_def
  proof
    fix c assume "c \<in> set cs"
    then have c: "c \<in> set lots" "at_position asset venue c" by (simp_all add: cs)
    then show "weakly_ok c \<and> (\<exists>d. find_lot (lot_id c) lots = Some d \<and> (lot_atoms d = 0 \<or> find_lot (lot_id c) cs = Some d))"
      using find_lot_exists [OF c(1)] find_lot_sorted [OF assms(2) c] assms(3) by (auto simp: cs lots_typed_def)
  qed
next
  case (SpecificLots ids)
  then have book: "from_book lots cs"
    using assms(1) specific_candidates_Inr [of asset venue lots ids cs] by (simp add: candidates_def)
  show ?thesis unfolding planned_def
  proof
    fix c assume c: "c \<in> set cs"
    then obtain d where d: "find_lot (lot_id c) cs = Some d" using find_lot_exists by blast
    then have "find_lot (lot_id c) lots = Some d" using book find_lot_Some [OF d] unfolding from_book_def by metis
    then show "weakly_ok c \<and> (\<exists>d. find_lot (lot_id c) lots = Some d \<and> (lot_atoms d = 0 \<or> find_lot (lot_id c) cs = Some d))"
      using d from_book_in [OF book c] assms(3) by (simp add: lots_typed_def)
  qed
qed

lemma plan_relief_taken:
  assumes "plan_relief asset venue n m b = Inr plan" and "coherent (lb_lots b)" and "lb_typed b"
  shows "\<exists>cs. take_plan n cs = Inr plan \<and> 0 \<le> n \<and> planned (lb_lots b) cs"
  using assms candidates_planned [of asset venue m "lb_lots b"]
  by (auto simp: plan_relief_def result_simps lb_typed_def split: if_splits)

lemma apply_relief_typed:
  assumes "plan_relief asset venue n m b = Inr plan" and "coherent (lb_lots b)" and "lb_typed b"
  shows "case apply_relief plan b of (r, b') \<Rightarrow> lb_typed b' \<and> lb_tenant b' = lb_tenant b \<and>
    (\<forall>rs. r = Inr rs \<longrightarrow> list_all relief_typed rs)"
proof -
  obtain cs where cs: "take_plan n cs = Inr plan" "0 \<le> n" "planned (lb_lots b) cs"
    using plan_relief_taken [OF assms] by blast
  from relief_loop_typed [OF cs(1,2,3)] assms(3)
  have loop: "case relief_loop plan (lb_lots b) of (r, lots') \<Rightarrow> lots_typed (lb_tenant b) lots' \<and>
      (\<forall>rs. r = Inr rs \<longrightarrow> list_all relief_typed rs)"
    by (auto simp: lb_typed_def)
  obtain r lots' where r: "relief_loop plan (lb_lots b) = (r, lots')" by (cases "relief_loop plan (lb_lots b)")
  with loop show ?thesis
    by (cases r) (auto simp: apply_relief_def lb_typed_def lots_typed_def)
qed

lemma open_lot_typed:
  assumes "lb_typed b" and "lot_ok l" and "lot_tenant l = lb_tenant b"
  shows "lb_typed (snd (open_lot L l b)) \<and> lb_tenant (snd (open_lot L l b)) = lb_tenant b"
  using assms
  by (auto simp: open_lot_def lb_typed_def lots_typed_def weakly_ok_def lot_ok_def lot_money_ok_def split: sum.splits)

lemma reopen_typed:
  assumes "list_all relief_typed rs" and "lb_typed b"
  shows "lb_typed (snd (reopen L asset to_venue ev origins rs b))"
  using assms
proof (induction rs arbitrary: b)
  case (Cons r rs)
  show ?case
  proof (cases "map_of origins (lr_lot_id r)")
    case None
    then show ?thesis using Cons.prems by simp
  next
    case (Some t)
    let ?l = "\<lparr>lot_id = hash_of_byte (CHR 0x00), lot_tenant = lb_tenant b, lot_asset = asset, lot_venue = to_venue,
      lot_atoms = lr_atoms r, lot_cost_basis = lr_basis_relieved r, lot_acquisition_fee = lr_fee_relieved r,
      lot_acquired_at = t, lot_source_event = ev, lot_moved_from = Some (lr_lot_id r)\<rparr>"
    obtain m n where r: "lot_ok m" "0 < n" "n \<le> lot_atoms m" "r = relief_of n m"
      using Cons.prems(1) by (auto simp: relief_typed_def)
    have "moved_ok asset to_venue ev origins (lb_tenant b) (relief_of n m) ?l" using Some r(4) by (simp add: moved_ok_def)
    then have "lot_ok ?l" by (rule relief_of_ok [OF r(1-3)])
    from open_lot_typed [OF Cons.prems(2) this, of L] have "lb_typed (snd (open_lot L ?l b))" by simp
    then show ?thesis
      using Some Cons.prems(1) Cons.IH by (auto split: prod.splits sum.splits) (metis snd_conv)+
  qed
qed simp

lemma dispose_typed:
  assumes "lb_typed b" and "coherent (lb_lots b)"
  shows "lb_typed (snd (dispose asset venue n m policy proceeds b))"
proof (cases "and_then (plan_relief asset venue n m b) (\<lambda>plan. and_then (basis_currency plan (lb_lots b)) (\<lambda>currency.
    if amt_asset proceeds \<noteq> currency then Inl CurrencyMismatch else Inr (plan, currency)))")
  case (Inl e)
  then show ?thesis using assms by (simp add: dispose_def)
next
  case (Inr x)
  obtain plan currency where x: "x = (plan, currency)" by (cases x)
  from Inr x have "plan_relief asset venue n m b = Inr plan" by (auto simp: result_simps split: if_splits)
  from apply_relief_typed [OF this assms(2,1)] show ?thesis
    by (cases "apply_relief plan b"; cases "fst (apply_relief plan b)") (auto simp: dispose_def Inr x)
qed

lemma transfer_typed:
  assumes "lb_typed b" and "coherent (lb_lots b)"
  shows "lb_typed (snd (transfer L asset from_venue to_venue n ev b))"
proof (cases "and_then (plan_relief asset from_venue n Fifo b) (\<lambda>plan.
    and_then (plan_origins (lb_lots b) plan) (\<lambda>origins. Inr (plan, origins)))")
  case (Inl e)
  then show ?thesis using assms(1) by (simp add: transfer_def)
next
  case (Inr x)
  obtain plan origins where x: "x = (plan, origins)" by (cases x)
  from Inr x have "plan_relief asset from_venue n Fifo b = Inr plan" by (auto simp: result_simps)
  from apply_relief_typed [OF this assms(2,1)] show ?thesis
    by (cases "apply_relief plan b"; cases "fst (apply_relief plan b)") (auto simp: transfer_def Inr x intro: reopen_typed)
qed

lemma acquire_typed:
  assumes "lb_typed b" and "in_i128 atoms" and "amount_wf basis" and "amount_wf fee"
  shows "lb_typed (snd (acquire L asset venue atoms basis fee t ev b))"
  using assms open_lot_typed [OF assms(1)]
  by (auto simp: acquire_def lot_ok_def lot_money_ok_def amount_wf_def split: if_splits)

lemma lot_step_typed:
  "lb_typed b \<Longrightarrow> coherent (lb_lots b) \<Longrightarrow> lot_op_typed x \<Longrightarrow> lb_typed (lot_step L x b)"
  by (cases x) (simp_all add: acquire_typed dispose_typed transfer_typed)

subsection \<open>Where the lots of a run come from\<close>

text \<open>A lot as it was opened: its id is the hash of its facts. Relief changes the facts and keeps the id.\<close>

definition as_opened :: "libs \<Rightarrow> lot \<Rightarrow> bool" where
  "as_opened L l \<longleftrightarrow> compute_lot_id L l = Inr (lot_id l)"

definition openings :: "libs \<Rightarrow> lot_op list \<Rightarrow> lot_book \<Rightarrow> lot set" where
  "openings L ops b = {l. as_opened L l \<and> (\<exists>b' \<in> set (lot_books L ops b). l \<in> set (lb_lots b'))}"

definition rooted :: "lot set \<Rightarrow> lot list \<Rightarrow> bool" where
  "rooted roots lots \<longleftrightarrow> lot_place ` set lots \<subseteq> lot_place ` roots"

lemma relieve_lot_place: "relieve_lot t l = (r, l') \<Longrightarrow> lot_place l' = lot_place l"
  by (auto simp: relieve_lot_def lot_place_def Let_def split: sum.splits option.splits)

lemma relief_loop_place: "map lot_place (snd (relief_loop plan lots)) = map lot_place lots"
proof (induction plan lots rule: relief_loop.induct)
  case (2 i t plan lots)
  show ?case
  proof (cases "find_lot i lots")
    case (Some l)
    obtain r l' where l': "relieve_lot t l = (r, l')" by (cases "relieve_lot t l")
    have keep: "map lot_place (update_first (\<lambda>x. lot_id x = i) l' lots) = map lot_place lots"
      by (rule map_update [OF Some]) (rule relieve_lot_place [OF l'])
    show ?thesis
    proof (cases r)
      case (Inr x)
      have "map lot_place (snd (relief_loop plan (update_first (\<lambda>x. lot_id x = i) l' lots))) = map lot_place lots"
        using 2 [OF Some l' [symmetric] Inr] keep by simp
      then show ?thesis
        using Some l' Inr by (auto split: prod.splits sum.splits)
    qed (use Some l' keep in simp)
  qed simp
qed simp

lemma apply_relief_place: "lot_place ` set (lb_lots (snd (apply_relief plan b))) \<subseteq> lot_place ` set (lb_lots b)"
proof -
  obtain r lots' where r: "relief_loop plan (lb_lots b) = (r, lots')" by (cases "relief_loop plan (lb_lots b)")
  have "lot_place ` set lots' = lot_place ` set (lb_lots b)"
    using relief_loop_place [of plan "lb_lots b"] r by (metis list.set_map snd_conv)
  then show ?thesis using r by (cases r) (auto simp: apply_relief_def)
qed

text \<open>Opening lots adds lots as they were opened and leaves the others alone.\<close>

definition opens_only :: "libs \<Rightarrow> lot_book \<Rightarrow> lot_book \<Rightarrow> bool" where
  "opens_only L b b' \<longleftrightarrow> (\<forall>l \<in> set (lb_lots b'). as_opened L l \<or> l \<in> set (lb_lots b))"

lemma open_lot_opens: "opens_only L b (snd (open_lot L l b))"
proof -
  have "lot_env L (l\<lparr>lot_id := i\<rparr>) = lot_env L l" for i by (simp add: lot_env_def)
  then show ?thesis by (auto simp: open_lot_def opens_only_def as_opened_def compute_lot_id_def split: sum.splits)
qed

lemma reopen_opens: "opens_only L b (snd (reopen L asset to_venue ev origins rs b))"
proof (induction rs arbitrary: b)
  case (Cons r rs)
  show ?case
  proof (cases "map_of origins (lr_lot_id r)")
    case (Some t)
    let ?open = "open_lot L \<lparr>lot_id = hash_of_byte (CHR 0x00), lot_tenant = lb_tenant b, lot_asset = asset, lot_venue = to_venue,
      lot_atoms = lr_atoms r, lot_cost_basis = lr_basis_relieved r, lot_acquisition_fee = lr_fee_relieved r,
      lot_acquired_at = t, lot_source_event = ev, lot_moved_from = Some (lr_lot_id r)\<rparr> b"
    obtain x b' where b': "?open = (x, b')" by (cases ?open)
    then have "opens_only L b b'" using open_lot_opens by (metis snd_conv)
    moreover have "opens_only L b' (snd (reopen L asset to_venue ev origins rs b'))" by (rule Cons.IH)
    ultimately show ?thesis
      using Some b' by (cases x) (auto simp: opens_only_def split: prod.splits sum.splits)
  qed (simp add: opens_only_def)
qed (simp add: opens_only_def)

lemma dispose_relief:
  "snd (dispose asset venue n m policy proceeds b) = b \<or> (\<exists>plan. snd (dispose asset venue n m policy proceeds b) = snd (apply_relief plan b))"
proof (cases "and_then (plan_relief asset venue n m b) (\<lambda>plan. and_then (basis_currency plan (lb_lots b)) (\<lambda>currency.
    if amt_asset proceeds \<noteq> currency then Inl CurrencyMismatch else Inr (plan, currency)))")
  case (Inl e)
  then show ?thesis by (simp add: dispose_def)
next
  case (Inr x)
  obtain plan currency where x: "x = (plan, currency)" by (cases x)
  have "snd (dispose asset venue n m policy proceeds b) = snd (apply_relief plan b)"
    by (cases "apply_relief plan b"; cases "fst (apply_relief plan b)") (auto simp: dispose_def Inr x)
  then show ?thesis by blast
qed

lemma transfer_relief:
  obtains b1 where "lot_place ` set (lb_lots b1) \<subseteq> lot_place ` set (lb_lots b)"
    "opens_only L b1 (snd (transfer L asset from_venue to_venue n ev b))"
proof (cases "and_then (plan_relief asset from_venue n Fifo b) (\<lambda>plan.
    and_then (plan_origins (lb_lots b) plan) (\<lambda>origins. Inr (plan, origins)))")
  case (Inl e)
  then show thesis by (intro that [of b]) (simp_all add: transfer_def opens_only_def)
next
  case (Inr x)
  obtain plan origins where x: "x = (plan, origins)" by (cases x)
  obtain r b1 where b1: "apply_relief plan b = (r, b1)" by (cases "apply_relief plan b")
  have "lot_place ` set (lb_lots b1) \<subseteq> lot_place ` set (lb_lots b)" using apply_relief_place [of plan b] b1 by simp
  moreover have "opens_only L b1 (snd (transfer L asset from_venue to_venue n ev b))"
    using reopen_opens by (cases r) (simp_all add: transfer_def Inr x b1 opens_only_def)
  ultimately show thesis by (rule that)
qed

lemma lot_step_places:
  "l \<in> set (lb_lots (lot_step L x b)) \<Longrightarrow> as_opened L l \<or> lot_place l \<in> lot_place ` set (lb_lots b)"
proof (cases x)
  case (Acquire asset venue atoms basis fee t ev)
  assume "l \<in> set (lb_lots (lot_step L x b))"
  moreover have "opens_only L b (lot_step L x b)"
    using open_lot_opens by (auto simp: Acquire acquire_def opens_only_def [of L b b])
  ultimately show ?thesis by (auto simp: opens_only_def)
next
  case (Dispose asset venue atoms m policy proceeds)
  assume "l \<in> set (lb_lots (lot_step L x b))"
  then show ?thesis
    using dispose_relief [of asset venue atoms m policy proceeds b] apply_relief_place by (fastforce simp: Dispose)
next
  case (Transfer asset from_venue to_venue atoms ev)
  assume l: "l \<in> set (lb_lots (lot_step L x b))"
  obtain b1 where b1: "lot_place ` set (lb_lots b1) \<subseteq> lot_place ` set (lb_lots b)"
    "opens_only L b1 (snd (transfer L asset from_venue to_venue atoms ev b))"
    by (rule transfer_relief)
  then show ?thesis using l by (auto simp: Transfer opens_only_def)
qed

lemma lot_books_head: "b \<in> set (lot_books L ops b)"
  by (cases ops) simp_all

lemma rooted_step:
  assumes "rooted roots (lb_lots b)" and "{l. as_opened L l \<and> l \<in> set (lb_lots (lot_step L x b))} \<subseteq> roots"
  shows "rooted roots (lb_lots (lot_step L x b))"
  unfolding rooted_def
proof (rule image_subsetI)
  fix l assume l: "l \<in> set (lb_lots (lot_step L x b))"
  from lot_step_places [OF this] show "lot_place l \<in> lot_place ` roots"
  proof
    assume "as_opened L l"
    with l assms(2) show ?thesis by auto
  next
    assume "lot_place l \<in> lot_place ` set (lb_lots b)"
    with assms(1) show ?thesis by (auto simp: rooted_def)
  qed
qed

lemma rooted_coherent:
  assumes "libs_ok L" and "rooted roots lots" and "\<forall>l \<in> roots. as_opened L l"
    and "no_collision L ((\<lambda>l. preimage L (lot_env L l)) ` roots)"
  shows "coherent lots"
  unfolding coherent_def
proof (intro ballI impI)
  fix l m assume lm: "l \<in> set lots" "m \<in> set lots" "lot_id l = lot_id m"
  have "lot_place l \<in> lot_place ` roots" "lot_place m \<in> lot_place ` roots"
    using assms(2) lm(1,2) unfolding rooted_def by auto
  then obtain r s where rs: "r \<in> roots" "s \<in> roots" "lot_place l = lot_place r" "lot_place m = lot_place s" by auto
  then have ids: "lot_id r = lot_id s" using lm(3) by (simp add: lot_place_def)
  have "compute_lot_id L r = compute_lot_id L s" using rs(1,2) ids assms(3) by (simp add: as_opened_def)
  then have "preimage L (lot_env L r) = preimage L (lot_env L s)"
    using rs(1,2) by (intro no_collisionD [OF assms(4)]) (auto simp: compute_lot_id_total [OF assms(1)] sha256_def)
  then have "lot_env L r = lot_env L s"
    by (intro preimage_inject [OF assms(1)]) (simp_all add: json_ok_shallow)
  then have "r = s" using lot_env_inject [OF assms(1) ids] by simp
  with rs show "lot_place l = lot_place m" by simp
qed

lemma lot_books_typed:
  assumes "libs_ok L" and "\<forall>l \<in> roots. as_opened L l" and "no_collision L ((\<lambda>l. preimage L (lot_env L l)) ` roots)"
    and "list_all lot_op_typed ops" and "openings L ops b \<subseteq> roots" and "lb_typed b" and "rooted roots (lb_lots b)"
  shows "list_all lb_typed (lot_books L ops b)"
  using assms(4-7)
proof (induction ops arbitrary: b)
  case (Cons x ops)
  let ?b = "lot_step L x b"
  have "openings L ops ?b \<subseteq> roots" using Cons.prems(2) by (auto simp: openings_def)
  moreover have "lb_typed ?b"
    using Cons.prems lot_step_typed rooted_coherent [OF assms(1) Cons.prems(4) assms(2,3)] by simp
  moreover have "rooted roots (lb_lots ?b)"
    by (rule rooted_step [OF Cons.prems(4)])
      (use Cons.prems(2) lot_books_head [of ?b L ops] in \<open>auto simp: openings_def\<close>)
  ultimately show ?case using Cons by simp
qed simp

subsection \<open>An emptied lot blocks its position\<close>

lemma take_plan_first:
  "take_plan n (l # ls) = Inr plan \<Longrightarrow> n \<noteq> 0 \<Longrightarrow> \<exists>t plan'. plan = (lot_id l, t) # plan'"
  by (auto simp: Let_def result_simps)

lemma fifo_blocked:
  assumes "sort_key lot_key (filter (at_position asset venue) (lb_lots b)) = l # ls"
    and "find_lot (lot_id l) (lb_lots b) = Some l" and "lot_atoms l = 0"
    and "plan_relief asset venue n Fifo b = Inr plan"
  shows "\<exists>e. apply_relief plan b = (Inl e, b)"
proof -
  obtain t plan' where "plan = (lot_id l, t) # plan'"
    using assms(1,4) take_plan_first [of n l ls plan]
    by (auto simp: plan_relief_def candidates_def result_simps split: if_splits)
  with relief_loop_blocked [OF assms(2,3)] obtain e where "relief_loop plan (lb_lots b) = (Inl e, lb_lots b)" by blast
  then show ?thesis by (simp add: apply_relief_def)
qed

lemma fifo_operations_blocked:
  assumes "sort_key lot_key (filter (at_position asset venue) (lb_lots b)) = l # ls"
    and "find_lot (lot_id l) (lb_lots b) = Some l" and "lot_atoms l = 0"
  shows "\<exists>e. dispose asset venue n Fifo policy proceeds b = (Inl e, b)"
    and "\<exists>e. transfer L asset venue to_venue n ev b = (Inl e, b)"
  using fifo_blocked [OF assms, of n]
  by (cases "plan_relief asset venue n Fifo b",
      auto simp: dispose_def transfer_def result_simps split: sum.splits if_splits)+

text \<open>Replacing a lot by one with the same place in the order leaves it at its place.\<close>

lemma insort_key_image: "lot_key r = lot_key l \<Longrightarrow>
  map (\<lambda>x. if x = l then r else x) (insort_key lot_key x xs) =
    insort_key lot_key (if x = l then r else x) (map (\<lambda>x. if x = l then r else x) xs)"
  by (induction xs) auto

lemma sort_key_image: "lot_key r = lot_key l \<Longrightarrow>
  sort_key lot_key (map (\<lambda>x. if x = l then r else x) xs) = map (\<lambda>x. if x = l then r else x) (sort_key lot_key xs)"
  by (induction xs) (simp_all add: insort_key_image)

lemma update_first_map:
  assumes "distinct (map lot_id lots)" and "find_lot i lots = Some l"
  shows "update_first (\<lambda>x. lot_id x = i) r lots = map (\<lambda>x. if x = l then r else x) lots"
  using assms
proof (induction lots)
  case (Cons x lots)
  show ?case
  proof (cases "lot_id x = i")
    case True
    then have "x = l" "i \<notin> lot_id ` set lots" using Cons.prems by (auto simp: find_lot_def)
    moreover from this have "map (\<lambda>x. if x = l then r else x) lots = lots"
      using True by (intro map_idI) auto
    ultimately show ?thesis using True by simp
  next
    case False
    then have "x \<noteq> l" using Cons.prems find_lot_Some [OF Cons.prems(2)] by auto
    with False Cons show ?thesis by (simp add: find_lot_def)
  qed
qed (simp add: find_lot_def)

lemma sorted_update:
  assumes "distinct (map lot_id lots)" and "find_lot i lots = Some l"
    and "lot_key r = lot_key l" and "at_position asset venue r = at_position asset venue l"
    and "sort_key lot_key (filter (at_position asset venue) lots) = l # ls"
  shows "\<exists>ms. sort_key lot_key (filter (at_position asset venue) (update_first (\<lambda>x. lot_id x = i) r lots)) = r # ms"
proof -
  have "filter (at_position asset venue) (map (\<lambda>x. if x = l then r else x) lots) =
      map (\<lambda>x. if x = l then r else x) (filter (at_position asset venue) lots)"
    using assms(4) by (induction lots) auto
  then show ?thesis
    unfolding update_first_map [OF assms(1,2)] by (simp add: sort_key_image [OF assms(3)] assms(5))
qed

subsection \<open>Properties\<close>

text \<open>C32: The lot book stays well-typed on every path: along any run of acquisitions, disposals and transfers from an
  empty book, whether they succeed or fail half way, and even when acquiring on the same facts twice has opened two
  lots with one id, every lot of every book is either well-formed (a positive quantity, money that is not
  negative, one currency, all within 128 bits) or emptied of atoms and money, and belongs to the book's tenant,
  unless SHA-256 collides on the facts of two lots the run opens.\<close>

theorem lots_runs_typed:
  assumes "libs_ok L" and "list_all lot_op_typed ops"
    and "no_collision L ((\<lambda>l. preimage L (lot_env L l)) ` openings L ops (lb_new tenant))"
  shows "list_all (\<lambda>b. \<forall>l \<in> set (lb_lots b). (lot_ok l \<or> lot_emptied l) \<and> lot_tenant l = lb_tenant b)
    (lot_books L ops (lb_new tenant))"
proof -
  have "list_all lb_typed (lot_books L ops (lb_new tenant))"
    by (rule lot_books_typed [OF assms(1) _ assms(3,2)])
      (auto simp: openings_def lb_typed_def lots_typed_def lb_new_def rooted_def)
  then show ?thesis by (simp add: lb_typed_def lots_typed_def weakly_ok_def list_all_iff)
qed

text \<open>Two acquisitions on the same facts and a disposal that fails half way, under a digest that tells those facts from
  all others.\<close>

definition twin_lot :: lot where
  "twin_lot = \<lparr>lot_id = hash_of_byte (CHR 0x01), lot_tenant = ''acme'', lot_asset = ''BTC'', lot_venue = ''cold'', lot_atoms = 10,
     lot_cost_basis = amount_new ''USD'' 100, lot_acquisition_fee = amount_new ''USD'' 3, lot_acquired_at = 5,
     lot_source_event = hash_of_byte (CHR 0x01), lot_moved_from = None\<rparr>"

definition twin_libs :: libs where
  "twin_libs = telling_libs (lot_env (demo_libs (\<lambda>_. hash_of_byte (CHR 0x00))) twin_lot)"

definition twin_ops :: "lot_op list" where
  "twin_ops = [Acquire ''BTC'' ''cold'' 10 (amount_new ''USD'' 100) (amount_new ''USD'' 3) 5 (hash_of_byte (CHR 0x01)),
     Acquire ''BTC'' ''cold'' 10 (amount_new ''USD'' 100) (amount_new ''USD'' 3) 5 (hash_of_byte (CHR 0x01)),
     Dispose ''BTC'' ''cold'' 15 Fifo (hash_of_byte (CHR 0x09)) (amount_new ''USD'' 500)]"

lemma twin_libs_ok [simp]: "libs_ok twin_libs"
  by (simp add: twin_libs_def)

lemma lot_env_demo: "lot_env (demo_libs g) l = lot_env (demo_libs h) l"
proof -
  have hex: "to_hex (demo_libs g) = to_hex (demo_libs h)" by (simp add: fun_eq_iff to_hex_def demo_libs_def)
  then have "hash_json (demo_libs g) = hash_json (demo_libs h)" by (simp add: fun_eq_iff hash_json_def)
  with hex show ?thesis by (simp only: lot_env_def)
qed

lemma twin_env: "lot_env twin_libs l = lot_env (demo_libs (\<lambda>_. hash_of_byte (CHR 0x00))) l"
  unfolding twin_libs_def telling_libs_def by (rule lot_env_demo)

lemma twin_id: "compute_lot_id twin_libs l = Inr (hash_of_byte (if lot_env twin_libs l = lot_env twin_libs twin_lot then CHR 0x01 else CHR 0x02))"
proof -
  let ?D = "demo_libs (\<lambda>_. hash_of_byte (CHR 0x00))"
  have "preimage twin_libs (lot_env twin_libs l) = preimage ?D (lot_env ?D l)"
    unfolding twin_env unfolding twin_libs_def telling_libs_def by (rule preimage_demo)
  moreover have "preimage ?D (lot_env ?D l) = preimage ?D (lot_env ?D twin_lot) \<longleftrightarrow> lot_env ?D l = lot_env ?D twin_lot"
    using preimage_inject [of ?D "lot_env ?D l" "lot_env ?D twin_lot"] by (auto simp: json_ok_shallow)
  ultimately show ?thesis
    unfolding compute_lot_id_total [OF twin_libs_ok] unfolding twin_env by (simp add: twin_libs_def telling_libs_def demo_libs_sha sha256_def)
qed

lemma twin_books:
  "lot_books twin_libs twin_ops (lb_new ''acme'') = [lb_new ''acme'', \<lparr>lb_tenant = ''acme'', lb_lots = [twin_lot]\<rparr>,
     \<lparr>lb_tenant = ''acme'', lb_lots = [twin_lot, twin_lot]\<rparr>, \<lparr>lb_tenant = ''acme'', lb_lots = [remainder 10 twin_lot, twin_lot]\<rparr>]"
proof -
  let ?a = "acquire twin_libs ''BTC'' ''cold'' 10 (amount_new ''USD'' 100) (amount_new ''USD'' 3) 5 (hash_of_byte (CHR 0x01))"
  have "lot_env twin_libs (twin_lot\<lparr>lot_id := i\<rparr>) = lot_env twin_libs twin_lot" for i by (simp add: lot_env_def)
  then have "compute_lot_id twin_libs (twin_lot\<lparr>lot_id := i\<rparr>) = Inr (hash_of_byte (CHR 0x01))" for i by (simp add: twin_id)
  note id = this [of "hash_of_byte (CHR 0x00)", unfolded twin_lot_def, simplified]
  have acquired: "snd (?a b) = b\<lparr>lb_lots := lb_lots b @ [twin_lot]\<rparr>" if "lb_tenant b = ''acme''" for b
    using that by (simp add: acquire_def open_lot_def id twin_lot_def)
  have "snd (dispose ''BTC'' ''cold'' 15 Fifo (hash_of_byte (CHR 0x09)) (amount_new ''USD'' 500)
      \<lparr>lb_tenant = ''acme'', lb_lots = [twin_lot, twin_lot]\<rparr>) = \<lparr>lb_tenant = ''acme'', lb_lots = [remainder 10 twin_lot, twin_lot]\<rparr>"
    by (simp add: twin_lot_def dispose_def plan_relief_def candidates_def at_position_def lot_key_def
        i128_ops i128_opt_def in_i128_def basis_currency_def find_lot_def apply_relief_def relieve_lot_def
        pro_rata_def sdiv_nonneg Let_def remainder_def lot_part_def)
  with acquired show ?thesis by (simp add: twin_ops_def lb_new_def)
qed

theorem lots_runs_typed_witness:
  "list_all (\<lambda>b. \<forall>l \<in> set (lb_lots b). (lot_ok l \<or> lot_emptied l) \<and> lot_tenant l = lb_tenant b)
     (lot_books twin_libs twin_ops (lb_new ''acme''))"
proof (rule lots_runs_typed)
  have "\<not> as_opened twin_libs (remainder 10 twin_lot)"
  proof
    assume "as_opened twin_libs (remainder 10 twin_lot)"
    then have "lot_env twin_libs (remainder 10 twin_lot) = lot_env twin_libs twin_lot"
      unfolding as_opened_def twin_id by (simp add: twin_lot_def split: if_splits)
    then show False by (simp add: lot_env_inject) (simp add: twin_lot_def remainder_def)
  qed
  then have "openings twin_libs twin_ops (lb_new ''acme'') \<subseteq> {twin_lot}"
    unfolding openings_def twin_books by (auto simp: lb_new_def)
  then have "(\<lambda>l. preimage twin_libs (lot_env twin_libs l)) ` openings twin_libs twin_ops (lb_new ''acme'') \<subseteq>
      {preimage twin_libs (lot_env twin_libs twin_lot)}" by auto
  then show "no_collision twin_libs ((\<lambda>l. preimage twin_libs (lot_env twin_libs l)) ` openings twin_libs twin_ops (lb_new ''acme''))"
    by (rule no_collision_mono [rotated]) (simp add: no_collision_def)
qed (simp_all add: twin_ops_def in_i128_def amount_wf_def)

text \<open>A lot named twice: the sufficiency check counts it twice, the first relief empties it, the second divides by zero.\<close>

lemma named_twice:
  assumes "lot_ok l" and "find_lot (lot_id l) (lb_lots b) = Some l" and "at_position asset venue l"
    and "relief_fits (lot_atoms l) l" and "lot_atoms l < n" and "n \<le> 2 * lot_atoms l" and "in_i128 (2 * lot_atoms l)"
    and "amt_asset proceeds = amt_asset (lot_cost_basis l)"
  shows "dispose asset venue n (SpecificLots [lot_id l, lot_id l]) policy proceeds b =
    (Inl LotOverflow, b\<lparr>lb_lots := update_first (\<lambda>x. lot_id x = lot_id l) (remainder (lot_atoms l) l) (lb_lots b)\<rparr>)"
proof -
  let ?a = "lot_atoms l" and ?r = "remainder (lot_atoms l) l"
  have a: "0 < ?a" "in_i128 ?a" using assms(1) by (simp_all add: lot_ok_def)
  then have small: "in_i128 (n - ?a)" "in_i128 (?a + ?a)" using assms(5-7) by (auto simp: in_i128_def)
  have "candidates asset venue (SpecificLots [lot_id l, lot_id l]) (lb_lots b) = Inr [l, l]"
    by (simp add: candidates_def assms(2,3))
  then have plan: "plan_relief asset venue n (SpecificLots [lot_id l, lot_id l]) b = Inr [(lot_id l, ?a), (lot_id l, n - ?a)]"
    using a small assms(5,6) by (simp add: plan_relief_def i128_ops i128_opt_def in_i128_def min_def Let_def)
  have currency: "basis_currency [(lot_id l, ?a), (lot_id l, n - ?a)] (lb_lots b) = Inr (amt_asset (lot_cost_basis l))"
    by (simp add: basis_currency_def assms(2))
  have first: "relieve_lot ?a l = (Inr (relief_of ?a l), ?r)"
    using relieve_lot_eq [OF assms(1) a(1)] assms(4) by simp
  have found: "find_lot (lot_id l) (update_first (\<lambda>x. lot_id x = lot_id l) ?r (lb_lots b)) = Some ?r"
    by (rule find_update_same [OF _ assms(2)]) simp
  have "relieve_lot (n - ?a) ?r = (Inl LotOverflow, ?r)"
    using a by (simp add: relieve_lot_def pro_rata_def i128_ops i128_opt_def lot_part_def)
  then have "relief_loop [(lot_id l, ?a), (lot_id l, n - ?a)] (lb_lots b) =
      (Inl LotOverflow, update_first (\<lambda>x. lot_id x = lot_id l) ?r (lb_lots b))"
    using update_found [OF found] by (simp add: assms(2) first found)
  then show ?thesis by (simp add: dispose_def plan currency assms(8) apply_relief_def)
qed



text \<open>Acquiring on the same facts twice opens two lots with one id, which the lookups by id cannot tell apart:
  the position reports both quantities, but a disposal that needs the second lot finds the first one again,
  already emptied, and fails with the first one's atoms and basis gone.\<close>

theorem lots_double_acquisition_unsellable:
  assumes "libs_ok L"
  shows "let a = acquire L ''BTC'' ''cold'' 10 (amount_new ''USD'' 100) (amount_new ''USD'' 3) 5 (hash_of_byte (CHR 0x01));
    b = snd (a (snd (a (lb_new ''acme'')))) in
    held b ''BTC'' ''cold'' = 20 \<and>
    (\<exists>b'. dispose ''BTC'' ''cold'' 15 Fifo (hash_of_byte (CHR 0x09)) (amount_new ''USD'' 500) b = (Inl LotOverflow, b') \<and>
      basis_in ''USD'' (lb_lots b) = 200 \<and> basis_in ''USD'' (lb_lots b') = 100)"
proof -
  define l where "l = \<lparr>lot_id = hash_of_byte (CHR 0x00), lot_tenant = ''acme'', lot_asset = ''BTC'', lot_venue = ''cold'', lot_atoms = 10,
    lot_cost_basis = amount_new ''USD'' 100, lot_acquisition_fee = amount_new ''USD'' 3, lot_acquired_at = 5,
    lot_source_event = hash_of_byte (CHR 0x01), lot_moved_from = None\<rparr>"
  obtain i where i: "compute_lot_id L l = Inr i" using compute_lot_id_total [OF assms] by blast
  let ?a = "acquire L ''BTC'' ''cold'' 10 (amount_new ''USD'' 100) (amount_new ''USD'' 3) 5 (hash_of_byte (CHR 0x01))"
  have "snd (?a b) = b\<lparr>lb_lots := lb_lots b @ [l\<lparr>lot_id := i\<rparr>]\<rparr>" if "lb_tenant b = ''acme''" for b
    using i that by (simp add: acquire_def open_lot_def l_def)
  then have two: "snd (?a (snd (?a (lb_new ''acme'')))) = \<lparr>lb_tenant = ''acme'', lb_lots = [l\<lparr>lot_id := i\<rparr>, l\<lparr>lot_id := i\<rparr>]\<rparr>"
    by (simp add: lb_new_def)
  show ?thesis
    unfolding Let_def two
    by (simp add: l_def dispose_def plan_relief_def candidates_def at_position_def lot_key_def held_def i128_saturating_add_def
        i128_ops i128_opt_def in_i128_def basis_currency_def find_lot_def apply_relief_def relieve_lot_def
        pro_rata_def sdiv_nonneg Let_def basis_in_def)
qed

end
