(* ===== verification/Close.thy ===== *)
theory Close
  imports Ledger
begin

section \<open>Period close (treasury-close)\<close>

text \<open>
  Models \<open>crates/treasury-close/src/\<close> \<open>checkpoint.rs\<close>, \<open>dag.rs\<close> and \<open>fold.rs\<close>: sealed
  checkpoints per (tenant, period), their reason-coded supersession, the permanent first
  checkpoint, the head, and the state root over the events active at a knowledge time.
  The lemmas show that every lineage is linear (each checkpoint supersedes exactly its
  predecessor, with a reason and a memo), that the head is the last checkpoint unless ids
  collide, and that the state root commits to the active events in stream order.
\<close>

type_synonym period_id = string
type_synonym checkpoint_id = content_hash

datatype supersession_reason = LateData | ProviderRevision | ChainReorg | PolicyCorrection | JudgmentRevision

record checkpoint_draft =
  cd_tenant :: tenant_id
  cd_period :: period_id
  cd_as_of :: timestamp_ns
  cd_state_root :: content_hash
  cd_supersedes :: "checkpoint_id option"
  cd_reason :: "supersession_reason option"
  cd_materiality_memo :: "content_hash option"

record sealed_checkpoint =
  sc_checkpoint_id :: checkpoint_id
  sc_sealed_at :: timestamp_ns
  sc_draft :: checkpoint_draft

definition checkpoint_schema :: string where
  "checkpoint_schema = ''treasury-close/checkpoint/v1''"

fun reason_json :: "supersession_reason \<Rightarrow> json" where
  "reason_json LateData = JString ''late_data''"
| "reason_json ProviderRevision = JString ''provider_revision''"
| "reason_json ChainReorg = JString ''chain_reorg''"
| "reason_json PolicyCorrection = JString ''policy_correction''"
| "reason_json JudgmentRevision = JString ''judgment_revision''"

definition checkpoint_env :: "libs \<Rightarrow> timestamp_ns \<times> checkpoint_draft \<Rightarrow> json" where
  "checkpoint_env L x =
     (case x of (sealed_at, draft) \<Rightarrow>
      json_object [
        (''schema'', JString checkpoint_schema),
        (''tenant'', JString (cd_tenant draft)),
        (''period'', JString (cd_period draft)),
        (''as_of'', time_json (cd_as_of draft)),
        (''sealed_at'', time_json sealed_at),
        (''state_root'', JString (to_hex L (cd_state_root draft))),
        (''supersedes'', json_option (hash_json L) (cd_supersedes draft)),
        (''reason'', json_option reason_json (cd_reason draft)),
        (''materiality_memo'', json_option (hash_json L) (cd_materiality_memo draft))])"

definition checkpoint_compute_id :: "libs \<Rightarrow> timestamp_ns \<Rightarrow> checkpoint_draft
  \<Rightarrow> (canon_error, checkpoint_id) result" where
  "checkpoint_compute_id L sealed_at draft = content_id L (checkpoint_env L (sealed_at, draft))"

subsection \<open>The checkpoint graph\<close>

type_synonym lineage_key = "tenant_id \<times> period_id"

record checkpoint_dag =
  dag_lineages :: "(lineage_key, sealed_checkpoint list) hashmap"
  dag_by_id :: "(checkpoint_id, tenant_id \<times> period_id \<times> nat) hashmap"
  dag_superseded :: "checkpoint_id set"

datatype close_error =
    NonMonotonicSealTime timestamp_ns timestamp_ns
  | InitialWithCorrectionFields
  | ParallelInitialCheckpoint
  | SupersessionWithoutJustification
  | CpSupersedeTargetMissing checkpoint_id
  | SupersedeAcrossLineage checkpoint_id
  | CpAlreadySuperseded checkpoint_id
  | CloseCanon canon_error

definition dag_new :: checkpoint_dag where
  "dag_new = \<lparr>dag_lineages = [], dag_by_id = [], dag_superseded = {}\<rparr>"

definition dag_lineage :: "checkpoint_dag \<Rightarrow> tenant_id \<Rightarrow> period_id \<Rightarrow> sealed_checkpoint list" where
  "dag_lineage g tenant period =
     (case hm_get (dag_lineages g) (tenant, period) of None \<Rightarrow> [] | Some l \<Rightarrow> l)"

definition dag_check_time :: "checkpoint_draft \<Rightarrow> timestamp_ns \<Rightarrow> checkpoint_dag \<Rightarrow> (close_error, unit) result" where
  "dag_check_time draft sealed_at g =
     (case hm_get (dag_lineages g) (cd_tenant draft, cd_period draft) of
        None \<Rightarrow> Inr ()
      | Some l \<Rightarrow>
          if l \<noteq> [] \<and> sealed_at \<le> sc_sealed_at (last l)
          then Inl (NonMonotonicSealTime (sc_sealed_at (last l)) sealed_at)
          else Inr ())"

definition dag_check_supersedes :: "checkpoint_draft \<Rightarrow> checkpoint_dag \<Rightarrow> (close_error, unit) result" where
  "dag_check_supersedes draft g =
     (case cd_supersedes draft of
        None \<Rightarrow>
          if cd_reason draft \<noteq> None \<or> cd_materiality_memo draft \<noteq> None then Inl InitialWithCorrectionFields
          else (case hm_get (dag_lineages g) (cd_tenant draft, cd_period draft) of
                  None \<Rightarrow> Inr ()
                | Some l \<Rightarrow> if l \<noteq> [] then Inl ParallelInitialCheckpoint else Inr ())
      | Some target_id \<Rightarrow>
          if cd_reason draft = None \<or> cd_materiality_memo draft = None
          then Inl SupersessionWithoutJustification
          else and_then (ok_or (CpSupersedeTargetMissing target_id) (hm_get (dag_by_id g) target_id))
            (\<lambda>(t_tenant, t_period, _).
              if t_tenant \<noteq> cd_tenant draft \<or> t_period \<noteq> cd_period draft
              then Inl (SupersedeAcrossLineage target_id)
              else if target_id \<in> dag_superseded g then Inl (CpAlreadySuperseded target_id)
              else Inr ()))"

definition dag_admit :: "libs \<Rightarrow> checkpoint_draft \<Rightarrow> timestamp_ns \<Rightarrow> checkpoint_dag
  \<Rightarrow> (close_error, sealed_checkpoint) result" where
  "dag_admit L draft sealed_at g =
     and_then (dag_check_time draft sealed_at g) (\<lambda>_.
     and_then (dag_check_supersedes draft g) (\<lambda>_.
     and_then (map_err CloseCanon (checkpoint_compute_id L sealed_at draft)) (\<lambda>i.
       Inr \<lparr>sc_checkpoint_id = i, sc_sealed_at = sealed_at, sc_draft = draft\<rparr>)))"

definition dag_push :: "sealed_checkpoint \<Rightarrow> checkpoint_dag \<Rightarrow> checkpoint_dag" where
  "dag_push sealed g =
     (let tenant = cd_tenant (sc_draft sealed); period = cd_period (sc_draft sealed);
          l = dag_lineage g tenant period in
      \<lparr>dag_lineages = hm_insert (tenant, period) (l @ [sealed]) (dag_lineages g),
       dag_by_id = hm_insert (sc_checkpoint_id sealed) (tenant, period, length l) (dag_by_id g),
       dag_superseded = (case cd_supersedes (sc_draft sealed) of
          None \<Rightarrow> dag_superseded g | Some s \<Rightarrow> insert s (dag_superseded g))\<rparr>)"

definition dag_seal :: "libs \<Rightarrow> checkpoint_draft \<Rightarrow> timestamp_ns \<Rightarrow> checkpoint_dag
  \<Rightarrow> (close_error, checkpoint_id) result \<times> checkpoint_dag" where
  "dag_seal L draft sealed_at g =
     (case dag_admit L draft sealed_at g of
        Inl e \<Rightarrow> (Inl e, g)
      | Inr sealed \<Rightarrow> (Inr (sc_checkpoint_id sealed), dag_push sealed g))"

definition dag_as_filed :: "checkpoint_dag \<Rightarrow> tenant_id \<Rightarrow> period_id \<Rightarrow> sealed_checkpoint option" where
  "dag_as_filed g tenant period =
     Option.bind (hm_get (dag_lineages g) (tenant, period)) (\<lambda>l. if l = [] then None else Some (hd l))"

definition dag_head :: "checkpoint_dag \<Rightarrow> tenant_id \<Rightarrow> period_id \<Rightarrow> sealed_checkpoint option" where
  "dag_head g tenant period =
     Option.bind (hm_get (dag_lineages g) (tenant, period))
       (\<lambda>l. List.find (\<lambda>c. sc_checkpoint_id c \<notin> dag_superseded g) (rev l))"

subsection \<open>State roots\<close>

definition state_schema :: string where
  "state_schema = ''treasury-close/state/v1''"

definition state_env :: "libs \<Rightarrow> event_id list \<Rightarrow> json" where
  "state_env L ids = json_object [
     (''schema'', JString state_schema), (''events'', JArray (map (\<lambda>i. JString (to_hex L i)) ids))]"

definition state_root :: "libs \<Rightarrow> sealed_event list \<Rightarrow> (canon_error, content_hash) result" where
  "state_root L events = content_id L (state_env L (map se_event_id events))"

subsection \<open>Identity\<close>

lemma reason_json_simps [simp]:
  "json_ok k (reason_json r)" "reason_json r = reason_json s \<longleftrightarrow> r = s" "reason_json r \<noteq> JNull"
  by ((cases r; simp), (cases r; cases s; simp), (cases r; simp))

lemma reason_option_inject [simp]:
  "json_option reason_json v = json_option reason_json w \<longleftrightarrow> v = w"
  by (rule json_option_inject) simp_all

lemma checkpoint_env_ok [simp]: "json_ok (Suc (Suc k)) (checkpoint_env L x)"
  by (cases x) (simp add: checkpoint_env_def)

lemma checkpoint_env_inject:
  "libs_ok L \<Longrightarrow> checkpoint_env L x = checkpoint_env L y \<longleftrightarrow> x = y"
  by (cases x; cases y; cases "snd x"; cases "snd y") (auto simp: checkpoint_env_def json_object_inject)

interpretation checkpoint_identity: artifact checkpoint_env "\<lambda>x. True"
  by unfold_locales (simp_all add: json_ok_shallow checkpoint_env_inject)

lemma state_env_ok [simp]: "json_ok (Suc (Suc k)) (state_env L x)"
  by (simp add: state_env_def)

interpretation state_identity: artifact state_env "\<lambda>x. True"
proof
  fix x y L
  show "json_ok max_depth (state_env L x)" by (simp add: json_ok_shallow)
  show "libs_ok L \<Longrightarrow> state_env L x = state_env L y \<Longrightarrow> x = y"
    by (simp add: state_env_def json_object_inject hex_list_inject)
qed

subsection \<open>Lineages\<close>

lemma lineage_push:
  "dag_lineage (dag_push c g) tenant period =
     (if (tenant, period) = (cd_tenant (sc_draft c), cd_period (sc_draft c))
      then dag_lineage g tenant period @ [c] else dag_lineage g tenant period)"
  by (simp add: dag_lineage_def dag_push_def Let_def)

lemma dag_check_time_Inr [result_simps]:
  "dag_check_time d t g = Inr u \<longleftrightarrow>
     dag_lineage g (cd_tenant d) (cd_period d) = [] \<or>
     sc_sealed_at (last (dag_lineage g (cd_tenant d) (cd_period d))) < t"
  by (auto simp: dag_check_time_def dag_lineage_def split: option.splits if_splits)

lemma dag_check_supersedes_Inr [result_simps]:
  "dag_check_supersedes d g = Inr u \<longleftrightarrow>
     (case cd_supersedes d of
        None \<Rightarrow> cd_reason d = None \<and> cd_materiality_memo d = None \<and> dag_lineage g (cd_tenant d) (cd_period d) = []
      | Some x \<Rightarrow> cd_reason d \<noteq> None \<and> cd_materiality_memo d \<noteq> None \<and> x \<notin> dag_superseded g \<and>
          (\<exists>i. hm_get (dag_by_id g) x = Some (cd_tenant d, cd_period d, i)))"
  by (auto simp: dag_check_supersedes_def dag_lineage_def result_simps split: option.splits if_splits)

lemma dag_admit_Inr:
  "dag_admit L d t g = Inr c \<longleftrightarrow>
     dag_check_time d t g = Inr () \<and> dag_check_supersedes d g = Inr () \<and>
     (\<exists>x. checkpoint_compute_id L t d = Inr x \<and>
       c = \<lparr>sc_checkpoint_id = x, sc_sealed_at = t, sc_draft = d\<rparr>)"
  by (auto simp: dag_admit_def result_simps)

text \<open>
  Each lineage starts with a checkpoint that supersedes nothing, and every later one supersedes
  its predecessor, justified by a reason and a memo.
\<close>

definition linear :: "sealed_checkpoint list \<Rightarrow> bool" where
  "linear l \<longleftrightarrow>
     (\<forall>k < length l. case k of
        0 \<Rightarrow> cd_supersedes (sc_draft (l ! k)) = None
      | Suc j \<Rightarrow> cd_supersedes (sc_draft (l ! k)) = Some (sc_checkpoint_id (l ! j)) \<and>
          cd_reason (sc_draft (l ! k)) \<noteq> None \<and> cd_materiality_memo (sc_draft (l ! k)) \<noteq> None)"

definition cp_targets :: "sealed_checkpoint list \<Rightarrow> checkpoint_id set" where
  "cp_targets l = {x. \<exists>c \<in> set l. cd_supersedes (sc_draft c) = Some x}"

definition lineage_ok :: "libs \<Rightarrow> lineage_key \<Rightarrow> sealed_checkpoint list \<Rightarrow> bool" where
  "lineage_ok L k l \<longleftrightarrow>
     linear l \<and> sorted_wrt (<) (map sc_sealed_at l) \<and>
     (\<forall>c \<in> set l. cd_tenant (sc_draft c) = fst k \<and> cd_period (sc_draft c) = snd k \<and>
        checkpoint_compute_id L (sc_sealed_at c) (sc_draft c) = Inr (sc_checkpoint_id c))"

definition dag_index_ok :: "checkpoint_dag \<Rightarrow> bool" where
  "dag_index_ok g \<longleftrightarrow>
     (\<forall>x tenant period i. hm_get (dag_by_id g) x = Some (tenant, period, i) \<longrightarrow>
        i < length (dag_lineage g tenant period) \<and> sc_checkpoint_id (dag_lineage g tenant period ! i) = x)"

definition dag_inv :: "libs \<Rightarrow> checkpoint_dag \<Rightarrow> bool" where
  "dag_inv L g \<longleftrightarrow>
     (\<forall>tenant period. lineage_ok L (tenant, period) (dag_lineage g tenant period)) \<and> dag_index_ok g \<and>
     dag_superseded g = (\<Union>k. cp_targets (dag_lineage g (fst k) (snd k)))"

lemma lineage_new [simp]: "dag_lineage dag_new tenant period = []"
  by (simp add: dag_lineage_def dag_new_def)

lemma dag_inv_new: "dag_inv L dag_new"
  by (simp add: dag_inv_def lineage_ok_def linear_def dag_index_ok_def cp_targets_def)
    (simp add: dag_new_def)

lemma linear_snoc:
  assumes "linear l" and "l = [] \<Longrightarrow> cd_supersedes (sc_draft c) = None"
    and "l \<noteq> [] \<Longrightarrow> cd_supersedes (sc_draft c) = Some (sc_checkpoint_id (last l)) \<and>
      cd_reason (sc_draft c) \<noteq> None \<and> cd_materiality_memo (sc_draft c) \<noteq> None"
  shows "linear (l @ [c])"
  unfolding linear_def
proof (intro allI impI)
  fix k assume k: "k < length (l @ [c])"
  show "case k of 0 \<Rightarrow> cd_supersedes (sc_draft ((l @ [c]) ! k)) = None
      | Suc j \<Rightarrow> cd_supersedes (sc_draft ((l @ [c]) ! k)) = Some (sc_checkpoint_id ((l @ [c]) ! j)) \<and>
          cd_reason (sc_draft ((l @ [c]) ! k)) \<noteq> None \<and> cd_materiality_memo (sc_draft ((l @ [c]) ! k)) \<noteq> None"
  proof (cases "k < length l")
    case True
    then show ?thesis using assms(1) by (auto simp: linear_def nth_append split: nat.splits)
  next
    case False
    then have "k = length l" using k by simp
    then show ?thesis
      using assms(2,3) by (cases "l = []") (auto simp: nth_append last_conv_nth split: nat.splits)
  qed
qed

text \<open>In a linear lineage every checkpoint but the last is superseded, so only the last one can
  still be the target of a correction.\<close>

lemma linear_superseded:
  "linear l \<Longrightarrow> Suc i < length l \<Longrightarrow> sc_checkpoint_id (l ! i) \<in> cp_targets l"
  unfolding linear_def cp_targets_def by (force dest: spec [of _ "Suc i"] intro: nth_mem)

lemma lineage_ok_push:
  assumes "dag_inv L g" and "dag_admit L d t g = Inr c"
  shows "lineage_ok L (cd_tenant d, cd_period d) (dag_lineage g (cd_tenant d) (cd_period d) @ [c])"
proof -
  let ?l = "dag_lineage g (cd_tenant d) (cd_period d)"
  obtain x where c: "c = \<lparr>sc_checkpoint_id = x, sc_sealed_at = t, sc_draft = d\<rparr>"
    and x: "checkpoint_compute_id L t d = Inr x" and time: "?l = [] \<or> sc_sealed_at (last ?l) < t"
    and sup: "dag_check_supersedes d g = Inr ()"
    using assms(2) by (auto simp: dag_admit_Inr result_simps)
  have l: "linear ?l" "sorted_wrt (<) (map sc_sealed_at ?l)"
    and keys: "\<forall>c \<in> set ?l. cd_tenant (sc_draft c) = cd_tenant d \<and> cd_period (sc_draft c) = cd_period d \<and>
        checkpoint_compute_id L (sc_sealed_at c) (sc_draft c) = Inr (sc_checkpoint_id c)"
    using assms(1) by (auto simp: dag_inv_def lineage_ok_def)
  have "linear (?l @ [c])"
  proof (rule linear_snoc [OF l(1)])
    show "cd_supersedes (sc_draft c) = None" if "?l = []"
    proof (cases "cd_supersedes d")
      case (Some y)
      then obtain i where "hm_get (dag_by_id g) y = Some (cd_tenant d, cd_period d, i)"
        using sup by (auto simp: result_simps)
      then have "i < length ?l" using assms(1) unfolding dag_inv_def dag_index_ok_def by blast
      then show ?thesis using that by simp
    qed (simp add: c)
    show "cd_supersedes (sc_draft c) = Some (sc_checkpoint_id (last ?l)) \<and>
      cd_reason (sc_draft c) \<noteq> None \<and> cd_materiality_memo (sc_draft c) \<noteq> None" if ne: "?l \<noteq> []"
    proof -
      obtain y i where y: "cd_supersedes d = Some y" "cd_reason d \<noteq> None" "cd_materiality_memo d \<noteq> None"
        "y \<notin> dag_superseded g" "hm_get (dag_by_id g) y = Some (cd_tenant d, cd_period d, i)"
        using sup ne by (auto simp: result_simps split: option.splits)
      then have i: "i < length ?l" "sc_checkpoint_id (?l ! i) = y"
        using assms(1) by (auto simp: dag_inv_def dag_index_ok_def)
      have "\<not> Suc i < length ?l"
      proof
        assume "Suc i < length ?l"
        then have "y \<in> cp_targets ?l" using linear_superseded [OF l(1)] i(2) by blast
        moreover have "dag_superseded g = (\<Union>k. cp_targets (dag_lineage g (fst k) (snd k)))"
          using assms(1) by (simp add: dag_inv_def)
        ultimately have "y \<in> dag_superseded g" by (auto intro: exI [of _ "cd_tenant d"] exI [of _ "cd_period d"])
        with y(4) show False ..
      qed
      then have "i = length ?l - 1" using i(1) by simp
      then have "?l ! i = last ?l" using ne by (simp add: last_conv_nth)
      with y i c show ?thesis by simp
    qed
  qed
  moreover have "sorted_wrt (<) (map sc_sealed_at (?l @ [c]))"
  proof (cases ?l rule: rev_cases)
    case (snoc ys y)
    then have "sc_sealed_at z < t" if "z \<in> set ?l" for z
      using that time l(2) by (auto simp: sorted_wrt_append)
    then show ?thesis using l(2) by (simp add: sorted_wrt_append c)
  qed simp
  ultimately show ?thesis using keys x by (simp add: lineage_ok_def c)
qed

lemma cp_targets_snoc [simp]:
  "cp_targets (l @ [c]) = cp_targets l \<union> set_option (cd_supersedes (sc_draft c))" "cp_targets [] = {}"
  by (auto simp: cp_targets_def)

lemma dag_inv_push:
  assumes "dag_inv L g" and "dag_admit L d t g = Inr c"
  shows "dag_inv L (dag_push c g)"
proof -
  have d: "sc_draft c = d" using assms(2) by (auto simp: dag_admit_Inr)
  have "lineage_ok L (tenant, period) (dag_lineage (dag_push c g) tenant period)" for tenant period
    using assms(1) lineage_ok_push [OF assms] by (auto simp: lineage_push d dag_inv_def)
  moreover have "dag_index_ok (dag_push c g)"
  proof -
    have by_id: "hm_get (dag_by_id (dag_push c g)) x = (if x = sc_checkpoint_id c
        then Some (cd_tenant d, cd_period d, length (dag_lineage g (cd_tenant d) (cd_period d)))
        else hm_get (dag_by_id g) x)" for x
      by (simp add: dag_push_def Let_def d)
    show ?thesis using assms(1)
      by (auto simp: dag_inv_def dag_index_ok_def by_id lineage_push d nth_append less_Suc_eq split: if_splits)
  qed
  moreover have "dag_superseded (dag_push c g) = (\<Union>k. cp_targets (dag_lineage (dag_push c g) (fst k) (snd k)))"
  proof -
    have "dag_superseded (dag_push c g) = dag_superseded g \<union> set_option (cd_supersedes d)"
      by (simp add: dag_push_def Let_def d split: option.splits)
    moreover have "dag_superseded g = (\<Union>k. cp_targets (dag_lineage g (fst k) (snd k)))"
      using assms(1) by (simp add: dag_inv_def)
    moreover have "cp_targets (dag_lineage (dag_push c g) (fst k) (snd k)) = cp_targets (dag_lineage g (fst k) (snd k)) \<union>
        (if k = (cd_tenant d, cd_period d) then set_option (cd_supersedes d) else {})" for k
      by (auto simp: lineage_push d)
    ultimately show ?thesis by (auto split: if_splits)
  qed
  ultimately show ?thesis by (simp add: dag_inv_def)
qed

fun dag_run :: "libs \<Rightarrow> (checkpoint_draft \<times> timestamp_ns) list \<Rightarrow> checkpoint_dag \<Rightarrow> checkpoint_dag" where
  "dag_run L [] g = g"
| "dag_run L ((d, t) # ops) g = dag_run L ops (snd (dag_seal L d t g))"

lemma dag_seal_inv: "dag_inv L g \<Longrightarrow> dag_inv L (snd (dag_seal L d t g))"
  by (cases "dag_admit L d t g") (simp_all add: dag_seal_def dag_inv_push)

lemma dag_run_inv: "dag_inv L g \<Longrightarrow> dag_inv L (dag_run L ops g)"
  by (induction L ops g rule: dag_run.induct) (simp_all add: dag_seal_inv)

lemma dag_seal_prefix: "prefix (dag_lineage g k p) (dag_lineage (snd (dag_seal L d t g)) k p)"
  by (cases "dag_admit L d t g") (simp_all add: dag_seal_def lineage_push)

lemma dag_run_prefix: "prefix (dag_lineage g k p) (dag_lineage (dag_run L ops g) k p)"
proof (induction L ops g rule: dag_run.induct)
  case (2 L d t ops g)
  then show ?case using dag_seal_prefix [of g k p L d t] by (simp add: prefix_order.order_trans)
qed simp

lemma as_filed_lineage:
  "dag_as_filed g tenant period =
     (if dag_lineage g tenant period = [] then None else Some (hd (dag_lineage g tenant period)))"
  by (simp add: dag_as_filed_def dag_lineage_def split: option.splits)

lemma head_lineage:
  "dag_head g tenant period =
     List.find (\<lambda>c. sc_checkpoint_id c \<notin> dag_superseded g) (rev (dag_lineage g tenant period))"
  by (simp add: dag_head_def dag_lineage_def split: option.splits)

definition dag_preimages :: "libs \<Rightarrow> checkpoint_dag \<Rightarrow> string set" where
  "dag_preimages L g =
     (\<Union>k. (\<lambda>c. preimage L (checkpoint_env L (sc_sealed_at c, sc_draft c))) ` set (dag_lineage g (fst k) (snd k)))"

lemma same_checkpoint:
  assumes "libs_ok L" and "dag_inv L g" and "no_collision L (dag_preimages L g)"
    and "c \<in> set (dag_lineage g t p)" and "e \<in> set (dag_lineage g u q)"
    and "sc_checkpoint_id c = sc_checkpoint_id e"
  shows "sc_sealed_at c = sc_sealed_at e \<and> sc_draft c = sc_draft e"
proof -
  have ids: "checkpoint_compute_id L (sc_sealed_at c) (sc_draft c) = Inr (sc_checkpoint_id c)"
    "checkpoint_compute_id L (sc_sealed_at e) (sc_draft e) = Inr (sc_checkpoint_id e)"
    using assms(2,4,5) by (auto simp: dag_inv_def lineage_ok_def)
  have "no_collision L {preimage L (checkpoint_env L (sc_sealed_at c, sc_draft c)),
      preimage L (checkpoint_env L (sc_sealed_at e, sc_draft e))}"
    by (rule no_collision_mono [OF assms(3)]) (use assms(4,5) in \<open>auto simp: dag_preimages_def\<close>)
  from checkpoint_identity.hash_determines [OF assms(1) _ _ _ _ this]
  show ?thesis using ids assms(6) by (simp add: checkpoint_compute_id_def)
qed

lemma last_not_superseded:
  assumes "libs_ok L" and "dag_inv L g" and "no_collision L (dag_preimages L g)"
    and "dag_lineage g t p \<noteq> []"
  shows "sc_checkpoint_id (last (dag_lineage g t p)) \<notin> dag_superseded g"
proof
  let ?l = "dag_lineage g t p"
  assume "sc_checkpoint_id (last ?l) \<in> dag_superseded g"
  then obtain u q c where c: "c \<in> set (dag_lineage g u q)" "cd_supersedes (sc_draft c) = Some (sc_checkpoint_id (last ?l))"
    using assms(2) by (auto simp: dag_inv_def cp_targets_def)
  let ?m = "dag_lineage g u q"
  obtain k where k: "k < length ?m" "?m ! k = c" using c(1) by (auto simp: in_set_conv_nth)
  have ok: "lineage_ok L (u, q) ?m" "lineage_ok L (t, p) ?l" using assms(2) by (simp_all add: dag_inv_def)
  obtain j where j: "k = Suc j" "sc_checkpoint_id (?m ! j) = sc_checkpoint_id (last ?l)"
    using ok(1) k c(2) by (cases k) (auto simp: lineage_ok_def linear_def dest: spec [of _ k])
  have m: "?m ! j \<in> set ?m" "last ?l \<in> set ?l" using j(1) k(1) assms(4) by simp_all
  have eq: "sc_sealed_at (?m ! j) = sc_sealed_at (last ?l)" "sc_draft (?m ! j) = sc_draft (last ?l)"
    using same_checkpoint [OF assms(1-3) m j(2)] by simp_all
  then have "(u, q) = (t, p)" using ok m by (auto simp: lineage_ok_def)
  moreover have "last ?l = ?l ! (length ?l - 1)" using assms(4) by (rule last_conv_nth)
  moreover have "sc_sealed_at (?m ! j) < sc_sealed_at (?m ! (length ?m - 1))"
    using ok(1) j(1) k(1) by (auto simp: lineage_ok_def sorted_wrt_iff_nth_less)
  ultimately show False using eq(1) by simp
qed

lemma head_is_last:
  assumes "libs_ok L" and "dag_inv L g" and "no_collision L (dag_preimages L g)"
    and "dag_lineage g t p \<noteq> []"
  shows "dag_head g t p = Some (last (dag_lineage g t p))"
  using last_not_superseded [OF assms] assms(4)
  by (cases "dag_lineage g t p" rule: rev_cases) (simp_all add: head_lineage)

subsection \<open>A concrete lineage\<close>

definition demo_cp :: "checkpoint_id option \<Rightarrow> checkpoint_draft" where
  "demo_cp target = \<lparr>cd_tenant = ''acme'', cd_period = ''2026Q2'', cd_as_of = 20, cd_state_root = hash_of_byte (CHR 0x05),
     cd_supersedes = target, cd_reason = (if target = None then None else Some LateData),
     cd_materiality_memo = (if target = None then None else Some (hash_of_byte (CHR 0x06)))\<rparr>"

lemma checkpoint_id_total:
  "libs_ok L \<Longrightarrow> checkpoint_compute_id L t d = Inr (sha256 L (preimage L (checkpoint_env L (t, d))))"
  by (simp add: checkpoint_compute_id_def checkpoint_identity.hash_total)

lemma demo_seal:
  "dag_run (demo_libs (\<lambda>_. hash_of_byte (CHR 0x01))) [(demo_cp None, 30)] dag_new =
     \<lparr>dag_lineages = [((''acme'', ''2026Q2''),
        [\<lparr>sc_checkpoint_id = hash_of_byte (CHR 0x01), sc_sealed_at = 30, sc_draft = demo_cp None\<rparr>])],
      dag_by_id = [(hash_of_byte (CHR 0x01), (''acme'', ''2026Q2'', 0))], dag_superseded = {}\<rparr>"
  by (simp add: dag_seal_def dag_admit_def dag_check_time_def dag_check_supersedes_def demo_cp_def dag_new_def
      checkpoint_id_total sha256_def dag_push_def dag_lineage_def Let_def hm_insert_def)

subsection \<open>Properties\<close>

text \<open>C16: Whatever sequence of seals a graph has been offered, each period's lineage is linear:
  the first checkpoint supersedes nothing, every later one supersedes exactly its predecessor
  and carries a reason and a materiality memo, and sealing times strictly increase.\<close>

theorem close_lineages_linear:
  "linear (dag_lineage (dag_run L ops dag_new) tenant period) \<and>
   sorted_wrt (<) (map sc_sealed_at (dag_lineage (dag_run L ops dag_new) tenant period))"
  using dag_run_inv [OF dag_inv_new, of L ops] by (simp add: dag_inv_def lineage_ok_def)

text \<open>The as-filed checkpoint of a period is permanent, and the as-corrected head is the last
  checkpoint sealed, unless SHA-256 collides on the checkpoint envelopes of the graph.\<close>

theorem close_as_filed_and_head:
  assumes "libs_ok L" and "dag_as_filed (dag_run L ops dag_new) tenant period = Some c"
    and "no_collision L (dag_preimages L (dag_run L later (dag_run L ops dag_new)))"
  shows "dag_as_filed (dag_run L later (dag_run L ops dag_new)) tenant period = Some c \<and>
    dag_head (dag_run L later (dag_run L ops dag_new)) tenant period =
      Some (last (dag_lineage (dag_run L later (dag_run L ops dag_new)) tenant period))"
proof -
  let ?g = "dag_run L ops dag_new"
  have ne: "dag_lineage ?g tenant period \<noteq> []" "hd (dag_lineage ?g tenant period) = c"
    using assms(2) by (auto simp: as_filed_lineage split: if_splits)
  obtain ys where ys: "dag_lineage (dag_run L later ?g) tenant period = dag_lineage ?g tenant period @ ys"
    using dag_run_prefix [of ?g tenant period L later] by (auto simp: prefix_def)
  have "dag_inv L (dag_run L later ?g)" by (intro dag_run_inv dag_inv_new)
  from head_is_last [OF assms(1) this assms(3), of tenant period] ne ys show ?thesis
    by (simp add: as_filed_lineage)
qed

theorem close_as_filed_and_head_witness:
  "dag_as_filed (dag_run (demo_libs (\<lambda>_. hash_of_byte (CHR 0x01))) [] (dag_run (demo_libs (\<lambda>_. hash_of_byte (CHR 0x01)))
      [(demo_cp None, 30)] dag_new)) ''acme'' ''2026Q2'' =
     Some \<lparr>sc_checkpoint_id = hash_of_byte (CHR 0x01), sc_sealed_at = 30, sc_draft = demo_cp None\<rparr>"
proof -
  let ?L = "demo_libs (\<lambda>_. hash_of_byte (CHR 0x01))" and ?c = "\<lparr>sc_checkpoint_id = hash_of_byte (CHR 0x01), sc_sealed_at = 30, sc_draft = demo_cp None\<rparr>"
  have lin: "dag_lineage (dag_run ?L [(demo_cp None, 30)] dag_new) (fst k) (snd k) =
      (if k = (''acme'', ''2026Q2'') then [?c] else [])" for k
    unfolding demo_seal by (auto simp: dag_lineage_def)
  have "no_collision ?L (dag_preimages ?L (dag_run ?L [] (dag_run ?L [(demo_cp None, 30)] dag_new)))"
    unfolding dag_run.simps(1) dag_preimages_def lin by (auto simp: no_collision_def inj_on_def split: if_splits)
  moreover have "dag_as_filed (dag_run ?L [(demo_cp None, 30)] dag_new) ''acme'' ''2026Q2'' = Some ?c"
    unfolding demo_seal by (simp add: dag_as_filed_def)
  ultimately show ?thesis
    using close_as_filed_and_head [of ?L "[(demo_cp None, 30)]" "''acme''" "''2026Q2''" ?c "[]"] demo_libs_ok by blast
qed

text \<open>A period's state root is reproducible and committing: once the tenant's stream has reached
  the knowledge time a checkpoint was folded at, folding again after any further appends gives the
  same root, and equal roots come from the same active event ids in the same order, unless SHA-256
  collides on the two state envelopes.\<close>

theorem close_state_root_reproducible:
  assumes "libs_ok L" and "lg_stream (lg_run L ops lg_new) tenant \<noteq> []"
    and "t \<le> se_knowledge_time (last (lg_stream (lg_run L ops lg_new) tenant))"
    and "no_collision L {preimage L (state_env L (map se_event_id es)), preimage L (state_env L (map se_event_id fs))}"
  shows "state_root L (lg_as_of (lg_run L later (lg_run L ops lg_new)) tenant t) =
      state_root L (lg_as_of (lg_run L ops lg_new) tenant t) \<and>
    (state_root L es = state_root L fs \<longleftrightarrow> map se_event_id es = map se_event_id fs)"
proof
  show "state_root L (lg_as_of (lg_run L later (lg_run L ops lg_new)) tenant t) =
      state_root L (lg_as_of (lg_run L ops lg_new) tenant t)"
    unfolding lg_run_appends [of L later] mem_ledger.as_of_stable [OF lg_run_new_inv assms(2,3)] ..
  show "state_root L es = state_root L fs \<longleftrightarrow> map se_event_id es = map se_event_id fs"
    using state_identity.hash_determines [OF assms(1) _ _ _ _ assms(4)] state_identity.hash_total [OF assms(1)]
    unfolding state_root_def by metis
qed

theorem close_state_root_reproducible_witness:
  "state_root (demo_libs demo_hash) [demo_event (hash_of_byte (CHR 0x00)) 10 None] =
   state_root (demo_libs demo_hash) (lg_as_of (lg_run (demo_libs demo_hash) [(demo_draft None, 30)]
      (lg_run (demo_libs demo_hash) demo_ops lg_new)) ''acme'' 15)"
proof -
  have "lg_as_of (lg_run (demo_libs demo_hash) demo_ops lg_new) ''acme'' 15 =
      [demo_event (hash_of_byte (CHR 0x00)) 10 None]"
    by (simp add: demo_run lg_as_of_def active_events_def superseded_by_def demo_event_def map_filter_def)
  then show ?thesis
    using close_state_root_reproducible [of "demo_libs demo_hash" demo_ops "''acme''" 15 "[]" "[]" "[(demo_draft None, 30)]"]
    by (simp add: demo_event_def no_collision_def)
qed

end
