(* ===== verification/Anchor.thy ===== *)
theory Anchor
  imports Aggregation Evidence_File Amount
begin

section \<open>Anchoring (treasury-anchor)\<close>

text \<open>
  Models \<open>crates/treasury-anchor/src/\<close> \<open>receipt.rs\<close>, \<open>policy.rs\<close>, \<open>log.rs\<close>, \<open>pipeline.rs\<close> and
  \<open>submitter.rs\<close>. \<open>verify_against\<close> is generic over the evidence store, so it takes the store's
  \<open>tree_head_at\<close> and \<open>len\<close>; what it promises for every backend is proved in the context of the
  locale \<open>evidence_store\<close>. The pipeline is a state machine whose transitions are reported by the
  wallet; \<open>pipeline_rank\<close> orders its states.
\<close>

subsection \<open>Receipts and policies\<close>

datatype anchor_method =
    PublicChain string string
  | Rfc3161Tsa string content_hash

record anchor_receipt =
  ar_tree_head :: content_hash
  ar_entry_count :: u64
  ar_method :: anchor_method
  ar_anchored_at :: timestamp_ns
  ar_confirmation_policy :: content_hash

record anchor_policy =
  ap_required_depth :: u64

definition receipt_schema :: string where
  "receipt_schema = ''treasury-anchor/receipt/v2''"

definition anchor_policy_schema :: string where
  "anchor_policy_schema = ''treasury-anchor/anchor-policy/v1''"

fun method_json :: "libs \<Rightarrow> anchor_method \<Rightarrow> json" where
  "method_json L (PublicChain chain tx_ref) =
     json_object [(''kind'', JString ''public_chain''), (''chain'', JString chain), (''tx_ref'', JString tx_ref)]"
| "method_json L (Rfc3161Tsa authority token_hash) =
     json_object [(''kind'', JString ''rfc3161_tsa''), (''authority'', JString authority),
       (''token_hash'', hash_json L token_hash)]"

definition receipt_env :: "libs \<Rightarrow> anchor_receipt \<Rightarrow> json" where
  "receipt_env L r = json_object [
     (''schema'', JString receipt_schema),
     (''tree_head'', JString (to_hex L (ar_tree_head r))),
     (''entry_count'', JNumber (PosInt (ar_entry_count r))),
     (''method'', method_json L (ar_method r)),
     (''anchored_at'', time_json (ar_anchored_at r)),
     (''confirmation_policy'', JString (to_hex L (ar_confirmation_policy r)))]"

definition receipt_hash :: "libs \<Rightarrow> anchor_receipt \<Rightarrow> (canon_error, content_hash) result" where
  "receipt_hash L r = content_id L (receipt_env L r)"

definition anchor_policy_new :: "u64 \<Rightarrow> anchor_policy" where
  "anchor_policy_new required_depth = \<lparr>ap_required_depth = required_depth\<rparr>"

definition anchor_policy_env :: "libs \<Rightarrow> anchor_policy \<Rightarrow> json" where
  "anchor_policy_env L p = json_object [
     (''schema'', JString anchor_policy_schema), (''required_depth'', JNumber (PosInt (ap_required_depth p)))]"

definition anchor_policy_hash :: "libs \<Rightarrow> anchor_policy \<Rightarrow> (canon_error, content_hash) result" where
  "anchor_policy_hash L p = content_id L (anchor_policy_env L p)"

subsection \<open>The log\<close>

type_synonym anchor_log = "anchor_receipt list"

datatype anchor_error =
    NonMonotonicAnchorTime timestamp_ns timestamp_ns
  | CoverageRegression u64 u64
  | EntryCountExceedsStore u64 nat
  | HeadMismatch content_hash content_hash

definition al_new :: anchor_log where
  "al_new = []"

definition al_append :: "anchor_receipt \<Rightarrow> anchor_log \<Rightarrow> (anchor_error, unit) result \<times> anchor_log" where
  "al_append receipt log =
     (if log \<noteq> [] \<and> ar_anchored_at receipt \<le> ar_anchored_at (last log)
      then (Inl (NonMonotonicAnchorTime (ar_anchored_at (last log)) (ar_anchored_at receipt)), log)
      else if log \<noteq> [] \<and> ar_entry_count receipt < ar_entry_count (last log)
      then (Inl (CoverageRegression (ar_entry_count (last log)) (ar_entry_count receipt)), log)
      else (Inr (), log @ [receipt]))"

definition al_latest :: "anchor_log \<Rightarrow> anchor_receipt option" where
  "al_latest log = (if log = [] then None else Some (last log))"

fun al_verify_against :: "(nat \<Rightarrow> content_hash option) \<Rightarrow> nat \<Rightarrow> anchor_log \<Rightarrow> (anchor_error, unit) result" where
  "al_verify_against head_at store_len [] = Inr ()"
| "al_verify_against head_at store_len (receipt # rest) =
     (case head_at (unat (ar_entry_count receipt)) of
        None \<Rightarrow> Inl (EntryCountExceedsStore (ar_entry_count receipt) store_len)
      | Some recomputed \<Rightarrow>
          if recomputed \<noteq> ar_tree_head receipt then Inl (HeadMismatch (ar_tree_head receipt) recomputed)
          else al_verify_against head_at store_len rest)"

subsection \<open>The pipeline\<close>

record anchor_target =
  at_tree_head :: content_hash
  at_entry_count :: u64

datatype pipeline_state =
    PlPending
  | PlSubmitted string u64
  | PlConfirmed string u64 u64
  | PlAnchored string content_hash

record anchor_pipeline =
  pl_targets :: "anchor_target list"
  pl_aggregation :: aggregation
  pl_state :: pipeline_state

datatype pipeline_error =
    NothingToAnchor
  | PlInvalidTransition
  | HeightUnderflow
  | InsufficientDepth u64 u64
  | PlReceipt string

definition pl_start :: "libs \<Rightarrow> anchor_target list \<Rightarrow> (pipeline_error, anchor_pipeline) result" where
  "pl_start L targets =
     and_then (ok_or NothingToAnchor (aggregate L (map at_tree_head targets))) (\<lambda>agg.
       Inr \<lparr>pl_targets = targets, pl_aggregation = agg, pl_state = PlPending\<rparr>)"

definition pl_root :: "anchor_pipeline \<Rightarrow> content_hash" where
  "pl_root p = agg_root (pl_aggregation p)"

definition pl_submitted :: "string \<Rightarrow> u64 \<Rightarrow> anchor_pipeline \<Rightarrow> (pipeline_error, unit) result \<times> anchor_pipeline" where
  "pl_submitted tx_ref submitted_height p =
     (if pl_state p \<noteq> PlPending then (Inl PlInvalidTransition, p)
      else (Inr (), p\<lparr>pl_state := PlSubmitted tx_ref submitted_height\<rparr>))"

definition pl_confirmed :: "u64 \<Rightarrow> u64 \<Rightarrow> anchor_pipeline \<Rightarrow> (pipeline_error, unit) result \<times> anchor_pipeline" where
  "pl_confirmed block_height current_height p =
     (case (case pl_state p of PlSubmitted tx_ref _ \<Rightarrow> Some tx_ref | PlConfirmed tx_ref _ _ \<Rightarrow> Some tx_ref
            | _ \<Rightarrow> None) of
        None \<Rightarrow> (Inl PlInvalidTransition, p)
      | Some tx_ref \<Rightarrow>
          (case u64_checked_sub current_height block_height of
             None \<Rightarrow> (Inl HeightUnderflow, p)
           | Some span \<Rightarrow>
               (Inr (), p\<lparr>pl_state := PlConfirmed tx_ref block_height (u64_saturating_add span 1)\<rparr>)))"

text \<open>The loop over the targets, which stops at the first receipt that does not hash.\<close>

fun make_receipts :: "libs \<Rightarrow> string \<Rightarrow> timestamp_ns \<Rightarrow> content_hash \<Rightarrow> anchor_target list
  \<Rightarrow> (pipeline_error, anchor_receipt list) result" where
  "make_receipts L tx_ref anchored_at confirmation_policy [] = Inr []"
| "make_receipts L tx_ref anchored_at confirmation_policy (target # targets) =
     (let receipt = \<lparr>ar_tree_head = at_tree_head target, ar_entry_count = at_entry_count target,
                     ar_method = PublicChain ''bitcoin'' tx_ref, ar_anchored_at = anchored_at,
                     ar_confirmation_policy = confirmation_policy\<rparr> in
      and_then (map_err (\<lambda>e. PlReceipt (canon_error_text e)) (receipt_hash L receipt)) (\<lambda>_.
      and_then (make_receipts L tx_ref anchored_at confirmation_policy targets) (\<lambda>rs. Inr (receipt # rs))))"

definition pl_finalize :: "libs \<Rightarrow> anchor_policy \<Rightarrow> content_hash \<Rightarrow> timestamp_ns \<Rightarrow> anchor_pipeline
  \<Rightarrow> (pipeline_error, anchor_receipt list) result \<times> anchor_pipeline" where
  "pl_finalize L policy proof_evidence anchored_at p =
     (case pl_state p of
        PlConfirmed tx_ref _ depth \<Rightarrow>
          if depth < ap_required_depth policy
          then (Inl (InsufficientDepth depth (ap_required_depth policy)), p)
          else (case and_then (map_err (\<lambda>e. PlReceipt (canon_error_text e)) (anchor_policy_hash L policy))
                       (\<lambda>confirmation_policy. make_receipts L tx_ref anchored_at confirmation_policy (pl_targets p)) of
                  Inl e \<Rightarrow> (Inl e, p)
                | Inr receipts \<Rightarrow> (Inr receipts, p\<lparr>pl_state := PlAnchored tx_ref proof_evidence\<rparr>))
      | _ \<Rightarrow> (Inl PlInvalidTransition, p))"

definition pl_is_overdue :: "anchor_pipeline \<Rightarrow> u64 \<Rightarrow> u64 \<Rightarrow> bool" where
  "pl_is_overdue p current_height max_blocks =
     (case pl_state p of
        PlSubmitted _ submitted_height \<Rightarrow> max_blocks < u64_saturating_sub current_height submitted_height
      | _ \<Rightarrow> False)"

subsection \<open>The wallet fixture\<close>

record broadcast =
  bc_tx_ref :: string
  bc_submitted_height :: u64

record confirmation =
  cf_current_height :: u64
  cf_included_at :: "u64 option"

datatype submitter_error = SubTransport string | NotBroadcast | NotConfirmed

record fixture_submitter =
  fs_tip :: u64
  fs_blocks_to_inclusion :: u64
  fs_never_confirms :: bool
  fs_broadcast_height :: "u64 option"
  fs_included_height :: "u64 option"
  fs_seq :: u64

definition fs_new :: "u64 \<Rightarrow> u64 \<Rightarrow> fixture_submitter" where
  "fs_new start_tip blocks_to_inclusion =
     \<lparr>fs_tip = start_tip, fs_blocks_to_inclusion = blocks_to_inclusion, fs_never_confirms = False,
      fs_broadcast_height = None, fs_included_height = None, fs_seq = 0\<rparr>"

definition fs_never_confirming :: "u64 \<Rightarrow> fixture_submitter" where
  "fs_never_confirming start_tip = (fs_new start_tip 0)\<lparr>fs_never_confirms := True\<rparr>"

definition fs_broadcast :: "content_hash \<Rightarrow> fixture_submitter
  \<Rightarrow> (submitter_error, broadcast) result \<times> fixture_submitter" where
  "fs_broadcast root s =
     (let submitted_height = fs_tip s; n = u64_saturating_add (fs_seq s) 1 in
      (Inr \<lparr>bc_tx_ref = ''fixture-tx-'' @ show_nat (unat n), bc_submitted_height = submitted_height\<rparr>,
       s\<lparr>fs_seq := n, fs_broadcast_height := Some submitted_height,
         fs_included_height := (if fs_never_confirms s then None
           else Some (u64_saturating_add submitted_height (fs_blocks_to_inclusion s)))\<rparr>))"

definition fs_poll :: "string \<Rightarrow> fixture_submitter \<Rightarrow> (submitter_error, confirmation) result \<times> fixture_submitter"
where
  "fs_poll tx_ref s =
     (if fs_broadcast_height s = None then (Inl NotBroadcast, s)
      else (let current_height = u64_saturating_add (fs_tip s) 1 in
        (Inr \<lparr>cf_current_height = current_height,
              cf_included_at = (case fs_included_height s of None \<Rightarrow> None
                | Some included \<Rightarrow> if included \<le> current_height then Some included else None)\<rparr>,
         s\<lparr>fs_tip := current_height\<rparr>)))"

definition fs_calendar_proof :: "libs \<Rightarrow> string \<Rightarrow> fixture_submitter \<Rightarrow> (submitter_error, content_hash) result" where
  "fs_calendar_proof L tx_ref s =
     and_then (ok_or NotConfirmed (fs_included_height s)) (\<lambda>included.
       if fs_tip s < included then Inl NotConfirmed
       else Inr (sha256 L (''calendar-proof:'' @ tx_ref)))"

subsection \<open>Identity\<close>

lemma method_json_ok [simp]: "json_ok (Suc k) (method_json L m)"
  by (cases m) simp_all

lemma method_json_inject [simp]: "libs_ok L \<Longrightarrow> method_json L m = method_json L n \<longleftrightarrow> m = n"
  by (cases m; cases n) (auto simp: json_object_inject dest!: json_object_kind)

interpretation receipt_identity: artifact receipt_env "\<lambda>r. True"
proof
  fix x y :: anchor_receipt and L
  show "json_ok max_depth (receipt_env L x)" by (rule json_ok_shallow) (simp add: receipt_env_def)
  show "libs_ok L \<Longrightarrow> receipt_env L x = receipt_env L y \<Longrightarrow> x = y"
    by (cases x; cases y) (simp add: receipt_env_def json_object_inject)
qed

interpretation anchor_policy_identity: artifact anchor_policy_env "\<lambda>p. True"
proof
  fix x y :: anchor_policy and L
  show "json_ok max_depth (anchor_policy_env L x)" by (rule json_ok_shallow) (simp add: anchor_policy_env_def)
  show "libs_ok L \<Longrightarrow> anchor_policy_env L x = anchor_policy_env L y \<Longrightarrow> x = y"
    by (cases x; cases y) (simp add: anchor_policy_env_def json_object_inject)
qed

subsection \<open>What the log guarantees\<close>

definition al_inv :: "anchor_log \<Rightarrow> bool" where
  "al_inv log \<longleftrightarrow> sorted_wrt (<) (map ar_anchored_at log) \<and> sorted (map ar_entry_count log)"

lemma al_append_inv: "al_inv log \<Longrightarrow> al_inv (snd (al_append r log))"
proof (cases log rule: rev_cases)
  case (snoc ys y)
  assume "al_inv log"
  then show ?thesis
    by (auto simp: al_inv_def al_append_def snoc sorted_wrt_append sorted_append not_le not_less
        intro: less_trans order_trans)
qed (simp add: al_inv_def al_append_def)

lemma al_append_prefix: "\<exists>rs. snd (al_append r log) = log @ rs"
  by (simp add: al_append_def)

lemma al_verify_iff:
  "al_verify_against head_at n log = Inr () \<longleftrightarrow>
     (\<forall>r \<in> set log. head_at (unat (ar_entry_count r)) = Some (ar_tree_head r))"
  by (induction log) (auto split: option.splits)

context evidence_store
begin

text \<open>A log that verified once verifies against every later state of the store.\<close>

lemma anchors_stay_verified:
  assumes "al_verify_against (tree_head_at s) (len s) log = Inr ()"
  shows "al_verify_against (tree_head_at (puts ops s)) (len (puts ops s)) log = Inr ()"
  unfolding al_verify_iff
proof
  fix r assume r: "r \<in> set log"
  then have h: "tree_head_at s (unat (ar_entry_count r)) = Some (ar_tree_head r)"
    using assms by (simp add: al_verify_iff)
  then have "unat (ar_entry_count r) \<le> len s" using head_beyond [of s] by (metis leI option.distinct(1))
  with h show "tree_head_at (puts ops s) (unat (ar_entry_count r)) = Some (ar_tree_head r)"
    by (simp add: puts_prefix)
qed

text \<open>A receipt made from the current head of the store verifies.\<close>

lemma fresh_anchor_verifies:
  "unat (ar_entry_count r) = len s \<Longrightarrow> ar_tree_head r = tree_head s \<Longrightarrow>
     al_verify_against (tree_head_at s) (len s) [r] = Inr ()"
  by (simp add: al_verify_iff head_at)

end

text \<open>Two stores against which the same receipt verifies agree on the anchored entries.\<close>

lemma anchored_prefix_unique:
  assumes "al_verify_against (es_tree_head_at L s) (es_len s) log = Inr ()"
    and "al_verify_against (es_tree_head_at L s') (es_len s') log = Inr ()" and "r \<in> set log"
    and "no_collision L (merkle_preimages L (take (unat (ar_entry_count r)) (es_order s)) \<union>
      merkle_preimages L (take (unat (ar_entry_count r)) (es_order s')))"
  shows "take (unat (ar_entry_count r)) (es_order s) = take (unat (ar_entry_count r)) (es_order s')"
proof (rule merkle_root_inject [OF _ assms(4)])
  show "merkle_root L (take (unat (ar_entry_count r)) (es_order s)) =
      merkle_root L (take (unat (ar_entry_count r)) (es_order s'))"
    using assms(1-3) by (auto simp: al_verify_iff es_tree_head_at_def split: if_splits)
qed

subsection \<open>What the pipeline guarantees\<close>

lemma policy_hash_total:
  "libs_ok L \<Longrightarrow> anchor_policy_hash L p = Inr (sha256 L (preimage L (anchor_policy_env L p)))"
  by (simp add: anchor_policy_hash_def anchor_policy_identity.hash_total)

lemma receipt_hash_total: "libs_ok L \<Longrightarrow> is_ok (receipt_hash L r)"
  by (simp add: receipt_hash_def receipt_identity.hash_total)

definition receipt_for :: "string \<Rightarrow> timestamp_ns \<Rightarrow> content_hash \<Rightarrow> anchor_target \<Rightarrow> anchor_receipt" where
  "receipt_for tx t policy_hash target =
     \<lparr>ar_tree_head = at_tree_head target, ar_entry_count = at_entry_count target,
      ar_method = PublicChain ''bitcoin'' tx, ar_anchored_at = t, ar_confirmation_policy = policy_hash\<rparr>"

lemma make_receipts_eq:
  "libs_ok L \<Longrightarrow> make_receipts L tx t ph targets = Inr (map (receipt_for tx t ph) targets)"
proof (induction targets)
  case (Cons x xs)
  obtain h where "receipt_hash L (receipt_for tx t ph x) = Inr h"
    using receipt_hash_total [OF Cons.prems] by (auto simp: is_ok_iff)
  with Cons show ?case by (simp add: receipt_for_def Let_def)
qed simp

lemma pl_finalize_eq:
  assumes "libs_ok L"
  shows "pl_finalize L policy ev t p =
    (case pl_state p of
       PlConfirmed tx b depth \<Rightarrow>
         (if depth < ap_required_depth policy then (Inl (InsufficientDepth depth (ap_required_depth policy)), p)
          else (Inr (map (receipt_for tx t (sha256 L (preimage L (anchor_policy_env L policy)))) (pl_targets p)),
                p\<lparr>pl_state := PlAnchored tx ev\<rparr>))
     | _ \<Rightarrow> (Inl PlInvalidTransition, p))"
  by (simp add: pl_finalize_def policy_hash_total [OF assms] make_receipts_eq [OF assms] split: pipeline_state.splits)

fun pipeline_rank :: "pipeline_state \<Rightarrow> nat" where
  "pipeline_rank PlPending = 0"
| "pipeline_rank (PlSubmitted tx h) = 1"
| "pipeline_rank (PlConfirmed tx b d) = 2"
| "pipeline_rank (PlAnchored tx ev) = 3"

text \<open>The transitions the wallet and the operator can report.\<close>

inductive pl_step :: "libs \<Rightarrow> anchor_pipeline \<Rightarrow> anchor_pipeline \<Rightarrow> bool" for L where
  step_submitted: "pl_step L p (snd (pl_submitted tx h p))"
| step_confirmed: "pl_step L p (snd (pl_confirmed b c p))"
| step_finalize: "pl_step L p (snd (pl_finalize L policy ev t p))"

inductive_cases pl_stepE: "pl_step L p q"

lemma pl_submitted_state:
  "snd (pl_submitted tx h p) = p \<or> pl_state p = PlPending \<and> snd (pl_submitted tx h p) = p\<lparr>pl_state := PlSubmitted tx h\<rparr>"
  by (simp add: pl_submitted_def)

lemma pl_confirmed_state:
  "snd (pl_confirmed b c p) = p \<or>
   (\<exists>tx d. snd (pl_confirmed b c p) = p\<lparr>pl_state := PlConfirmed tx b d\<rparr> \<and> unat b \<le> unat c \<and>
      unat d = min (unat c - unat b + 1) (2 ^ 64 - 1) \<and>
      ((\<exists>h. pl_state p = PlSubmitted tx h) \<or> (\<exists>b' d'. pl_state p = PlConfirmed tx b' d')))"
  by (auto simp: pl_confirmed_def u64_checked_sub_Some unat_u64_saturating_add unat_sub word_le_nat_alt
      split: pipeline_state.splits option.splits)

lemma pl_finalize_state:
  assumes "libs_ok L"
  shows "snd (pl_finalize L policy ev t p) = p \<or>
    (\<exists>tx b d. pl_state p = PlConfirmed tx b d \<and> ap_required_depth policy \<le> d \<and>
      snd (pl_finalize L policy ev t p) = p\<lparr>pl_state := PlAnchored tx ev\<rparr>)"
  by (auto simp: pl_finalize_eq [OF assms] not_less split: pipeline_state.splits)

lemma pl_step_rank:
  assumes "libs_ok L" and "pl_step L p q"
  shows "pl_targets q = pl_targets p \<and> pl_aggregation q = pl_aggregation p \<and>
    (q = p \<or> pipeline_rank (pl_state q) = Suc (pipeline_rank (pl_state p)) \<or>
     pipeline_rank (pl_state p) = 2 \<and> pipeline_rank (pl_state q) = 2)"
  using assms(2)
proof (rule pl_stepE)
  fix tx h assume "q = snd (pl_submitted tx h p)"
  then show ?thesis using pl_submitted_state [of tx h p] by auto
next
  fix b c assume "q = snd (pl_confirmed b c p)"
  then show ?thesis using pl_confirmed_state [of b c p] by auto
next
  fix policy ev t assume "q = snd (pl_finalize L policy ev t p)"
  then show ?thesis using pl_finalize_state [OF assms(1), of policy ev t p] by auto
qed

lemma anchored_terminal:
  "libs_ok L \<Longrightarrow> pl_state p = PlAnchored tx ev \<Longrightarrow> pl_step L p q \<Longrightarrow> q = p"
  using pl_step_rank [of L p q] by (cases "pl_state q") auto

subsection \<open>Driving the pipeline with the wallet fixture\<close>

lemma fs_poll_tip:
  "fs_broadcast_height s \<noteq> None \<Longrightarrow>
     unat (fs_tip (snd (fs_poll tx s))) = min (unat (fs_tip s) + 1) (2 ^ 64 - 1) \<and>
     fs_broadcast_height (snd (fs_poll tx s)) = fs_broadcast_height s \<and>
     fs_included_height (snd (fs_poll tx s)) = fs_included_height s"
  by (cases "fs_broadcast_height s") (simp_all add: fs_poll_def Let_def unat_u64_saturating_add)

fun fs_polls :: "nat \<Rightarrow> string \<Rightarrow> fixture_submitter \<Rightarrow> fixture_submitter" where
  "fs_polls 0 tx s = s"
| "fs_polls (Suc n) tx s = fs_polls n tx (snd (fs_poll tx s))"

lemma fs_polls_tip:
  "fs_broadcast_height s \<noteq> None \<Longrightarrow> unat (fs_tip s) + n < 2 ^ 64 \<Longrightarrow>
     unat (fs_tip (fs_polls n tx s)) = unat (fs_tip s) + n \<and>
     fs_broadcast_height (fs_polls n tx s) = fs_broadcast_height s \<and>
     fs_included_height (fs_polls n tx s) = fs_included_height s"
proof (induction n arbitrary: s)
  case (Suc n)
  then show ?case using fs_poll_tip [OF Suc.prems(1), of tx] by auto
qed simp

subsection \<open>Properties\<close>

fun al_run :: "anchor_receipt list \<Rightarrow> anchor_log \<Rightarrow> anchor_log" where
  "al_run [] log = log"
| "al_run (r # rs) log = al_run rs (snd (al_append r log))"

lemma al_run_inv: "al_inv log \<Longrightarrow> al_inv (al_run rs log)"
  by (induction rs arbitrary: log) (simp_all add: al_append_inv)

text \<open>Anchors outlive the growth of the store: a log that verifies against an evidence store
  verifies against every later state of it, and a log built by appends, accepted or not, has strictly
  increasing anchor times and never shrinking coverage.\<close>

theorem anchors_outlive_growth:
  assumes "al_verify_against (es_tree_head_at L s) (es_len s) log = Inr ()"
  shows "al_verify_against (es_tree_head_at L (es_run L bs s)) (es_len (es_run L bs s)) log = Inr () \<and>
    sorted_wrt (<) (map ar_anchored_at (al_run rs al_new)) \<and> sorted (map ar_entry_count (al_run rs al_new))"
  using mem.anchors_stay_verified [OF assms, of "map (Pair ()) bs"] al_run_inv [of al_new rs]
  by (simp add: es_run_puts al_inv_def al_new_def)

definition demo_receipt :: "content_hash \<Rightarrow> u64 \<Rightarrow> anchor_receipt" where
  "demo_receipt h n = receipt_for ''tx'' 10 (hash_of_byte (CHR 0x00)) \<lparr>at_tree_head = h, at_entry_count = n\<rparr>"

theorem anchors_outlive_growth_witness:
  "al_verify_against (es_tree_head_at (demo_libs demo_tree_hash) (es_run (demo_libs demo_tree_hash) [''abc''] es_new))
     (es_len (es_run (demo_libs demo_tree_hash) [''abc''] es_new))
     [demo_receipt (sha256 (demo_libs demo_tree_hash) []) 0] = Inr ()"
proof -
  have "al_verify_against (es_tree_head_at (demo_libs demo_tree_hash) es_new) (es_len es_new)
      [demo_receipt (sha256 (demo_libs demo_tree_hash) []) 0] = Inr ()"
    by (simp add: es_tree_head_at_def es_new_def demo_receipt_def receipt_for_def)
  from anchors_outlive_growth [OF this, of "[''abc'']" "[]"] show ?thesis by blast
qed

text \<open>C21: An anchor detects tampering: if the same log verifies against two evidence stores, then for
  every receipt the two stores hold the same entries in the same order up to the anchored count,
  unless SHA-256 collides on the strings hashed for the two heads.\<close>

theorem anchored_prefix_tamper_evident:
  assumes "al_verify_against (es_tree_head_at L s) (es_len s) log = Inr ()"
    and "al_verify_against (es_tree_head_at L s') (es_len s') log = Inr ()" and "r \<in> set log"
    and "no_collision L (merkle_preimages L (take (unat (ar_entry_count r)) (es_order s)) \<union>
      merkle_preimages L (take (unat (ar_entry_count r)) (es_order s')))"
  shows "take (unat (ar_entry_count r)) (es_order s) = take (unat (ar_entry_count r)) (es_order s')"
  using assms by (rule anchored_prefix_unique)

theorem anchored_prefix_tamper_evident_witness:
  "take 1 (es_order (es_run (demo_libs demo_tree_hash) [''abc''] es_new)) =
   take 1 (es_order (es_run (demo_libs demo_tree_hash) [''abc'', ''xyz''] es_new))"
proof -
  let ?L = "demo_libs demo_tree_hash"
  let ?s = "es_run ?L [''abc''] es_new" and ?t = "es_run ?L [''abc'', ''xyz''] es_new"
  let ?r = "demo_receipt (leaf_hash ?L (hash_of_byte (CHR ''b''))) 1"
  have orders: "es_order ?s = [hash_of_byte (CHR ''b'')]" "es_order ?t = [hash_of_byte (CHR ''b''), hash_of_byte (CHR ''y'')]"
    by (simp_all add: es_put_def es_new_def Let_def sha256_def demo_tree_hash_def)
  have "take (unat (ar_entry_count ?r)) (es_order ?s) = take (unat (ar_entry_count ?r)) (es_order ?t)"
  proof (rule anchored_prefix_tamper_evident [of ?L ?s "[?r]" ?t ?r])
    show "al_verify_against (es_tree_head_at ?L ?s) (es_len ?s) [?r] = Inr ()"
      "al_verify_against (es_tree_head_at ?L ?t) (es_len ?t) [?r] = Inr ()"
      unfolding al_verify_iff es_tree_head_at_def orders by (simp_all add: demo_receipt_def receipt_for_def)
    show "no_collision ?L (merkle_preimages ?L (take (unat (ar_entry_count ?r)) (es_order ?s)) \<union>
        merkle_preimages ?L (take (unat (ar_entry_count ?r)) (es_order ?t)))"
      unfolding orders by (simp add: demo_receipt_def receipt_for_def no_collision_def)
  qed simp
  then show ?thesis by (simp add: demo_receipt_def receipt_for_def)
qed

text \<open>C33: Finalizing a pipeline is evidence-driven: from any state it could have reached, it succeeds
  exactly when the commitment is confirmed at least as deep as the policy demands; it then yields one
  receipt per target, each committing to the policy's hash and carrying a head whose inclusion proof
  verifies against the committed root, and the anchored state never changes again.\<close>

theorem pipeline_finalize_sound:
  assumes "libs_ok L" and "pl_start L targets = Inr p0" and "(pl_step L)\<^sup>*\<^sup>* p0 p" and "length targets \<le> usize_max"
  shows "(is_ok (fst (pl_finalize L policy ev t p)) \<longleftrightarrow>
      (\<exists>tx b d. pl_state p = PlConfirmed tx b d \<and> ap_required_depth policy \<le> d)) \<and>
    (\<forall>receipts q i. pl_finalize L policy ev t p = (Inr receipts, q) \<and> i < length targets \<longrightarrow>
      length receipts = length targets \<and>
      Inr (ar_confirmation_policy (receipts ! i)) = anchor_policy_hash L policy \<and>
      ar_entry_count (receipts ! i) = at_entry_count (targets ! i) \<and>
      verify_inclusion L (ar_tree_head (receipts ! i)) (agg_proofs (pl_aggregation q) ! i) (pl_root q) \<and>
      ((pl_step L)\<^sup>*\<^sup>* q q' \<longrightarrow> q' = q))"
proof -
  have start: "pl_targets p0 = targets" "aggregate L (map at_tree_head targets) = Some (pl_aggregation p0)"
    using assms(2) by (auto simp: pl_start_def result_simps)
  have p: "pl_targets p = targets" "pl_aggregation p = pl_aggregation p0"
    using assms(3) start(1) by (induction rule: rtranclp_induct) (auto dest: pl_step_rank [OF assms(1)])
  have "is_ok (fst (pl_finalize L policy ev t p)) \<longleftrightarrow>
      (\<exists>tx b d. pl_state p = PlConfirmed tx b d \<and> ap_required_depth policy \<le> d)"
    by (auto simp: pl_finalize_eq [OF assms(1)] not_less split: pipeline_state.splits)
  moreover have "length receipts = length targets \<and>
      Inr (ar_confirmation_policy (receipts ! i)) = anchor_policy_hash L policy \<and>
      ar_entry_count (receipts ! i) = at_entry_count (targets ! i) \<and>
      verify_inclusion L (ar_tree_head (receipts ! i)) (agg_proofs (pl_aggregation q) ! i) (pl_root q) \<and>
      ((pl_step L)\<^sup>*\<^sup>* q q' \<longrightarrow> q' = q)"
    if fin: "pl_finalize L policy ev t p = (Inr receipts, q)" and i: "i < length targets" for receipts q i
  proof -
    obtain tx b d where c: "pl_state p = PlConfirmed tx b d"
      "receipts = map (receipt_for tx t (sha256 L (preimage L (anchor_policy_env L policy)))) targets"
      "q = p\<lparr>pl_state := PlAnchored tx ev\<rparr>"
      using fin p(1) by (auto simp: pl_finalize_eq [OF assms(1)] split: pipeline_state.splits if_splits)
    have "verify_inclusion L (map at_tree_head targets ! i) (agg_proofs (pl_aggregation p0) ! i) (agg_root (pl_aggregation p0))"
      using aggregate_proofs [OF start(2), of i] honest_proof_verifies [of i "map at_tree_head targets" L] i assms(4)
      by simp
    moreover have "q' = q" if "(pl_step L)\<^sup>*\<^sup>* q q'"
      using that by (induction rule: rtranclp_induct) (use anchored_terminal [OF assms(1)] c(3) in auto)
    ultimately show ?thesis using c i p policy_hash_total [OF assms(1), of policy] by (simp add: receipt_for_def pl_root_def)
  qed
  ultimately show ?thesis by blast
qed

definition demo_pipeline :: anchor_pipeline where
  "demo_pipeline = \<lparr>pl_targets = [\<lparr>at_tree_head = hash_of_byte (CHR 0x01), at_entry_count = 3\<rparr>],
     pl_aggregation = the (aggregate (demo_libs (\<lambda>_. hash_of_byte (CHR 0x05))) [hash_of_byte (CHR 0x01)]),
     pl_state = PlPending\<rparr>"

theorem pipeline_finalize_sound_witness:
  "is_ok (fst (pl_finalize (demo_libs (\<lambda>_. hash_of_byte (CHR 0x05))) \<lparr>ap_required_depth = 6\<rparr> (hash_of_byte (CHR 0x07)) 99
     (snd (pl_confirmed 100 105 (snd (pl_submitted ''tx'' 98 demo_pipeline))))))"
proof -
  let ?L = "demo_libs (\<lambda>_. hash_of_byte (CHR 0x05))"
  let ?p = "snd (pl_confirmed 100 105 (snd (pl_submitted ''tx'' 98 demo_pipeline)))"
  have start: "pl_start ?L [\<lparr>at_tree_head = hash_of_byte (CHR 0x01), at_entry_count = 3\<rparr>] = Inr demo_pipeline"
    by (simp add: pl_start_def demo_pipeline_def aggregate_def)
  have "pl_step ?L demo_pipeline (snd (pl_submitted ''tx'' 98 demo_pipeline))" by (rule step_submitted)
  moreover have "pl_step ?L (snd (pl_submitted ''tx'' 98 demo_pipeline)) ?p" by (rule step_confirmed)
  ultimately have "(pl_step ?L)\<^sup>*\<^sup>* demo_pipeline ?p"
    by (rule converse_rtranclp_into_rtranclp [OF _ r_into_rtranclp])
  from pipeline_finalize_sound [OF demo_libs_ok start this, of "\<lparr>ap_required_depth = 6\<rparr>"]
  show ?thesis
    by (simp add: usize_max_def pl_submitted_def pl_confirmed_def demo_pipeline_def u64_checked_sub_def
        u64_saturating_add_def)
qed

end
