(* ===== verification/Policy.thy ===== *)
theory Policy
  imports Amount "HOL-Library.Sublist"
begin

section \<open>Policies (treasury-policy)\<close>

text \<open>
  Models \<open>crates/treasury-policy/src/\<close> \<open>artifact.rs\<close>, \<open>registry.rs\<close> and \<open>valuation.rs\<close>: approved
  policy artifacts with their content hashes, the registry with an activation timeline per
  (tenant, kind), and the key of a valuation run. The lemmas show that a timeline only grows and
  stays ordered, that what governs at a time is the latest activation at or before it and never
  changes afterwards, and that a governing hash always names a registered, approved artifact of
  the right kind whose hash it is.
\<close>

type_synonym policy_kind = string

record policy_artifact =
  pa_kind :: policy_kind
  pa_body :: json
  pa_approvers :: "actor_id list"
  pa_effective_from :: timestamp_ns

datatype policy_error = NoApprovers | PolicyCanon canon_error

definition policy_schema :: string where
  "policy_schema = ''treasury-policy/artifact/v1''"

definition policy_env :: "libs \<Rightarrow> policy_artifact \<Rightarrow> json" where
  "policy_env L a = json_object [
     (''schema'', JString policy_schema),
     (''kind'', JString (pa_kind a)),
     (''body'', pa_body a),
     (''approvers'', JArray (map JString (pa_approvers a))),
     (''effective_from'', time_json (pa_effective_from a))]"

definition policy_hash :: "libs \<Rightarrow> policy_artifact \<Rightarrow> (policy_error, content_hash) result" where
  "policy_hash L a =
     (if pa_approvers a = [] then Inl NoApprovers
      else map_err PolicyCanon (content_id L (policy_env L a)))"

subsection \<open>Registry\<close>

record activation_record =
  act_tenant :: tenant_id
  act_kind :: policy_kind
  act_policy_hash :: content_hash
  act_activated_at :: timestamp_ns

record policy_registry =
  reg_artifacts :: "(content_hash, policy_artifact) hashmap"
  reg_timelines :: "(tenant_id \<times> policy_kind, activation_record list) hashmap"

datatype registry_error =
    UnknownPolicy content_hash
  | KindMismatch policy_kind policy_kind
  | NonMonotonicActivation timestamp_ns timestamp_ns
  | RegistryPolicy policy_error

definition reg_new :: policy_registry where
  "reg_new = \<lparr>reg_artifacts = [], reg_timelines = []\<rparr>"

definition reg_register :: "libs \<Rightarrow> policy_artifact \<Rightarrow> policy_registry
  \<Rightarrow> (registry_error, content_hash) result \<times> policy_registry" where
  "reg_register L a r =
     (case policy_hash L a of
        Inl e \<Rightarrow> (Inl (RegistryPolicy e), r)
      | Inr hash \<Rightarrow> (Inr hash, r\<lparr>reg_artifacts := hm_or_insert hash a (reg_artifacts r)\<rparr>))"

definition reg_timeline :: "policy_registry \<Rightarrow> tenant_id \<Rightarrow> policy_kind \<Rightarrow> activation_record list" where
  "reg_timeline r tenant kind =
     (case hm_get (reg_timelines r) (tenant, kind) of None \<Rightarrow> [] | Some t \<Rightarrow> t)"

definition reg_activate :: "tenant_id \<Rightarrow> policy_kind \<Rightarrow> content_hash \<Rightarrow> timestamp_ns \<Rightarrow> policy_registry
  \<Rightarrow> (registry_error, unit) result \<times> policy_registry" where
  "reg_activate tenant kind hash activated_at r =
     (case hm_get (reg_artifacts r) hash of
        None \<Rightarrow> (Inl (UnknownPolicy hash), r)
      | Some a \<Rightarrow>
          if pa_kind a \<noteq> kind then (Inl (KindMismatch (pa_kind a) kind), r)
          else (let r1 = r\<lparr>reg_timelines := hm_or_insert (tenant, kind) [] (reg_timelines r)\<rparr>;
                    timeline = reg_timeline r1 tenant kind in
            if timeline \<noteq> [] \<and> activated_at \<le> act_activated_at (last timeline)
            then (Inl (NonMonotonicActivation (act_activated_at (last timeline)) activated_at), r1)
            else (Inr (), r1\<lparr>reg_timelines := hm_insert (tenant, kind)
              (timeline @ [\<lparr>act_tenant = tenant, act_kind = kind, act_policy_hash = hash,
                 act_activated_at = activated_at\<rparr>]) (reg_timelines r1)\<rparr>)))"

definition reg_active_at :: "policy_registry \<Rightarrow> tenant_id \<Rightarrow> policy_kind \<Rightarrow> timestamp_ns \<Rightarrow> content_hash option" where
  "reg_active_at r tenant kind t =
     Option.bind (hm_get (reg_timelines r) (tenant, kind)) (\<lambda>timeline.
       map_option act_policy_hash (List.find (\<lambda>a. act_activated_at a \<le> t) (rev timeline)))"

definition reg_artifact :: "policy_registry \<Rightarrow> content_hash \<Rightarrow> policy_artifact option" where
  "reg_artifact r hash = hm_get (reg_artifacts r) hash"

subsection \<open>Valuation keys\<close>

record valuation_key =
  vk_lots_hash :: content_hash
  vk_price_snapshot_hash :: content_hash
  vk_policy_hash :: content_hash

definition valuation_key_schema :: string where
  "valuation_key_schema = ''treasury-policy/valuation-key/v1''"

definition valuation_key_env :: "libs \<Rightarrow> valuation_key \<Rightarrow> json" where
  "valuation_key_env L k = json_object [
     (''schema'', JString valuation_key_schema),
     (''lots'', JString (to_hex L (vk_lots_hash k))),
     (''price_snapshot'', JString (to_hex L (vk_price_snapshot_hash k))),
     (''policy'', JString (to_hex L (vk_policy_hash k)))]"

definition key_hash :: "libs \<Rightarrow> valuation_key \<Rightarrow> (canon_error, content_hash) result" where
  "key_hash L k = content_id L (valuation_key_env L k)"

subsection \<open>Identity\<close>

lemma policy_env_ok: "json_ok max_depth (policy_env L a) \<longleftrightarrow> json_ok 127 (pa_body a)"
proof -
  have "json_ok (Suc (Suc k)) (policy_env L a) \<longleftrightarrow> json_ok (Suc k) (pa_body a)" for k
    by (auto simp: policy_env_def)
  from this [of 126] show ?thesis by (simp add: max_depth_def)
qed

interpretation policy_identity: artifact policy_env "\<lambda>a. json_ok 127 (pa_body a)"
proof
  fix x y :: policy_artifact and L
  show "json_ok 127 (pa_body x) \<Longrightarrow> json_ok max_depth (policy_env L x)" by (simp add: policy_env_ok)
  show "libs_ok L \<Longrightarrow> policy_env L x = policy_env L y \<Longrightarrow> x = y"
    by (cases x; cases y) (simp add: policy_env_def json_object_inject JString_list_inject)
qed

interpretation valuation_key_identity: artifact valuation_key_env "\<lambda>k. True"
proof
  fix x y :: valuation_key and L
  show "json_ok max_depth (valuation_key_env L x)" by (rule json_ok_shallow) (simp add: valuation_key_env_def)
  show "libs_ok L \<Longrightarrow> valuation_key_env L x = valuation_key_env L y \<Longrightarrow> x = y"
    by (cases x; cases y) (simp add: valuation_key_env_def json_object_inject)
qed

subsection \<open>Invariant\<close>

definition timeline_ok :: "policy_registry \<Rightarrow> tenant_id \<Rightarrow> policy_kind \<Rightarrow> activation_record list \<Rightarrow> bool" where
  "timeline_ok r tenant kind acts \<longleftrightarrow>
     sorted_wrt (<) (map act_activated_at acts) \<and>
     (\<forall>a \<in> set acts. act_tenant a = tenant \<and> act_kind a = kind \<and>
        (\<exists>art. reg_artifact r (act_policy_hash a) = Some art \<and> pa_kind art = kind))"

definition reg_inv :: "libs \<Rightarrow> policy_registry \<Rightarrow> bool" where
  "reg_inv L r \<longleftrightarrow>
     (\<forall>h a. reg_artifact r h = Some a \<longrightarrow> policy_hash L a = Inr h) \<and>
     (\<forall>tenant kind. timeline_ok r tenant kind (reg_timeline r tenant kind))"

lemma reg_inv_new: "reg_inv L reg_new"
  by (simp add: reg_inv_def reg_new_def reg_artifact_def reg_timeline_def timeline_ok_def)

lemma reg_register_artifact:
  "reg_artifact (snd (reg_register L a r)) h =
     (case policy_hash L a of Inr i \<Rightarrow> if h = i \<and> reg_artifact r h = None then Some a else reg_artifact r h
      | Inl e \<Rightarrow> reg_artifact r h)"
  by (auto simp: reg_register_def reg_artifact_def split: sum.splits)

lemma reg_register_timeline [simp]:
  "reg_timeline (snd (reg_register L a r)) = reg_timeline r"
  by (auto simp: fun_eq_iff reg_register_def reg_timeline_def split: sum.splits)

lemma reg_register_inv: "reg_inv L r \<Longrightarrow> reg_inv L (snd (reg_register L a r))"
proof -
  assume inv: "reg_inv L r"
  have mono: "reg_artifact (snd (reg_register L a r)) h = Some art" if "reg_artifact r h = Some art" for h art
    using that by (simp add: reg_register_artifact split: sum.splits)
  have "policy_hash L art = Inr h" if "reg_artifact (snd (reg_register L a r)) h = Some art" for h art
    using that inv by (auto simp: reg_inv_def reg_register_artifact split: sum.splits if_splits)
  moreover have "timeline_ok (snd (reg_register L a r)) tenant kind (reg_timeline r tenant kind)" for tenant kind
    using inv mono unfolding reg_inv_def timeline_ok_def by blast
  ultimately show ?thesis by (simp add: reg_inv_def)
qed

lemma reg_activate_cases:
  obtains (rejected) e where "fst (reg_activate tenant kind h t r) = Inl e"
    "reg_timeline (snd (reg_activate tenant kind h t r)) = reg_timeline r"
    "reg_artifact (snd (reg_activate tenant kind h t r)) = reg_artifact r"
  | (activated) a where "reg_artifact r h = Some a" "pa_kind a = kind"
    "reg_timeline r tenant kind = [] \<or> act_activated_at (last (reg_timeline r tenant kind)) < t"
    "reg_artifact (snd (reg_activate tenant kind h t r)) = reg_artifact r"
    "\<And>u k. reg_timeline (snd (reg_activate tenant kind h t r)) u k =
       (if (u, k) = (tenant, kind) then reg_timeline r u k @ [\<lparr>act_tenant = tenant, act_kind = kind,
          act_policy_hash = h, act_activated_at = t\<rparr>] else reg_timeline r u k)"
proof -
  have same: "reg_timeline (r\<lparr>reg_timelines := hm_or_insert (tenant, kind) [] (reg_timelines r)\<rparr>) = reg_timeline r"
    by (auto simp: fun_eq_iff reg_timeline_def split: option.splits)
  show thesis
  proof (cases "fst (reg_activate tenant kind h t r)")
    case (Inl e)
    then show thesis
      by (intro rejected [of e])
        (auto simp: reg_activate_def reg_artifact_def same Let_def fun_eq_iff split: option.splits if_splits)
  next
    case (Inr u)
    then obtain a where a: "hm_get (reg_artifacts r) h = Some a" "pa_kind a = kind"
      "reg_timeline r tenant kind = [] \<or> act_activated_at (last (reg_timeline r tenant kind)) < t"
      by (auto simp: reg_activate_def same Let_def not_le split: option.splits if_splits)
    then show thesis
      by (intro activated [of a])
        (auto simp: reg_activate_def reg_artifact_def reg_timeline_def Let_def fun_eq_iff not_le split: option.splits)
  qed
qed

lemma timeline_ok_snoc:
  assumes "timeline_ok r tenant kind acts" and "acts = [] \<or> act_activated_at (last acts) < act_activated_at a"
    and "act_tenant a = tenant" "act_kind a = kind"
    and "reg_artifact r (act_policy_hash a) = Some art" "pa_kind art = kind"
  shows "timeline_ok r tenant kind (acts @ [a])"
proof (cases acts rule: rev_cases)
  case (snoc ys y)
  then have "act_activated_at z < act_activated_at a" if "z \<in> set acts" for z
    using that assms(1,2) by (auto simp: timeline_ok_def sorted_wrt_append)
  then show ?thesis using assms by (auto simp: timeline_ok_def sorted_wrt_append)
qed (use assms in \<open>simp add: timeline_ok_def\<close>)

lemma reg_activate_inv:
  assumes "reg_inv L r"
  shows "reg_inv L (snd (reg_activate tenant kind h t r))"
proof (cases rule: reg_activate_cases [of tenant kind h t r])
  case (rejected e)
  then show ?thesis using assms by (simp add: reg_inv_def timeline_ok_def)
next
  case (activated a)
  then show ?thesis
    using assms timeline_ok_snoc [of r tenant kind "reg_timeline r tenant kind"
      "\<lparr>act_tenant = tenant, act_kind = kind, act_policy_hash = h, act_activated_at = t\<rparr>" a]
    by (auto simp: reg_inv_def timeline_ok_def)
qed

subsection \<open>Runs\<close>

datatype registry_op = OpRegister policy_artifact | OpActivate tenant_id policy_kind content_hash timestamp_ns

fun reg_apply :: "libs \<Rightarrow> registry_op \<Rightarrow> policy_registry \<Rightarrow> policy_registry" where
  "reg_apply L (OpRegister a) r = snd (reg_register L a r)"
| "reg_apply L (OpActivate tenant kind h t) r = snd (reg_activate tenant kind h t r)"

fun reg_run :: "libs \<Rightarrow> registry_op list \<Rightarrow> policy_registry \<Rightarrow> policy_registry" where
  "reg_run L [] r = r"
| "reg_run L (op # ops) r = reg_run L ops (reg_apply L op r)"

lemma reg_run_inv: "reg_inv L r \<Longrightarrow> reg_inv L (reg_run L ops r)"
proof (induction ops arbitrary: r)
  case (Cons op ops)
  then show ?case by (cases op) (simp_all add: reg_register_inv reg_activate_inv)
qed simp

lemma reg_apply_prefix: "prefix (reg_timeline r u k) (reg_timeline (reg_apply L op r) u k)"
proof (cases op)
  case (OpActivate tenant kind h t)
  then show ?thesis by (cases rule: reg_activate_cases [of tenant kind h t r]) simp_all
qed simp

lemma reg_run_prefix: "prefix (reg_timeline r u k) (reg_timeline (reg_run L ops r) u k)"
  by (induction ops arbitrary: r) (auto intro: prefix_order.order_trans [OF reg_apply_prefix])

lemma active_at_timeline:
  "reg_active_at r tenant kind t =
     map_option act_policy_hash (List.find (\<lambda>a. act_activated_at a \<le> t) (rev (reg_timeline r tenant kind)))"
  by (simp add: reg_active_at_def reg_timeline_def split: option.splits)

lemma find_append: "List.find P (xs @ ys) = (case List.find P xs of None \<Rightarrow> List.find P ys | Some x \<Rightarrow> Some x)"
  by (induction xs) auto

lemma active_at_stable:
  assumes "reg_inv L r" and "reg_timeline r tenant kind \<noteq> []"
    and "t \<le> act_activated_at (last (reg_timeline r tenant kind))"
  shows "reg_active_at (reg_run L ops r) tenant kind t = reg_active_at r tenant kind t"
proof -
  let ?tl = "reg_timeline r tenant kind"
  obtain ys where ys: "reg_timeline (reg_run L ops r) tenant kind = ?tl @ ys"
    using reg_run_prefix [of r tenant kind L ops] by (auto simp: prefix_def)
  have "timeline_ok (reg_run L ops r) tenant kind (?tl @ ys)"
    using reg_run_inv [OF assms(1), of ops] unfolding reg_inv_def ys [symmetric] by blast
  then have "act_activated_at (last ?tl) < act_activated_at y" if "y \<in> set ys" for y
    using that assms(2) by (auto simp: timeline_ok_def sorted_wrt_append)
  then have "List.find (\<lambda>a. act_activated_at a \<le> t) (rev ys) = None"
    using assms(3) by (fastforce simp: find_None_iff)
  then show ?thesis by (simp add: active_at_timeline ys find_append)
qed

lemma find_rev_sorted:
  assumes "sorted_wrt (<) (map f xs)"
  shows "List.find (\<lambda>a. f a \<le> (t::int)) (rev xs) = Some x \<longleftrightarrow>
    x \<in> set xs \<and> f x \<le> t \<and> (\<forall>y \<in> set xs. f y \<le> t \<longrightarrow> f y \<le> f x)"
  using assms
proof (induction xs rule: rev_induct)
  case (snoc y xs)
  have less: "\<forall>z \<in> set xs. f z < f y" using snoc.prems by (auto simp: sorted_wrt_append)
  show ?case
  proof (cases "f y \<le> t")
    case True
    then show ?thesis using less by force
  next
    case False
    then show ?thesis using snoc by (auto simp: sorted_wrt_append)
  qed
qed simp

lemma active_at_Some:
  assumes "reg_inv L r"
  shows "reg_active_at r tenant kind t = Some h \<longleftrightarrow>
    (\<exists>a \<in> set (reg_timeline r tenant kind). act_policy_hash a = h \<and> act_activated_at a \<le> t \<and>
      (\<forall>b \<in> set (reg_timeline r tenant kind). act_activated_at b \<le> t \<longrightarrow> act_activated_at b \<le> act_activated_at a))"
proof -
  have "sorted_wrt (<) (map act_activated_at (reg_timeline r tenant kind))"
    using assms by (simp add: reg_inv_def timeline_ok_def)
  from find_rev_sorted [OF this] show ?thesis unfolding active_at_timeline by auto
qed

lemma policy_hash_Inr: "policy_hash L a = Inr h \<Longrightarrow> pa_approvers a \<noteq> [] \<and> content_id L (policy_env L a) = Inr h"
  by (auto simp: policy_hash_def result_simps split: if_splits)

subsection \<open>Properties\<close>

lemma active_at_None:
  "reg_active_at r tenant kind t = None \<longleftrightarrow> list_all (\<lambda>b. t < act_activated_at b) (reg_timeline r tenant kind)"
  by (auto simp: active_at_timeline find_None_iff list_all_iff not_le)

text \<open>An accepted activation governs from its time on.\<close>

lemma activated_governs:
  assumes "reg_inv L r" and "fst (reg_activate tenant kind h t r) = Inr ()" and "t \<le> u"
  shows "reg_active_at (snd (reg_activate tenant kind h t r)) tenant kind u = Some h"
proof (cases rule: reg_activate_cases [of tenant kind h t r])
  case (rejected e)
  then show ?thesis using assms(2) by simp
next
  case (activated a)
  then show ?thesis using assms(3) by (simp add: active_at_timeline)
qed

text \<open>C17: Which policy governs is a bitemporal fact, for every time asked about: after any registrations and
  activations there is none exactly when every activation of the timeline is later, and otherwise the governing
  hash is the one of the latest activation at or before that time and names a registered artifact of that kind
  that somebody approved and that hashes to it. A further activation that is accepted governs from its time
  on, however late one asks. And once the timeline has reached a time, no later operation changes
  the answer for it.\<close>

theorem governing_policy:
  "let r = reg_run L ops reg_new; timeline = reg_timeline r tenant kind in
    (case reg_active_at r tenant kind t of
       None \<Rightarrow> list_all (\<lambda>b. t < act_activated_at b) timeline
     | Some h \<Rightarrow>
         (\<exists>a \<in> set timeline. act_policy_hash a = h \<and> act_activated_at a \<le> t \<and>
            list_all (\<lambda>b. t < act_activated_at b \<or> act_activated_at b \<le> act_activated_at a) timeline) \<and>
         (\<exists>art. reg_artifact r h = Some art \<and> pa_kind art = kind \<and> pa_approvers art \<noteq> [] \<and>
            content_id L (policy_env L art) = Inr h)) \<and>
    (\<forall>h u. fst (reg_activate tenant kind h u r) = Inr () \<and> u \<le> t \<longrightarrow>
       reg_active_at (snd (reg_activate tenant kind h u r)) tenant kind t = Some h) \<and>
    (timeline \<noteq> [] \<and> t \<le> act_activated_at (last timeline) \<longrightarrow>
       reg_active_at (reg_run L later r) tenant kind t = reg_active_at r tenant kind t)"
proof -
  let ?r = "reg_run L ops reg_new"
  have inv: "reg_inv L ?r" by (rule reg_run_inv [OF reg_inv_new])
  have governs: "case reg_active_at ?r tenant kind t of
       None \<Rightarrow> list_all (\<lambda>b. t < act_activated_at b) (reg_timeline ?r tenant kind)
     | Some h \<Rightarrow>
         (\<exists>a \<in> set (reg_timeline ?r tenant kind). act_policy_hash a = h \<and> act_activated_at a \<le> t \<and>
            list_all (\<lambda>b. t < act_activated_at b \<or> act_activated_at b \<le> act_activated_at a) (reg_timeline ?r tenant kind)) \<and>
         (\<exists>art. reg_artifact ?r h = Some art \<and> pa_kind art = kind \<and> pa_approvers art \<noteq> [] \<and>
            content_id L (policy_env L art) = Inr h)"
  proof (cases "reg_active_at ?r tenant kind t")
    case None
    then show ?thesis using active_at_None [of ?r tenant kind t] by simp
  next
    case (Some h)
    then obtain a where a: "a \<in> set (reg_timeline ?r tenant kind)" "act_policy_hash a = h" "act_activated_at a \<le> t"
      "\<forall>b \<in> set (reg_timeline ?r tenant kind). act_activated_at b \<le> t \<longrightarrow> act_activated_at b \<le> act_activated_at a"
      unfolding active_at_Some [OF inv] by blast
    then obtain art where art: "reg_artifact ?r h = Some art" "pa_kind art = kind"
      using inv unfolding reg_inv_def timeline_ok_def by blast
    then have "policy_hash L art = Inr h" using inv by (simp add: reg_inv_def)
    moreover have "list_all (\<lambda>b. t < act_activated_at b \<or> act_activated_at b \<le> act_activated_at a) (reg_timeline ?r tenant kind)"
      using a(4) by (auto simp: list_all_iff not_less)
    ultimately show ?thesis using Some a(1-3) art policy_hash_Inr [of L art h] by auto
  qed
  show ?thesis
    unfolding Let_def using governs activated_governs [OF inv] active_at_stable [OF inv] by blast
qed

definition demo_policy :: policy_artifact where
  "demo_policy = \<lparr>pa_kind = ''finality/v1'', pa_body = JNull, pa_approvers = [''alice''], pa_effective_from = 0\<rparr>"

theorem governing_policy_witness:
  "let r = reg_run (demo_libs (\<lambda>_. hash_of_byte (CHR 0x01)))
      [OpRegister demo_policy, OpActivate ''acme'' ''finality/v1'' (hash_of_byte (CHR 0x01)) 5] reg_new in
   reg_active_at (reg_run (demo_libs (\<lambda>_. hash_of_byte (CHR 0x01))) [OpActivate ''acme'' ''finality/v1'' (hash_of_byte (CHR 0x01)) 9] r)
     ''acme'' ''finality/v1'' 5 = Some (hash_of_byte (CHR 0x01)) \<and>
   reg_active_at (snd (reg_activate ''acme'' ''finality/v1'' (hash_of_byte (CHR 0x01)) 9 r)) ''acme'' ''finality/v1'' 1000 =
     Some (hash_of_byte (CHR 0x01))"
proof -
  let ?L = "demo_libs (\<lambda>_. hash_of_byte (CHR 0x01))"
  let ?ops = "[OpRegister demo_policy, OpActivate ''acme'' ''finality/v1'' (hash_of_byte (CHR 0x01)) 5]"
  have h: "policy_hash ?L demo_policy = Inr (hash_of_byte (CHR 0x01))"
    using policy_identity.hash_total [of ?L demo_policy] by (simp add: policy_hash_def demo_policy_def sha256_def)
  have run: "reg_run ?L ?ops reg_new = \<lparr>reg_artifacts = [(hash_of_byte (CHR 0x01), demo_policy)],
      reg_timelines = [((''acme'', ''finality/v1''), [\<lparr>act_tenant = ''acme'', act_kind = ''finality/v1'',
        act_policy_hash = hash_of_byte (CHR 0x01), act_activated_at = 5\<rparr>])]\<rparr>"
    by (simp add: reg_register_def h reg_new_def hm_or_insert_def hm_insert_def reg_activate_def reg_timeline_def Let_def)
      (simp add: demo_policy_def)
  let ?r = "reg_run ?L ?ops reg_new"
  have at: "reg_active_at ?r ''acme'' ''finality/v1'' 5 = Some (hash_of_byte (CHR 0x01))"
    "reg_timeline ?r ''acme'' ''finality/v1'' \<noteq> []"
    "5 \<le> act_activated_at (last (reg_timeline ?r ''acme'' ''finality/v1''))"
    unfolding run by (simp_all add: reg_active_at_def reg_timeline_def)
  have more: "fst (reg_activate ''acme'' ''finality/v1'' (hash_of_byte (CHR 0x01)) 9 ?r) = Inr ()"
    unfolding run by (simp add: reg_activate_def reg_timeline_def demo_policy_def hm_or_insert_def Let_def)
  note five = governing_policy [of ?L ?ops "''acme''" "''finality/v1''" 5
    "[OpActivate ''acme'' ''finality/v1'' (hash_of_byte (CHR 0x01)) 9]"]
  have "reg_active_at (reg_run ?L [OpActivate ''acme'' ''finality/v1'' (hash_of_byte (CHR 0x01)) 9] ?r) ''acme'' ''finality/v1'' 5 =
      reg_active_at ?r ''acme'' ''finality/v1'' 5"
    using five at(2,3) unfolding Let_def by blast
  moreover have "reg_active_at (snd (reg_activate ''acme'' ''finality/v1'' (hash_of_byte (CHR 0x01)) 9 ?r)) ''acme'' ''finality/v1'' 1000 =
      Some (hash_of_byte (CHR 0x01))"
    using governing_policy [of ?L ?ops "''acme''" "''finality/v1''" 1000] more unfolding Let_def by auto
  ultimately show ?thesis unfolding Let_def using at(1) by simp
qed

end
