(* ===== verification/Gaap.thy ===== *)
theory Gaap
  imports Event
begin

section \<open>Journal entries (treasury-gaap)\<close>

text \<open>
  Models \<open>crates/treasury-gaap/src/\<close> \<open>entry.rs\<close> and \<open>module.rs\<close>: journal lines, the balancing
  constructor, the entry hash, the three entry builders of the GAAP lens (acquisition, periodic
  remeasurement, disposal) and the bridge that drafts an entry as a policy output. The lemmas
  characterise exactly when an entry is constructed, give the movement of every statement line for
  each builder, and show that the builders compose: over the life of a holding the carrying amount
  returns to zero and net income equals the cash gained.
\<close>

datatype statement = BalanceSheet | IncomeStatement | Oci

datatype statement_line =
    CryptoAssets
  | UnrealizedCryptoGainLoss
  | RealizedCryptoGainLoss
  | TransactionCostsExpense
  | Cash

fun line_statement :: "statement_line \<Rightarrow> statement" where
  "line_statement CryptoAssets = BalanceSheet"
| "line_statement Cash = BalanceSheet"
| "line_statement UnrealizedCryptoGainLoss = IncomeStatement"
| "line_statement RealizedCryptoGainLoss = IncomeStatement"
| "line_statement TransactionCostsExpense = IncomeStatement"

datatype side = Debit | Credit

record journal_line =
  jl_side :: side
  jl_line :: statement_line
  jl_amount :: asset_amount

record journal_entry =
  je_kind :: string
  je_lines :: "journal_line list"
  je_policy_hash :: content_hash

datatype entry_error =
    TooFewLines
  | MixedCurrencies
  | NonPositiveAmount int
  | Unbalanced int int
  | EntryOverflow
  | EntryCanon canon_error

text \<open>The loop over the lines, with the running debit and credit totals.\<close>

fun je_totals :: "asset_id \<Rightarrow> int \<Rightarrow> int \<Rightarrow> journal_line list \<Rightarrow> (entry_error, int \<times> int) result" where
  "je_totals currency debits credits [] = Inr (debits, credits)"
| "je_totals currency debits credits (line # lines) =
     (if amt_asset (jl_amount line) \<noteq> currency then Inl MixedCurrencies
      else if amt_atoms (jl_amount line) \<le> 0 then Inl (NonPositiveAmount (amt_atoms (jl_amount line)))
      else case jl_side line of
        Debit \<Rightarrow> and_then (ok_or EntryOverflow (i128_add debits (amt_atoms (jl_amount line))))
          (\<lambda>d. je_totals currency d credits lines)
      | Credit \<Rightarrow> and_then (ok_or EntryOverflow (i128_add credits (amt_atoms (jl_amount line))))
          (\<lambda>c. je_totals currency debits c lines))"

definition je_new :: "string \<Rightarrow> journal_line list \<Rightarrow> content_hash \<Rightarrow> (entry_error, journal_entry) result" where
  "je_new kind lines policy_hash =
     (if length lines < 2 then Inl TooFewLines
      else case lines of [] \<Rightarrow> Inl TooFewLines
      | first # _ \<Rightarrow>
          and_then (je_totals (amt_asset (jl_amount first)) 0 0 lines) (\<lambda>(debits, credits).
            if debits \<noteq> credits then Inl (Unbalanced debits credits)
            else Inr \<lparr>je_kind = kind, je_lines = lines, je_policy_hash = policy_hash\<rparr>))"

definition entry_schema :: string where
  "entry_schema = ''treasury-gaap/journal-entry/v1''"

fun line_json :: "statement_line \<Rightarrow> json" where
  "line_json CryptoAssets = JString ''crypto_assets''"
| "line_json UnrealizedCryptoGainLoss = JString ''unrealized_crypto_gain_loss''"
| "line_json RealizedCryptoGainLoss = JString ''realized_crypto_gain_loss''"
| "line_json TransactionCostsExpense = JString ''transaction_costs_expense''"
| "line_json Cash = JString ''cash''"

fun side_json :: "side \<Rightarrow> json" where
  "side_json Debit = JString ''debit''"
| "side_json Credit = JString ''credit''"

definition journal_line_json :: "journal_line \<Rightarrow> json" where
  "journal_line_json l = json_object [
     (''side'', side_json (jl_side l)),
     (''line'', line_json (jl_line l)),
     (''amount'', amount_json (jl_amount l))]"

definition entry_env :: "libs \<Rightarrow> journal_entry \<Rightarrow> json" where
  "entry_env L e = json_object [
     (''schema'', JString entry_schema),
     (''kind'', JString (je_kind e)),
     (''lines'', JArray (map journal_line_json (je_lines e))),
     (''policy'', JString (to_hex L (je_policy_hash e)))]"

definition entry_hash :: "libs \<Rightarrow> journal_entry \<Rightarrow> (entry_error, content_hash) result" where
  "entry_hash L e = map_err EntryCanon (content_id L (entry_env L e))"

subsection \<open>Entry builders\<close>

datatype fee_treatment = Expense | Capitalize

definition acquisition_entry :: "asset_amount \<Rightarrow> asset_amount \<Rightarrow> fee_treatment \<Rightarrow> content_hash
  \<Rightarrow> (entry_error, journal_entry) result" where
  "acquisition_entry basis fee treatment policy_hash =
     (let currency = amt_asset basis in
      and_then (ok_or EntryOverflow (i128_add (amt_atoms basis) (amt_atoms fee))) (\<lambda>outlay.
        je_new ''acquisition''
          ((case treatment of
              Capitalize \<Rightarrow>
                [\<lparr>jl_side = Debit, jl_line = CryptoAssets, jl_amount = amount_new currency outlay\<rparr>]
            | Expense \<Rightarrow>
                \<lparr>jl_side = Debit, jl_line = CryptoAssets, jl_amount = basis\<rparr> #
                (if amt_atoms fee > 0
                 then [\<lparr>jl_side = Debit, jl_line = TransactionCostsExpense, jl_amount = fee\<rparr>] else []))
           @ [\<lparr>jl_side = Credit, jl_line = Cash, jl_amount = amount_new currency outlay\<rparr>])
          policy_hash))"

definition remeasurement_entry :: "asset_amount \<Rightarrow> asset_amount \<Rightarrow> content_hash
  \<Rightarrow> (entry_error, journal_entry option) result" where
  "remeasurement_entry carrying_before fair_value_now policy_hash =
     (if amt_asset carrying_before \<noteq> amt_asset fair_value_now then Inl MixedCurrencies
      else and_then (ok_or EntryOverflow (i128_sub (amt_atoms fair_value_now) (amt_atoms carrying_before)))
        (\<lambda>delta.
          if delta = 0 then Inr None
          else and_then (ok_or EntryOverflow (i128_abs delta)) (\<lambda>magnitude.
            let amount = amount_new (amt_asset fair_value_now) magnitude;
                (asset_side, pnl_side) = (if delta > 0 then (Debit, Credit) else (Credit, Debit)) in
            and_then (je_new ''asu2023_08_remeasurement''
                [\<lparr>jl_side = asset_side, jl_line = CryptoAssets, jl_amount = amount\<rparr>,
                 \<lparr>jl_side = pnl_side, jl_line = UnrealizedCryptoGainLoss, jl_amount = amount\<rparr>]
                policy_hash)
              (\<lambda>entry. Inr (Some entry)))))"

definition disposal_entry :: "asset_amount \<Rightarrow> asset_amount \<Rightarrow> content_hash
  \<Rightarrow> (entry_error, journal_entry) result" where
  "disposal_entry proceeds carrying_relieved policy_hash =
     (if amt_asset proceeds \<noteq> amt_asset carrying_relieved then Inl MixedCurrencies
      else and_then (ok_or EntryOverflow (i128_sub (amt_atoms proceeds) (amt_atoms carrying_relieved)))
        (\<lambda>gain.
          and_then
            (if gain \<noteq> 0
             then and_then (ok_or EntryOverflow (i128_abs gain)) (\<lambda>magnitude. Inr
               [\<lparr>jl_side = (if gain > 0 then Credit else Debit), jl_line = RealizedCryptoGainLoss,
                 jl_amount = amount_new (amt_asset proceeds) magnitude\<rparr>])
             else Inr [])
            (\<lambda>plug. je_new ''disposal''
              ([\<lparr>jl_side = Debit, jl_line = Cash, jl_amount = proceeds\<rparr>,
                \<lparr>jl_side = Credit, jl_line = CryptoAssets, jl_amount = carrying_relieved\<rparr>] @ plug)
              policy_hash)))"

definition draft_policy_output :: "libs \<Rightarrow> journal_entry \<Rightarrow> tenant_id \<Rightarrow> timestamp_ns \<Rightarrow> content_hash list
  \<Rightarrow> (entry_error, event_draft) result" where
  "draft_policy_output L entry tenant event_time inputs =
     and_then (entry_hash L entry) (\<lambda>h. Inr
       \<lparr>ev_tenant = tenant, ev_layer = PolicyOutput, ev_time = event_time, ev_supersedes = None,
        ev_provenance = ProvPolicyOutput (je_policy_hash entry) inputs,
        ev_payload = json_object [
          (''schema'', JString entry_schema),
          (''booking'', JString ''journal_entry''),
          (''kind'', JString (je_kind entry)),
          (''lines'', JArray (map journal_line_json (je_lines entry))),
          (''entry'', JString (to_hex L h))]\<rparr>)"

subsection \<open>Balance\<close>

text \<open>What a list of lines debits and credits, in all and on one statement line.\<close>

definition side_total :: "side \<Rightarrow> journal_line list \<Rightarrow> int" where
  "side_total s ls = sum_list (map (\<lambda>l. amt_atoms (jl_amount l)) (filter (\<lambda>l. jl_side l = s) ls))"

definition movement :: "statement_line \<Rightarrow> journal_entry \<Rightarrow> int" where
  "movement t e =
     side_total Debit (filter (\<lambda>l. jl_line l = t) (je_lines e)) -
     side_total Credit (filter (\<lambda>l. jl_line l = t) (je_lines e))"

definition lines_ok :: "asset_id \<Rightarrow> journal_line list \<Rightarrow> bool" where
  "lines_ok currency ls \<longleftrightarrow>
     list_all (\<lambda>l. amt_asset (jl_amount l) = currency \<and> 0 < amt_atoms (jl_amount l)) ls"

lemma side_total_simps [simp]:
  "side_total s [] = 0"
  "side_total s (l # ls) = (if jl_side l = s then amt_atoms (jl_amount l) else 0) + side_total s ls"
  by (simp_all add: side_total_def)

lemma lines_ok_simps [simp]:
  "lines_ok c []"
  "lines_ok c (l # ls) \<longleftrightarrow> amt_asset (jl_amount l) = c \<and> 0 < amt_atoms (jl_amount l) \<and> lines_ok c ls"
  by (auto simp: lines_ok_def)

lemma side_total_nonneg: "lines_ok c ls \<Longrightarrow> 0 \<le> side_total s ls"
  by (induction ls) auto

lemma in_i128_add_nonneg: "in_i128 (a + b) \<Longrightarrow> 0 \<le> a \<Longrightarrow> 0 \<le> b \<Longrightarrow> in_i128 a"
  by (simp add: in_i128_def)

lemma je_totals_Inr:
  assumes "0 \<le> d" and "0 \<le> c" and "in_i128 d" and "in_i128 c"
  shows "je_totals currency d c ls = Inr (x, y) \<longleftrightarrow>
    lines_ok currency ls \<and> x = d + side_total Debit ls \<and> y = c + side_total Credit ls \<and>
    in_i128 x \<and> in_i128 y"
  using assms
proof (induction ls arbitrary: d c)
  case (Cons l ls)
  show ?case
  proof (cases "jl_side l")
    case Debit
    then show ?thesis
      using Cons.IH [of "d + amt_atoms (jl_amount l)" c] Cons.prems
        in_i128_add_nonneg [of "d + amt_atoms (jl_amount l)" "side_total Debit ls"]
        side_total_nonneg [of currency ls Debit]
      by (auto simp: result_simps i128_ops add.assoc)
  next
    case Credit
    then show ?thesis
      using Cons.IH [of d "c + amt_atoms (jl_amount l)"] Cons.prems
        in_i128_add_nonneg [of "c + amt_atoms (jl_amount l)" "side_total Credit ls"]
        side_total_nonneg [of currency ls Credit]
      by (auto simp: result_simps i128_ops add.assoc)
  qed
qed auto

lemma in_i128_0 [simp]: "in_i128 0"
  by (simp add: in_i128_def)

lemma je_new_Inr:
  "je_new kind lines p = Inr e \<longleftrightarrow>
     2 \<le> length lines \<and> lines_ok (amt_asset (jl_amount (hd lines))) lines \<and>
     side_total Debit lines = side_total Credit lines \<and> in_i128 (side_total Debit lines) \<and>
     e = \<lparr>je_kind = kind, je_lines = lines, je_policy_hash = p\<rparr>"
proof (cases lines)
  case (Cons l ls)
  then have "je_new kind lines p = Inr e \<longleftrightarrow> 2 \<le> length lines \<and>
      (\<exists>x. je_totals (amt_asset (jl_amount (hd lines))) 0 0 lines = Inr (x, x) \<and>
        e = \<lparr>je_kind = kind, je_lines = lines, je_policy_hash = p\<rparr>)"
    by (auto simp: je_new_def result_simps not_less Suc_le_eq simp del: je_totals.simps split: if_splits)
  then show ?thesis by (auto simp: je_totals_Inr)
qed (simp add: je_new_def)

lemma je_totals_Inl_reason:
  "je_totals currency d c ls = Inl e \<Longrightarrow>
     (e = MixedCurrencies \<and> (\<exists>l \<in> set ls. amt_asset (jl_amount l) \<noteq> currency)) \<or>
     (\<exists>l \<in> set ls. e = NonPositiveAmount (amt_atoms (jl_amount l)) \<and> amt_atoms (jl_amount l) \<le> 0) \<or>
     e = EntryOverflow"
  by (induction ls arbitrary: d c) (auto simp: result_simps split: if_splits side.splits)

subsection \<open>Identity\<close>

lemma line_json_simps [simp]: "json_ok k (line_json l)" "line_json l = line_json m \<longleftrightarrow> l = m"
  by (cases l; simp) (cases l; cases m; simp)

lemma side_json_simps [simp]: "json_ok k (side_json s)" "side_json s = side_json t \<longleftrightarrow> s = t"
  by (cases s; simp) (cases s; cases t; simp)

lemma journal_line_json_ok [simp]: "json_ok (Suc (Suc k)) (journal_line_json l)"
  by (simp add: journal_line_json_def)

lemma journal_line_json_inject [simp]: "journal_line_json l = journal_line_json m \<longleftrightarrow> l = m"
  by (cases l; cases m) (simp add: journal_line_json_def json_object_inject)

lemma journal_lines_inject: "map journal_line_json xs = map journal_line_json ys \<longleftrightarrow> xs = ys"
  by (simp add: inj_map_eq_map inj_def)

interpretation entry_identity: artifact entry_env "\<lambda>e. True"
proof
  fix x y :: journal_entry and L
  show "json_ok max_depth (entry_env L x)" by (rule json_ok_shallow) (simp add: entry_env_def)
  show "libs_ok L \<Longrightarrow> entry_env L x = entry_env L y \<Longrightarrow> x = y"
    by (cases x; cases y) (simp add: entry_env_def json_object_inject journal_lines_inject)
qed

subsection \<open>What each builder moves\<close>

lemma entry_hash_total: "libs_ok L \<Longrightarrow> \<exists>h. entry_hash L e = Inr h"
  using entry_identity.hash_total [of L e] by (simp add: entry_hash_def)

lemma movement_entry [simp]:
  "movement t \<lparr>je_kind = k, je_lines = [], je_policy_hash = p\<rparr> = 0"
  "movement t \<lparr>je_kind = k, je_lines = l # ls, je_policy_hash = p\<rparr> =
     (if jl_line l = t then case jl_side l of Debit \<Rightarrow> amt_atoms (jl_amount l) | Credit \<Rightarrow> - amt_atoms (jl_amount l)
      else 0) + movement t \<lparr>je_kind = k, je_lines = ls, je_policy_hash = p\<rparr>"
  by (auto simp: movement_def split: side.splits)

lemma remeasurement_None:
  "remeasurement_entry c f p = Inr None \<longleftrightarrow> c = f"
  by (auto simp: remeasurement_entry_def result_simps i128_ops Let_def amount_eq_iff in_i128_def split: if_splits)

lemma remeasurement_Some:
  assumes "remeasurement_entry c f p = Inr (Some e)"
  shows "amt_asset c = amt_asset f \<and> je_policy_hash e = p \<and> movement t e =
    (if t = CryptoAssets then amt_atoms f - amt_atoms c
     else if t = UnrealizedCryptoGainLoss then amt_atoms c - amt_atoms f else 0)"
  using assms
  by (auto simp: remeasurement_entry_def result_simps i128_ops je_new_Inr Let_def split: if_splits)

lemma disposal_Inr:
  assumes "disposal_entry s c p = Inr e"
  shows "amt_asset s = amt_asset c \<and> 0 < amt_atoms s \<and> 0 < amt_atoms c \<and> je_policy_hash e = p \<and> movement t e =
    (if t = Cash then amt_atoms s else if t = CryptoAssets then - amt_atoms c
     else if t = RealizedCryptoGainLoss then amt_atoms c - amt_atoms s else 0)"
  using assms
  by (auto simp: disposal_entry_def result_simps i128_ops je_new_Inr Let_def split: if_splits)

lemma acquisition_expense:
  assumes "acquisition_entry b f Expense p = Inr e"
  shows "0 < amt_atoms b \<and> 0 \<le> amt_atoms f \<and> (0 < amt_atoms f \<longrightarrow> amt_asset f = amt_asset b) \<and>
    je_policy_hash e = p \<and> movement t e =
    (if t = CryptoAssets then amt_atoms b else if t = TransactionCostsExpense then amt_atoms f
     else if t = Cash then - (amt_atoms b + amt_atoms f) else 0)"
  using assms
  by (auto simp: acquisition_entry_def result_simps i128_ops je_new_Inr Let_def split: if_splits)

lemma acquisition_capitalize:
  assumes "acquisition_entry b f Capitalize p = Inr e"
  shows "0 < amt_atoms b + amt_atoms f \<and> je_policy_hash e = p \<and> movement t e =
    (if t = CryptoAssets then amt_atoms b + amt_atoms f
     else if t = Cash then - (amt_atoms b + amt_atoms f) else 0)"
  using assms
  by (auto simp: acquisition_entry_def result_simps i128_ops je_new_Inr Let_def split: if_splits)

lemma acquisition_total:
  assumes "0 < amt_atoms b" and "0 \<le> amt_atoms f" and "amt_asset f = amt_asset b"
    and "in_i128 (amt_atoms b + amt_atoms f)"
  shows "\<exists>e. acquisition_entry b f treatment p = Inr e"
  using assms
  by (cases treatment) (auto simp: acquisition_entry_def result_simps i128_ops i128_opt_def je_new_Inr Let_def)

lemma disposal_total:
  assumes "0 < amt_atoms s" and "0 < amt_atoms c" and "amt_asset s = amt_asset c"
    and "in_i128 (amt_atoms s)" and "in_i128 (amt_atoms c)"
  shows "\<exists>e. disposal_entry s c p = Inr e"
proof -
  have "in_i128 (amt_atoms s - amt_atoms c)" "in_i128 \<bar>amt_atoms s - amt_atoms c\<bar>"
    using assms by (auto simp: in_i128_def)
  with assms show ?thesis
    by (auto simp: disposal_entry_def result_simps i128_ops i128_opt_def je_new_Inr Let_def)
qed

subsection \<open>Income\<close>

definition net_income :: "journal_entry list \<Rightarrow> int" where
  "net_income es = - sum_list (map (\<lambda>e. \<Sum>t \<leftarrow> [UnrealizedCryptoGainLoss, RealizedCryptoGainLoss,
     TransactionCostsExpense]. movement t e) es)"

definition line_balance :: "statement_line \<Rightarrow> journal_entry list \<Rightarrow> int" where
  "line_balance t es = sum_list (map (movement t) es)"

lemma line_balance_append [simp]: "line_balance t (xs @ ys) = line_balance t xs + line_balance t ys"
  by (simp add: line_balance_def)

lemma movements_cancel: "je_new k ls p = Inr e \<Longrightarrow>
  (\<Sum>t \<leftarrow> [CryptoAssets, Cash, UnrealizedCryptoGainLoss, RealizedCryptoGainLoss, TransactionCostsExpense]. movement t e) = 0"
proof -
  assume new: "je_new k ls p = Inr e"
  have "(\<Sum>t \<leftarrow> [CryptoAssets, Cash, UnrealizedCryptoGainLoss, RealizedCryptoGainLoss, TransactionCostsExpense].
      movement t \<lparr>je_kind = k, je_lines = ls, je_policy_hash = p\<rparr>) = side_total Debit ls - side_total Credit ls"
  proof (induction ls)
    case (Cons l ls)
    then show ?case by (cases "jl_line l"; cases "jl_side l") simp_all
  qed simp
  with new show ?thesis by (auto simp: je_new_Inr)
qed

text \<open>The marks of a holding, one after the other: each remeasures from the value before it.\<close>

fun marks :: "asset_amount \<Rightarrow> asset_amount list \<Rightarrow> content_hash \<Rightarrow> (entry_error, journal_entry list) result" where
  "marks carrying [] p = Inr []"
| "marks carrying (f # fs) p =
     and_then (remeasurement_entry carrying f p) (\<lambda>e. and_then (marks f fs p) (\<lambda>es.
       Inr ((case e of None \<Rightarrow> [] | Some x \<Rightarrow> [x]) @ es)))"

lemma marks_balance:
  assumes "marks c fs p = Inr es"
  shows "line_balance CryptoAssets es = amt_atoms (last (c # fs)) - amt_atoms c \<and>
    line_balance Cash es = 0 \<and> line_balance RealizedCryptoGainLoss es = 0 \<and>
    line_balance TransactionCostsExpense es = 0 \<and>
    line_balance UnrealizedCryptoGainLoss es = amt_atoms c - amt_atoms (last (c # fs))"
  using assms
proof (induction fs arbitrary: c es)
  case (Cons f fs)
  then obtain e es' where e: "remeasurement_entry c f p = Inr e" and es': "marks f fs p = Inr es'"
    and es: "es = (case e of None \<Rightarrow> [] | Some x \<Rightarrow> [x]) @ es'"
    by (auto simp: result_simps)
  show ?case
  proof (cases e)
    case None
    then show ?thesis using Cons.IH [OF es'] e es by (auto simp: remeasurement_None)
  next
    case (Some x)
    note e' = e [unfolded Some]
    show ?thesis
      using Cons.IH [OF es'] es Some remeasurement_Some [OF e', of CryptoAssets] remeasurement_Some [OF e', of Cash]
        remeasurement_Some [OF e', of RealizedCryptoGainLoss] remeasurement_Some [OF e', of TransactionCostsExpense]
        remeasurement_Some [OF e', of UnrealizedCryptoGainLoss]
      by (simp add: line_balance_def)
  qed
qed (simp add: line_balance_def)

lemma net_income_lines:
  "net_income es = - (line_balance UnrealizedCryptoGainLoss es + line_balance RealizedCryptoGainLoss es +
     line_balance TransactionCostsExpense es)"
  by (induction es) (simp_all add: net_income_def line_balance_def)

subsection \<open>Properties\<close>

text \<open>C10: An unbalanced journal entry cannot be constructed: the constructor succeeds exactly when there
  are at least two lines, all of one currency and strictly positive, whose debits and credits have the
  same total and that total fits 128 bits, and the entry then holds exactly those lines.\<close>

theorem journal_entry_balanced:
  "je_new kind lines p = Inr e \<longleftrightarrow>
     2 \<le> length lines \<and>
     list_all (\<lambda>l. amt_asset (jl_amount l) = amt_asset (jl_amount (hd lines)) \<and> 0 < amt_atoms (jl_amount l)) lines \<and>
     sum_list (map (\<lambda>l. amt_atoms (jl_amount l)) (filter (\<lambda>l. jl_side l = Debit) lines)) =
       sum_list (map (\<lambda>l. amt_atoms (jl_amount l)) (filter (\<lambda>l. jl_side l = Credit) lines)) \<and>
     sum_list (map (\<lambda>l. amt_atoms (jl_amount l)) (filter (\<lambda>l. jl_side l = Debit) lines)) < 2 ^ 127 \<and>
     e = \<lparr>je_kind = kind, je_lines = lines, je_policy_hash = p\<rparr>"
proof -
  have "in_i128 (side_total Debit lines) \<longleftrightarrow> side_total Debit lines < 2 ^ 127"
    if "lines_ok (amt_asset (jl_amount (hd lines))) lines"
    using side_total_nonneg [OF that, of Debit] by (simp add: in_i128_def)
  then show ?thesis unfolding je_new_Inr lines_ok_def side_total_def by blast
qed

text \<open>C24: The entry builders compose over the life of a holding: after an acquisition under either fee
  election, any number of remeasurements and the disposal of the last carrying amount, no crypto is left
  on the balance sheet, the cash balance is proceeds less outlay, and net income equals that cash gain,
  whatever the marks in between were.\<close>

theorem holding_life:
  assumes "acquisition_entry basis fee treatment p = Inr acq"
    and "carrying = amount_new (amt_asset basis)
      (amt_atoms basis + (case treatment of Capitalize \<Rightarrow> amt_atoms fee | Expense \<Rightarrow> 0))"
    and "marks carrying fair_values p = Inr remeasured"
    and "disposal_entry proceeds (last (carrying # fair_values)) p = Inr disp"
  shows "line_balance CryptoAssets (acq # remeasured @ [disp]) = 0 \<and>
    line_balance Cash (acq # remeasured @ [disp]) = amt_atoms proceeds - (amt_atoms basis + amt_atoms fee) \<and>
    net_income (acq # remeasured @ [disp]) = amt_atoms proceeds - (amt_atoms basis + amt_atoms fee)"
proof -
  have acq: "movement CryptoAssets acq = amt_atoms carrying"
    "movement Cash acq = - (amt_atoms basis + amt_atoms fee)"
    "movement TransactionCostsExpense acq = amt_atoms basis + amt_atoms fee - amt_atoms carrying"
    "movement UnrealizedCryptoGainLoss acq = 0" "movement RealizedCryptoGainLoss acq = 0"
    using assms(1,2) acquisition_expense [of basis fee p acq] acquisition_capitalize [of basis fee p acq]
    by (cases treatment; simp)+
  note disp = disposal_Inr [OF assms(4)]
  show ?thesis
    using acq marks_balance [OF assms(3)] disp [of Cash] disp [of CryptoAssets] disp [of RealizedCryptoGainLoss]
      disp [of UnrealizedCryptoGainLoss] disp [of TransactionCostsExpense]
    by (simp add: line_balance_def net_income_lines)
qed

theorem holding_life_witness:
  "\<exists>acq remeasured disp.
     acquisition_entry (amount_new ''USD'' 100) (amount_new ''USD'' 3) Expense (hash_of_byte (CHR 0x01)) = Inr acq \<and>
     marks (amount_new ''USD'' 100) [amount_new ''USD'' 60] (hash_of_byte (CHR 0x01)) = Inr remeasured \<and>
     disposal_entry (amount_new ''USD'' 75) (amount_new ''USD'' 60) (hash_of_byte (CHR 0x01)) = Inr disp \<and>
     net_income (acq # remeasured @ [disp]) = - 28"
proof -
  let ?p = "hash_of_byte (CHR 0x01)"
  note eval = je_new_def i128_ops i128_opt_def in_i128_def Let_def
  obtain acq where acq: "acquisition_entry (amount_new ''USD'' 100) (amount_new ''USD'' 3) Expense ?p = Inr acq"
    by (simp add: acquisition_entry_def eval)
  obtain rem where rem: "marks (amount_new ''USD'' 100) [amount_new ''USD'' 60] ?p = Inr rem"
    by (simp add: remeasurement_entry_def eval)
  obtain disp where disp: "disposal_entry (amount_new ''USD'' 75) (amount_new ''USD'' 60) ?p = Inr disp"
    by (simp add: disposal_entry_def eval)
  show ?thesis using holding_life [OF acq _ rem, of "amount_new ''USD'' 75" disp] acq rem disp by auto
qed

text \<open>The capitalizing branch of the acquisition builder never looks at the currency of the fee: an
  acquisition of 100 USD with a fee of 5 BTC is booked as an outlay of 105 USD, although the builder
  documents an error for mixed currencies and the expensing branch reports it.\<close>

theorem capitalized_fee_mixes_currencies:
  "acquisition_entry (amount_new ''USD'' 100) (amount_new ''BTC'' 5) Capitalize p =
     Inr \<lparr>je_kind = ''acquisition'', je_lines = [
         \<lparr>jl_side = Debit, jl_line = CryptoAssets, jl_amount = amount_new ''USD'' 105\<rparr>,
         \<lparr>jl_side = Credit, jl_line = Cash, jl_amount = amount_new ''USD'' 105\<rparr>],
       je_policy_hash = p\<rparr> \<and>
   acquisition_entry (amount_new ''USD'' 100) (amount_new ''BTC'' 5) Expense p = Inl MixedCurrencies"
  by (simp add: acquisition_entry_def je_new_def i128_ops i128_opt_def in_i128_def Let_def)

end
