(* ===== verification/Posting.thy ===== *)
theory Posting
  imports Gaap Dual_Control
begin

section \<open>The posting protocol (treasury-posting)\<close>

text \<open>
  Models \<open>crates/treasury-posting/src/\<close> \<open>batch.rs\<close> and \<open>protocol.rs\<close>: batches whose content hash is
  the idempotency key, and the state machine every general-ledger adapter is driven by. The step
  relation \<open>pp_step\<close> has one rule per operation of the protocol, failures included. The lemmas show
  that a batch leaves the approval state only through two different people, that its state moves
  only along the documented edges, that a posted batch is never submitted again, and what a
  read-back verification establishes.
\<close>

subsection \<open>Batches\<close>

record posting_batch =
  pb_tenant :: tenant_id
  pb_target_gl :: string
  pb_period :: string
  pb_entries :: "journal_entry list"

definition batch_schema :: string where
  "batch_schema = ''treasury-posting/batch/v1''"

fun canon_of_entry_error :: "entry_error \<Rightarrow> canon_error" where
  "canon_of_entry_error (EntryCanon e) = e"
| "canon_of_entry_error _ = Encode ''entry hash failed''"

fun entry_hashes :: "libs \<Rightarrow> journal_entry list \<Rightarrow> (canon_error, content_hash list) result" where
  "entry_hashes L [] = Inr []"
| "entry_hashes L (e # es) =
     and_then (map_err canon_of_entry_error (entry_hash L e)) (\<lambda>h.
       and_then (entry_hashes L es) (\<lambda>hs. Inr (h # hs)))"

definition batch_env :: "libs \<Rightarrow> tenant_id \<times> string \<times> string \<times> content_hash list \<Rightarrow> json" where
  "batch_env L x = (case x of (tenant, target_gl, period, hashes) \<Rightarrow> json_object [
     (''schema'', JString batch_schema),
     (''tenant'', JString tenant),
     (''target_gl'', JString target_gl),
     (''period'', JString period),
     (''entries'', JArray (map (\<lambda>h. JString (to_hex L h)) hashes))])"

definition batch_id :: "libs \<Rightarrow> posting_batch \<Rightarrow> (canon_error, content_hash) result" where
  "batch_id L b =
     and_then (entry_hashes L (pb_entries b)) (\<lambda>hashes.
       content_id L (batch_env L (pb_tenant b, pb_target_gl b, pb_period b, hashes)))"

definition entry_fingerprint :: "libs \<Rightarrow> posting_batch \<Rightarrow> (canon_error, content_hash list) result" where
  "entry_fingerprint L b = and_then (entry_hashes L (pb_entries b)) (\<lambda>hashes. Inr (sort_dedup hashes))"

subsection \<open>Protocol\<close>

datatype posting_state =
    AwaitingApproval
  | ReadyToSubmit
  | Submitting
  | Posted string content_hash
  | Unknown
  | Verified string content_hash
  | VerificationFailed "content_hash list" "content_hash list" content_hash

record posting_protocol =
  pp_approvals :: "posting_batch dual_control_queue"
  pp_states :: "(content_hash, posting_state) hashmap"

datatype posting_error =
    UnknownBatch content_hash
  | InvalidTransition
  | DualControl dual_control_error
  | PostingCanon canon_error

definition pp_new :: posting_protocol where
  "pp_new = \<lparr>pp_approvals = dc_new, pp_states = []\<rparr>"

definition pp_register :: "libs \<Rightarrow> posting_batch \<Rightarrow> actor_id \<Rightarrow> posting_protocol
  \<Rightarrow> (posting_error, content_hash) result \<times> posting_protocol" where
  "pp_register L batch preparer P =
     (case batch_id L batch of
        Inl e \<Rightarrow> (Inl (PostingCanon e), P)
      | Inr bid \<Rightarrow> (Inr bid, \<lparr>pp_approvals = dc_propose (pp_approvals P) bid batch preparer,
                            pp_states = hm_or_insert bid AwaitingApproval (pp_states P)\<rparr>))"

definition pp_release :: "content_hash \<Rightarrow> actor_id \<Rightarrow> posting_protocol
  \<Rightarrow> (posting_error, unit) result \<times> posting_protocol" where
  "pp_release bid approver P =
     (case dc_confirm (pp_approvals P) bid approver of
        (Inl e, approvals) \<Rightarrow> (Inl (DualControl e), P\<lparr>pp_approvals := approvals\<rparr>)
      | (Inr _, approvals) \<Rightarrow>
          (let P1 = P\<lparr>pp_approvals := approvals\<rparr> in
           case hm_get (pp_states P1) bid of
             None \<Rightarrow> (Inl (UnknownBatch bid), P1)
           | Some s \<Rightarrow>
               if s \<noteq> AwaitingApproval then (Inl InvalidTransition, P1)
               else (Inr (), P1\<lparr>pp_states := hm_insert bid ReadyToSubmit (pp_states P1)\<rparr>)))"

definition pp_begin_submit :: "content_hash \<Rightarrow> posting_protocol
  \<Rightarrow> (posting_error, unit) result \<times> posting_protocol" where
  "pp_begin_submit bid P =
     (case hm_get (pp_states P) bid of
        None \<Rightarrow> (Inl (UnknownBatch bid), P)
      | Some s \<Rightarrow>
          if s \<noteq> ReadyToSubmit then (Inl InvalidTransition, P)
          else (Inr (), P\<lparr>pp_states := hm_insert bid Submitting (pp_states P)\<rparr>))"

definition pp_confirm_posted :: "content_hash \<Rightarrow> string \<Rightarrow> content_hash \<Rightarrow> posting_protocol
  \<Rightarrow> (posting_error, unit) result \<times> posting_protocol" where
  "pp_confirm_posted bid gl_ref response_evidence P =
     (case hm_get (pp_states P) bid of
        None \<Rightarrow> (Inl (UnknownBatch bid), P)
      | Some s \<Rightarrow>
          if s \<noteq> Submitting then (Inl InvalidTransition, P)
          else (Inr (), P\<lparr>pp_states := hm_insert bid (Posted gl_ref response_evidence) (pp_states P)\<rparr>))"

definition pp_report_unknown :: "content_hash \<Rightarrow> posting_protocol
  \<Rightarrow> (posting_error, unit) result \<times> posting_protocol" where
  "pp_report_unknown bid P =
     (case hm_get (pp_states P) bid of
        None \<Rightarrow> (Inl (UnknownBatch bid), P)
      | Some s \<Rightarrow>
          if s \<noteq> Submitting then (Inl InvalidTransition, P)
          else (Inr (), P\<lparr>pp_states := hm_insert bid Unknown (pp_states P)\<rparr>))"

definition pp_resolve_unknown :: "content_hash \<Rightarrow> (string \<times> content_hash) option \<Rightarrow> posting_protocol
  \<Rightarrow> (posting_error, unit) result \<times> posting_protocol" where
  "pp_resolve_unknown bid found P =
     (case hm_get (pp_states P) bid of
        None \<Rightarrow> (Inl (UnknownBatch bid), P)
      | Some s \<Rightarrow>
          if s \<noteq> Unknown then (Inl InvalidTransition, P)
          else (Inr (), P\<lparr>pp_states := hm_insert bid
                 (case found of Some (gl_ref, response_evidence) \<Rightarrow> Posted gl_ref response_evidence
                  | None \<Rightarrow> ReadyToSubmit) (pp_states P)\<rparr>))"

text \<open>\<open>a.difference(b)\<close> of two ordered sets, in iteration order.\<close>

definition set_difference :: "'a::linorder list \<Rightarrow> 'a list \<Rightarrow> 'a list" where
  "set_difference xs ys = filter (\<lambda>x. x \<notin> set ys) (sort_dedup xs)"

definition pp_verify :: "libs \<Rightarrow> content_hash \<Rightarrow> content_hash list \<Rightarrow> content_hash \<Rightarrow> posting_protocol
  \<Rightarrow> (posting_error, unit) result \<times> posting_protocol" where
  "pp_verify L bid readback_entry_hashes readback_evidence P =
     (case dc_payload (pp_approvals P) bid of
        None \<Rightarrow> (Inl (UnknownBatch bid), P)
      | Some batch \<Rightarrow>
          (case entry_fingerprint L batch of
             Inl e \<Rightarrow> (Inl (PostingCanon e), P)
           | Inr expected \<Rightarrow>
               (case hm_get (pp_states P) bid of
                  None \<Rightarrow> (Inl (UnknownBatch bid), P)
                | Some (Posted gl_ref _) \<Rightarrow>
                    (let missing = set_difference expected readback_entry_hashes;
                         unexpected = set_difference readback_entry_hashes expected in
                     (Inr (), P\<lparr>pp_states := hm_insert bid
                        (if missing = [] \<and> unexpected = [] then Verified gl_ref readback_evidence
                         else VerificationFailed missing unexpected readback_evidence) (pp_states P)\<rparr>))
                | Some _ \<Rightarrow> (Inl InvalidTransition, P))))"

definition pp_state :: "posting_protocol \<Rightarrow> content_hash \<Rightarrow> posting_state option" where
  "pp_state P bid = hm_get (pp_states P) bid"

definition pp_approval :: "posting_protocol \<Rightarrow> content_hash \<Rightarrow> dual_control_state option" where
  "pp_approval P bid = dc_state (pp_approvals P) bid"

subsection \<open>The step relation\<close>

inductive pp_step :: "libs \<Rightarrow> posting_protocol \<Rightarrow> posting_protocol \<Rightarrow> bool" for L where
  step_register: "pp_step L P (snd (pp_register L batch preparer P))"
| step_release: "pp_step L P (snd (pp_release bid approver P))"
| step_begin: "pp_step L P (snd (pp_begin_submit bid P))"
| step_posted: "pp_step L P (snd (pp_confirm_posted bid gl_ref ev P))"
| step_unknown: "pp_step L P (snd (pp_report_unknown bid P))"
| step_resolve: "pp_step L P (snd (pp_resolve_unknown bid found P))"
| step_verify: "pp_step L P (snd (pp_verify L bid hs ev P))"

text \<open>The documented edges of one batch's life.\<close>

inductive edge :: "posting_state \<Rightarrow> posting_state \<Rightarrow> bool" where
  edge_release: "edge AwaitingApproval ReadyToSubmit"
| edge_begin: "edge ReadyToSubmit Submitting"
| edge_ack: "edge Submitting (Posted r e)"
| edge_lost: "edge Submitting Unknown"
| edge_found: "edge Unknown (Posted r e)"
| edge_absent: "edge Unknown ReadyToSubmit"
| edge_verified: "edge (Posted r e) (Verified r e')"
| edge_failed: "edge (Posted r e) (VerificationFailed m u e')"

inductive_cases edge_from:
  "edge AwaitingApproval s" "edge ReadyToSubmit s" "edge Submitting s" "edge Unknown s"
  "edge (Posted r e) s" "edge (Verified r e) s" "edge (VerificationFailed m u e) s"

lemmas pp_defs = pp_register_def pp_release_def pp_begin_submit_def pp_confirm_posted_def
  pp_report_unknown_def pp_resolve_unknown_def pp_verify_def

lemma pp_step_edge:
  assumes "pp_step L P P'"
  shows "pp_state P' bid = pp_state P bid \<or> (pp_state P bid = None \<and> pp_state P' bid = Some AwaitingApproval) \<or>
    (\<exists>s s'. pp_state P bid = Some s \<and> pp_state P' bid = Some s' \<and> edge s s')"
  using assms
proof cases
  case (step_register batch preparer)
  then show ?thesis by (auto simp: pp_register_def pp_state_def split: sum.splits)
next
  case (step_release i approver)
  then show ?thesis
    by (auto simp: pp_release_def pp_state_def Let_def edge_release split: sum.splits prod.splits option.splits)
next
  case (step_begin i)
  then show ?thesis by (auto simp: pp_begin_submit_def pp_state_def edge_begin split: option.splits)
next
  case (step_posted i gl_ref ev)
  then show ?thesis by (auto simp: pp_confirm_posted_def pp_state_def edge_ack split: option.splits)
next
  case (step_unknown i)
  then show ?thesis by (auto simp: pp_report_unknown_def pp_state_def edge_lost split: option.splits)
next
  case (step_resolve i found)
  then show ?thesis
    by (auto simp: pp_resolve_unknown_def pp_state_def edge_found edge_absent split: option.splits)
next
  case (step_verify i hs ev)
  then show ?thesis
    by (auto simp: pp_verify_def pp_state_def Let_def edge_verified edge_failed
        split: option.splits sum.splits posting_state.splits)
qed

subsection \<open>Approval and state agree\<close>

text \<open>
  A batch is registered with both halves of the protocol at once, it awaits approval exactly as
  long as its approval is open, and it is registered under its own key.
\<close>

fun approval_fits :: "dual_control_state option \<Rightarrow> posting_state option \<Rightarrow> bool" where
  "approval_fits None s = (s = None)"
| "approval_fits (Some (DC_Asserted p)) s = (s = Some AwaitingApproval)"
| "approval_fits (Some (DC_Confirmed p a)) s = (p \<noteq> a \<and> s \<noteq> None \<and> s \<noteq> Some AwaitingApproval)"
| "approval_fits (Some (DC_Rejected a r)) s = False"

definition pp_inv :: "libs \<Rightarrow> posting_protocol \<Rightarrow> bool" where
  "pp_inv L P \<longleftrightarrow> (\<forall>bid. approval_fits (pp_approval P bid) (pp_state P bid) \<and>
     (\<forall>b. dc_payload (pp_approvals P) bid = Some b \<longrightarrow> batch_id L b = Inr bid))"

lemma fits_None: "approval_fits x None \<longleftrightarrow> x = None"
  by (cases "(x, None :: posting_state option)" rule: approval_fits.cases) simp_all

lemma fits_past: "approval_fits x (Some s) \<Longrightarrow> s \<noteq> AwaitingApproval \<Longrightarrow>
    \<exists>p a. x = Some (DC_Confirmed p a) \<and> p \<noteq> a"
  by (cases "(x, Some s)" rule: approval_fits.cases) simp_all

lemma fits_move: "approval_fits x (Some s) \<Longrightarrow> s \<noteq> AwaitingApproval \<Longrightarrow> t \<noteq> AwaitingApproval \<Longrightarrow>
    approval_fits x (Some t)"
  by (auto dest: fits_past)

lemma pp_inv_new: "pp_inv L pp_new"
  by (simp add: pp_inv_def pp_new_def pp_state_def pp_approval_def)

text \<open>Steps that leave the approvals alone and move one batch that is past its approval.\<close>

lemma pp_inv_move:
  assumes "pp_inv L P" and "pp_state P bid = Some s" and "s \<noteq> AwaitingApproval" and "t \<noteq> AwaitingApproval"
  shows "pp_inv L (P\<lparr>pp_states := hm_insert bid t (pp_states P)\<rparr>)"
proof -
  have "approval_fits (pp_approval P bid) (Some t)"
    using assms(1,2) fits_move [OF _ assms(3,4)] unfolding pp_inv_def by metis
  then show ?thesis using assms(1) by (auto simp: pp_inv_def pp_state_def pp_approval_def)
qed

lemma pp_release_inv:
  assumes "pp_inv L P"
  shows "pp_inv L (snd (pp_release bid approver P))"
proof (cases "dc_confirm (pp_approvals P) bid approver")
  case (Pair r q)
  show ?thesis
  proof (cases r)
    case (Inl e)
    then show ?thesis using assms Pair dc_confirm_Inl by (fastforce simp: pp_release_def)
  next
    case (Inr u)
    with Pair have conf: "dc_confirm (pp_approvals P) bid approver = (Inr (), q)" by simp
    note st = dc_confirm_state(1) [OF conf] and pay = dc_confirm_state(2) [OF conf]
    then obtain p where p: "pp_approval P bid = Some (DC_Asserted p)" by (auto simp: pp_approval_def)
    then have s: "hm_get (pp_states P) bid = Some AwaitingApproval"
      using assms unfolding pp_inv_def pp_state_def by (metis approval_fits.simps(2))
    have run: "snd (pp_release bid approver P) =
        \<lparr>pp_approvals = q, pp_states = hm_insert bid ReadyToSubmit (pp_states P)\<rparr>"
      using conf s by (cases P) (simp add: pp_release_def Let_def)
    have "dc_state q i = (if i = bid then Some (DC_Confirmed p approver) else dc_state (pp_approvals P) i) \<and> p \<noteq> approver" for i
      using st [of i] p by (auto simp: pp_approval_def)
    then show ?thesis
      using assms pay unfolding run pp_inv_def pp_state_def pp_approval_def by auto
  qed
qed

lemma pp_register_inv:
  assumes "pp_inv L P"
  shows "pp_inv L (snd (pp_register L batch preparer P))"
proof (cases "batch_id L batch")
  case (Inr b)
  have same: "hm_get (pp_states P) b = None \<longleftrightarrow> dc_state (pp_approvals P) b = None"
    using assms unfolding pp_inv_def pp_state_def pp_approval_def by (metis approval_fits.simps(1) fits_None)
  show ?thesis
    using assms Inr same unfolding pp_inv_def pp_state_def pp_approval_def
    by (auto simp: pp_register_def dc_propose_state dc_propose_payload dc_state_payload)
qed (simp add: pp_register_def assms)

lemma pp_step_inv:
  assumes "pp_step L P P'" and "pp_inv L P"
  shows "pp_inv L P'"
  using assms(1)
proof cases
  case (step_register batch preparer)
  then show ?thesis using pp_register_inv [OF assms(2)] by simp
next
  case (step_release i approver)
  then show ?thesis using pp_release_inv [OF assms(2)] by simp
next
  case (step_begin i)
  then show ?thesis using assms(2) pp_inv_move [OF assms(2), of i ReadyToSubmit Submitting]
    by (auto simp: pp_begin_submit_def pp_state_def split: option.splits)
next
  case (step_posted i gl_ref ev)
  then show ?thesis using assms(2) pp_inv_move [OF assms(2), of i Submitting "Posted gl_ref ev"]
    by (auto simp: pp_confirm_posted_def pp_state_def split: option.splits)
next
  case (step_unknown i)
  then show ?thesis using assms(2) pp_inv_move [OF assms(2), of i Submitting Unknown]
    by (auto simp: pp_report_unknown_def pp_state_def split: option.splits)
next
  case (step_resolve i found)
  then show ?thesis using assms(2) pp_inv_move [OF assms(2), of i Unknown]
    by (auto simp: pp_resolve_unknown_def pp_state_def split: option.splits)
next
  case (step_verify i hs ev)
  then show ?thesis using assms(2) pp_inv_move [OF assms(2), of i]
    by (auto simp: pp_verify_def pp_state_def Let_def split: option.splits sum.splits posting_state.splits)
qed

lemma pp_reach_inv: "(pp_step L)\<^sup>*\<^sup>* pp_new P \<Longrightarrow> pp_inv L P"
  by (induction rule: rtranclp_induct) (simp_all add: pp_inv_new pp_step_inv)

subsection \<open>Histories of one batch\<close>

text \<open>Where a posted batch can still be: everything reachable along the edges from \<open>Posted\<close>.\<close>

fun settled :: "string \<Rightarrow> content_hash \<Rightarrow> posting_state \<Rightarrow> bool" where
  "settled r e (Posted r' e') = (r' = r \<and> e' = e)"
| "settled r e (Verified r' e') = (r' = r)"
| "settled r e (VerificationFailed m u e') = True"
| "settled r e _ = False"

lemma settled_edge: "settled r e s \<Longrightarrow> edge s s' \<Longrightarrow> settled r e s'"
  by (cases s) (auto elim: edge_from)

lemma settled_steps:
  "(pp_step L)\<^sup>*\<^sup>* P P' \<Longrightarrow> pp_state P bid = Some s \<Longrightarrow> settled r e s \<Longrightarrow>
     \<exists>s'. pp_state P' bid = Some s' \<and> settled r e s'"
proof (induction rule: rtranclp_induct)
  case (step P' P'')
  then show ?case using pp_step_edge [OF step(2), of bid] settled_edge by fastforce
qed blast

fun is_final :: "posting_state \<Rightarrow> bool" where
  "is_final (Verified r e) = True"
| "is_final (VerificationFailed m u e) = True"
| "is_final _ = False"

lemma final_steps:
  "(pp_step L)\<^sup>*\<^sup>* P P' \<Longrightarrow> pp_state P bid = Some s \<Longrightarrow> is_final s \<Longrightarrow> pp_state P' bid = Some s"
proof (induction rule: rtranclp_induct)
  case (step P' P'')
  then show ?case using pp_step_edge [OF step(2), of bid] by (cases s) (auto elim: edge_from)
qed blast

subsection \<open>Verification\<close>

lemma set_set_difference [simp]: "set (set_difference xs ys) = set xs - set ys"
  by (auto simp: set_difference_def)

lemma set_difference_Nil: "set_difference xs ys = [] \<longleftrightarrow> set xs \<subseteq> set ys"
  using set_set_difference [of xs ys] by (metis Diff_eq_empty_iff set_empty)

definition entry_digest :: "libs \<Rightarrow> journal_entry \<Rightarrow> content_hash" where
  "entry_digest L e = sha256 L (preimage L (entry_env L e))"

lemma entry_hashes_Inr:
  assumes "libs_ok L"
  shows "entry_hashes L es = Inr (map (entry_digest L) es)"
  by (induction es) (simp_all add: entry_hash_def entry_digest_def entry_identity.hash_total [OF assms])

lemma pp_verify_Posted:
  assumes "pp_state P bid = Some (Posted r e)" and "dc_payload (pp_approvals P) bid = Some b"
    and "entry_fingerprint L b = Inr expected"
  shows "pp_verify L bid hs ev P = (Inr (), P\<lparr>pp_states := hm_insert bid
    (if set hs = set expected then Verified r ev
     else VerificationFailed (set_difference expected hs) (set_difference hs expected) ev) (pp_states P)\<rparr>)"
  using assms by (auto simp: pp_verify_def pp_state_def Let_def set_difference_Nil)

subsection \<open>Identity of batches\<close>

interpretation batch_identity: artifact batch_env "\<lambda>x. True"
proof
  fix x y :: "tenant_id \<times> string \<times> string \<times> content_hash list" and L
  show "json_ok max_depth (batch_env L x)"
    by (rule json_ok_shallow) (cases x, auto simp: batch_env_def)
  show "libs_ok L \<Longrightarrow> batch_env L x = batch_env L y \<Longrightarrow> x = y"
    by (cases x; cases y) (simp add: batch_env_def json_object_inject hex_list_inject)
qed

definition batch_preimage :: "libs \<Rightarrow> posting_batch \<Rightarrow> string" where
  "batch_preimage L b = preimage L (batch_env L (pb_tenant b, pb_target_gl b, pb_period b, map (entry_digest L) (pb_entries b)))"

definition batch_strings :: "libs \<Rightarrow> posting_batch \<Rightarrow> string set" where
  "batch_strings L b = insert (batch_preimage L b) ((\<lambda>e. preimage L (entry_env L e)) ` set (pb_entries b))"

lemma batch_id_Inr:
  assumes "libs_ok L"
  shows "batch_id L b = Inr (sha256 L (batch_preimage L b))"
  by (simp add: batch_id_def entry_hashes_Inr [OF assms] batch_preimage_def
      batch_identity.hash_total [OF assms])

lemma entry_fingerprint_Inr:
  assumes "libs_ok L"
  shows "entry_fingerprint L b = Inr (sort_dedup (map (entry_digest L) (pb_entries b)))"
  by (simp add: entry_fingerprint_def entry_hashes_Inr [OF assms])

lemma entry_digests_inject:
  assumes "libs_ok L" and "no_collision L S"
    and "(\<lambda>e. preimage L (entry_env L e)) ` (set xs \<union> set ys) \<subseteq> S"
    and "map (entry_digest L) xs = map (entry_digest L) ys"
  shows "xs = ys"
  using assms(4)
proof (rule map_inj_on)
  show "inj_on (entry_digest L) (set xs \<union> set ys)"
  proof (rule inj_onI)
    fix a b
    assume ab: "a \<in> set xs \<union> set ys" "b \<in> set xs \<union> set ys" and eq: "entry_digest L a = entry_digest L b"
    have "preimage L (entry_env L a) = preimage L (entry_env L b)"
      using eq ab assms(3) by (intro no_collisionD [OF assms(2)]) (auto simp: entry_digest_def sha256_def)
    then show "a = b" using entry_identity.preimage_determines [OF assms(1)] by blast
  qed
qed

lemma batch_key_inject:
  assumes "libs_ok L" and "no_collision L (batch_strings L b \<union> batch_strings L c)"
    and "batch_id L b = Inr key" and "batch_id L c = Inr key"
  shows "b = c"
proof -
  have "batch_preimage L b = batch_preimage L c"
    using assms(3,4) by (intro no_collisionD [OF assms(2)])
      (simp_all add: batch_id_Inr [OF assms(1)] sha256_def batch_strings_def)
  then have eq: "(pb_tenant b, pb_target_gl b, pb_period b, map (entry_digest L) (pb_entries b)) =
      (pb_tenant c, pb_target_gl c, pb_period c, map (entry_digest L) (pb_entries c))"
    unfolding batch_preimage_def by (rule batch_identity.preimage_determines [OF assms(1) TrueI TrueI])
  then have "pb_entries b = pb_entries c"
    by (intro entry_digests_inject [OF assms(1,2)]) (auto simp: batch_strings_def)
  with eq show ?thesis by (cases b; cases c) simp
qed

subsection \<open>A concrete run\<close>

definition demo_batch :: posting_batch where
  "demo_batch = \<lparr>pb_tenant = ''acme'', pb_target_gl = ''netsuite:prod'', pb_period = ''2026Q2'', pb_entries = []\<rparr>"

definition demo_posted :: posting_protocol where
  "demo_posted =
     \<lparr>pp_approvals = \<lparr>dc_items = [(hash_of_byte (CHR 0x01), (demo_batch, DC_Confirmed ''alice'' ''bob''))]\<rparr>,
      pp_states = [(hash_of_byte (CHR 0x01), Posted ''JE-1'' (hash_of_byte (CHR 0x02)))]\<rparr>"

abbreviation demo_posting_libs :: libs where
  "demo_posting_libs \<equiv> demo_libs (\<lambda>_. hash_of_byte (CHR 0x01))"

lemma demo_batch_id: "batch_id demo_posting_libs demo_batch = Inr (hash_of_byte (CHR 0x01))"
  by (simp add: batch_id_Inr sha256_def)

lemma demo_posted_reachable: "(pp_step demo_posting_libs)\<^sup>*\<^sup>* pp_new demo_posted"
proof -
  let ?i = "hash_of_byte (CHR 0x01)"
  let ?P1 = "snd (pp_register demo_posting_libs demo_batch ''alice'' pp_new)"
  let ?P2 = "snd (pp_release ?i ''bob'' ?P1)"
  let ?P3 = "snd (pp_begin_submit ?i ?P2)"
  let ?P4 = "snd (pp_confirm_posted ?i ''JE-1'' (hash_of_byte (CHR 0x02)) ?P3)"
  have "pp_step demo_posting_libs pp_new ?P1" "pp_step demo_posting_libs ?P1 ?P2"
    "pp_step demo_posting_libs ?P2 ?P3" "pp_step demo_posting_libs ?P3 ?P4"
    by (rule pp_step.intros)+
  then have "(pp_step demo_posting_libs)\<^sup>*\<^sup>* pp_new ?P4" by (meson rtranclp.rtrancl_into_rtrancl rtranclp.rtrancl_refl)
  moreover have "?P4 = demo_posted"
    by (simp add: pp_defs demo_batch_id pp_new_def dc_new_def dc_propose_def hm_or_insert_def hm_insert_def
        dc_confirm_def demo_posted_def)
  ultimately show ?thesis by simp
qed

lemma demo_posted_state [simp]:
  "pp_state demo_posted (hash_of_byte (CHR 0x01)) = Some (Posted ''JE-1'' (hash_of_byte (CHR 0x02)))"
  by (simp add: demo_posted_def pp_state_def)

subsection \<open>Properties\<close>

text \<open>C8: Nothing leaves for a general ledger on one person's word: in every reachable state of the
  protocol, a batch that is past the approval state was prepared by one person and released by another,
  and it sits under its own idempotency key.\<close>

theorem posting_released_by_two:
  assumes "(pp_step L)\<^sup>*\<^sup>* pp_new P" and "pp_state P bid = Some s" and "s \<noteq> AwaitingApproval"
  shows "\<exists>p a b. pp_approval P bid = Some (DC_Confirmed p a) \<and> p \<noteq> a \<and>
    dc_payload (pp_approvals P) bid = Some b \<and> batch_id L b = Inr bid"
proof -
  have inv: "pp_inv L P" by (rule pp_reach_inv [OF assms(1)])
  then have "approval_fits (pp_approval P bid) (Some s)" using assms(2) unfolding pp_inv_def by metis
  then obtain p a where conf: "pp_approval P bid = Some (DC_Confirmed p a)" "p \<noteq> a"
    using fits_past assms(3) by blast
  then obtain b where "dc_payload (pp_approvals P) bid = Some b"
    using dc_state_payload [of "pp_approvals P" bid] by (auto simp: pp_approval_def)
  with conf inv show ?thesis by (auto simp: pp_inv_def)
qed

theorem posting_released_by_two_witness:
  "\<exists>p a b. pp_approval demo_posted (hash_of_byte (CHR 0x01)) = Some (DC_Confirmed p a) \<and> p \<noteq> a \<and>
    dc_payload (pp_approvals demo_posted) (hash_of_byte (CHR 0x01)) = Some b \<and>
    batch_id demo_posting_libs b = Inr (hash_of_byte (CHR 0x01))"
  using posting_released_by_two [OF demo_posted_reachable demo_posted_state] by simp

text \<open>C25: Retries cannot double-post: once a batch has been acknowledged under a reference, whatever the
  protocol does next it is never ready for submission or submitting again; it stays posted under the same
  reference and evidence, or ends verified under that reference or failed, and both ends are final.\<close>

theorem posted_never_resubmitted:
  assumes "pp_state P bid = Some (Posted gl_ref ev)" and "(pp_step L)\<^sup>*\<^sup>* P P'" and "(pp_step L)\<^sup>*\<^sup>* P' P''"
  shows "(pp_state P' bid = Some (Posted gl_ref ev)) \<or>
    ((\<exists>ev'. pp_state P' bid = Some (Verified gl_ref ev')) \<or>
     (\<exists>missing unexpected ev'. pp_state P' bid = Some (VerificationFailed missing unexpected ev'))) \<and>
    pp_state P'' bid = pp_state P' bid"
proof -
  obtain s' where s': "pp_state P' bid = Some s'" "settled gl_ref ev s'"
    using settled_steps [OF assms(2,1)] by auto
  then show ?thesis using final_steps [OF assms(3) s'(1)] by (cases s') auto
qed

theorem posted_never_resubmitted_witness:
  "pp_state (snd (pp_begin_submit (hash_of_byte (CHR 0x01)) demo_posted)) (hash_of_byte (CHR 0x01)) \<noteq> Some Submitting"
proof -
  let ?P = "snd (pp_begin_submit (hash_of_byte (CHR 0x01)) demo_posted)"
  have "(pp_step demo_posting_libs)\<^sup>*\<^sup>* demo_posted ?P" by (rule r_into_rtranclp) (rule step_begin)
  from posted_never_resubmitted [OF demo_posted_state this rtranclp.rtrancl_refl] show ?thesis by auto
qed

text \<open>A verification establishes exactly equality of sets: for a posted batch it always returns, the
  batch becomes verified under its reference if and only if the hashes read back and the hashes of its
  entries are the same set, and otherwise the differences named are exactly the entries missing from the
  general ledger and the ones it shows in excess.\<close>

theorem posting_verify_sets:
  assumes "libs_ok L" and "pp_state P bid = Some (Posted gl_ref ev)" and "dc_payload (pp_approvals P) bid = Some b"
  shows "\<exists>P'. pp_verify L bid hs readback P = (Inr (), P') \<and>
    (if set hs = entry_digest L ` set (pb_entries b) then pp_state P' bid = Some (Verified gl_ref readback)
     else \<exists>missing unexpected. pp_state P' bid = Some (VerificationFailed missing unexpected readback) \<and>
       set missing = entry_digest L ` set (pb_entries b) - set hs \<and>
       set unexpected = set hs - entry_digest L ` set (pb_entries b))"
  using pp_verify_Posted [OF assms(2,3) entry_fingerprint_Inr [OF assms(1)], of hs readback]
  by (simp add: pp_state_def)

theorem posting_verify_sets_witness:
  "\<exists>P'. pp_verify demo_posting_libs (hash_of_byte (CHR 0x01)) [hash_of_byte (CHR 0x07)] (hash_of_byte (CHR 0x03)) demo_posted =
      (Inr (), P') \<and>
    (\<exists>missing unexpected. pp_state P' (hash_of_byte (CHR 0x01)) =
        Some (VerificationFailed missing unexpected (hash_of_byte (CHR 0x03))) \<and>
      set missing = {} \<and> set unexpected = {hash_of_byte (CHR 0x07)})"
  using posting_verify_sets [OF demo_libs_ok demo_posted_state, of demo_batch "\<lambda>_. hash_of_byte (CHR 0x01)"
      "[hash_of_byte (CHR 0x07)]" "hash_of_byte (CHR 0x03)"]
  by (simp add: demo_posted_def dc_payload_def demo_batch_def)

text \<open>Verification is blind to multiplicity: a general ledger that shows every entry of a batch twice
  is verified exactly like one that shows it once, although the verified state is documented as an exact
  match.\<close>

theorem verify_ignores_double_posting:
  "pp_verify L bid (hs @ hs) ev P = pp_verify L bid hs ev P"
proof -
  have "sort_dedup (hs @ hs) = sort_dedup hs" by (rule sort_dedup_eq) simp
  then have "set_difference expected (hs @ hs) = set_difference expected hs"
    "set_difference (hs @ hs) expected = set_difference hs expected" for expected
    by (simp_all add: set_difference_def)
  then show ?thesis by (simp only: pp_verify_def)
qed

text \<open>The idempotency key identifies the batch: two batches with the same key have the same tenant,
  target, period and entries in the same order, unless SHA-256 collides on the strings hashed for them.\<close>

theorem batch_key_determines:
  assumes "libs_ok L" and "no_collision L (batch_strings L b \<union> batch_strings L c)"
    and "batch_id L b = Inr key" and "batch_id L c = Inr key"
  shows "b = c"
  using assms by (rule batch_key_inject)

theorem batch_key_determines_witness:
  "no_collision demo_posting_libs (batch_strings demo_posting_libs demo_batch \<union>
     batch_strings demo_posting_libs (demo_batch\<lparr>pb_period := ''2026Q2''\<rparr>)) \<and>
   demo_batch = demo_batch\<lparr>pb_period := ''2026Q2''\<rparr>"
proof -
  let ?c = "demo_batch\<lparr>pb_period := ''2026Q2''\<rparr>"
  have nc: "no_collision demo_posting_libs (batch_strings demo_posting_libs demo_batch \<union> batch_strings demo_posting_libs ?c)"
    by (simp add: no_collision_def batch_strings_def demo_batch_def)
  have key: "batch_id demo_posting_libs ?c = Inr (hash_of_byte (CHR 0x01))"
    by (simp add: batch_id_Inr sha256_def)
  show ?thesis using batch_key_determines [OF demo_libs_ok nc demo_batch_id key] nc by simp
qed

end
