(* ===== verification/Gl.thy ===== *)
theory Gl
  imports Posting
begin

section \<open>Driving a general ledger (treasury-gl)\<close>

text \<open>
  Models \<open>crates/treasury-gl/src/\<close> \<open>adapter.rs\<close>, \<open>drive.rs\<close> and \<open>fixture.rs\<close>: the adapter contract,
  the orchestration \<open>post_batch\<close> that takes one batch through the posting protocol against an adapter,
  and the fixture general ledger with its injectable faults. An adapter is a pair of functions over
  the state of the outside world; \<open>post_batch\<close> takes it as an argument.

  The locale \<open>gl_contract\<close> states what the trait documents of an adapter (an acknowledged batch can be
  read back, reading changes nothing, and no submission disturbs or duplicates what is already
  there); it is interpreted on the fixture. The lemmas give the complete outcome of driving a
  fresh batch, for every answer of the adapter.
\<close>

subsection \<open>Adapters\<close>

datatype submit_outcome = Acknowledged string string | AckLost

record gl_readback =
  rb_gl_ref :: "string option"
  rb_entry_hashes :: "content_hash list"
  rb_raw_payload :: string

datatype gl_error = GlTransport string | GlAuth string | GlRejected string

record 'g gl_adapter =
  gl_submit :: "posting_batch \<Rightarrow> content_hash \<Rightarrow> 'g \<Rightarrow> (gl_error, submit_outcome) result \<times> 'g"
  gl_read_back :: "content_hash \<Rightarrow> 'g \<Rightarrow> (gl_error, gl_readback) result \<times> 'g"

subsection \<open>Orchestration\<close>

datatype drive_outcome =
    DriveVerified string
  | DriveVerificationFailed "content_hash list" "content_hash list"
  | RetryableNotPosted

datatype drive_error = DriveProtocol posting_error | DriveGl gl_error | DriveUnexpected

text \<open>An operation of the protocol, and an operation of the adapter, on the pair of both states.\<close>

definition drive_pp :: "(posting_protocol \<Rightarrow> (posting_error, 'a) result \<times> posting_protocol)
  \<Rightarrow> posting_protocol \<times> 'g \<Rightarrow> (drive_error, 'a) result \<times> posting_protocol \<times> 'g" where
  "drive_pp f s = (case f (fst s) of (r, P) \<Rightarrow> (map_err DriveProtocol r, (P, snd s)))"

definition drive_gl :: "('g \<Rightarrow> (gl_error, 'a) result \<times> 'g)
  \<Rightarrow> posting_protocol \<times> 'g \<Rightarrow> (drive_error, 'a) result \<times> posting_protocol \<times> 'g" where
  "drive_gl f s = (case f (snd s) of (r, g) \<Rightarrow> (map_err DriveGl r, (fst s, g)))"

definition drive_verify :: "libs \<Rightarrow> 'g gl_adapter \<Rightarrow> content_hash \<Rightarrow> posting_protocol \<times> 'g
  \<Rightarrow> (drive_error, drive_outcome) result \<times> posting_protocol \<times> 'g" where
  "drive_verify L A bid s =
     and_then_st (drive_gl (gl_read_back A bid) s) (\<lambda>readback s.
     and_then_st (drive_pp (pp_verify L bid (rb_entry_hashes readback) (sha256 L (rb_raw_payload readback))) s)
       (\<lambda>_ s. ((case pp_state (fst s) bid of
                  Some (Verified gl_ref _) \<Rightarrow> Inr (DriveVerified gl_ref)
                | Some (VerificationFailed missing unexpected _) \<Rightarrow> Inr (DriveVerificationFailed missing unexpected)
                | _ \<Rightarrow> Inl DriveUnexpected), s)))"

text \<open>What follows the submission: confirm an acknowledgment, or resolve a lost one by reading back.\<close>

definition drive_settle :: "libs \<Rightarrow> 'g gl_adapter \<Rightarrow> content_hash \<Rightarrow> submit_outcome \<Rightarrow> posting_protocol \<times> 'g
  \<Rightarrow> (drive_error, drive_outcome) result \<times> posting_protocol \<times> 'g" where
  "drive_settle L A bid outcome s =
     (case outcome of
        Acknowledged gl_ref raw_response \<Rightarrow>
          and_then_st (drive_pp (pp_confirm_posted bid gl_ref (sha256 L raw_response)) s)
            (\<lambda>_ s. drive_verify L A bid s)
      | AckLost \<Rightarrow>
          and_then_st (drive_pp (pp_report_unknown bid) s) (\<lambda>_ s.
          and_then_st (drive_gl (gl_read_back A bid) s) (\<lambda>readback s.
            let found = map_option (\<lambda>gl_ref. (gl_ref, sha256 L (rb_raw_payload readback))) (rb_gl_ref readback) in
            and_then_st (drive_pp (pp_resolve_unknown bid found) s) (\<lambda>_ s.
              if found = None then (Inr RetryableNotPosted, s) else drive_verify L A bid s))))"

definition post_batch :: "libs \<Rightarrow> 'g gl_adapter \<Rightarrow> posting_batch \<Rightarrow> actor_id \<Rightarrow> actor_id \<Rightarrow> posting_protocol \<times> 'g
  \<Rightarrow> (drive_error, drive_outcome) result \<times> posting_protocol \<times> 'g" where
  "post_batch L A batch preparer approver s =
     and_then_st (drive_pp (pp_register L batch preparer) s) (\<lambda>bid s.
     and_then_st (drive_pp (pp_release bid approver) s) (\<lambda>_ s.
     and_then_st (drive_pp (pp_begin_submit bid) s) (\<lambda>_ s.
     and_then_st (drive_gl (gl_submit A batch bid) s) (\<lambda>outcome s. drive_settle L A bid outcome s))))"

subsection \<open>The fixture\<close>

datatype fixture_fault =
    AckLostButPosted
  | AckLostNotPosted
  | DropOneEntryOnReadback
  | ExtraEntryOnReadback content_hash
  | FaultTransport

record posted_record =
  po_gl_ref :: string
  po_entry_hashes :: "content_hash list"
  po_readback_drop_one :: bool
  po_readback_extra :: "content_hash option"

record fixture_gl =
  fg_posted :: "(content_hash, posted_record) hashmap"
  fg_next_fault :: "fixture_fault option"
  fg_seq :: u64

definition fg_new :: fixture_gl where
  "fg_new = \<lparr>fg_posted = [], fg_next_fault = None, fg_seq = 0\<rparr>"

definition fg_inject :: "fixture_fault \<Rightarrow> fixture_gl \<Rightarrow> fixture_gl" where
  "fg_inject fault g = g\<lparr>fg_next_fault := Some fault\<rparr>"

definition fg_fingerprint :: "libs \<Rightarrow> posting_batch \<Rightarrow> (gl_error, content_hash list) result" where
  "fg_fingerprint L batch = map_err (\<lambda>e. GlRejected (canon_error_text e)) (entry_fingerprint L batch)"

definition fg_record :: "libs \<Rightarrow> content_hash \<Rightarrow> posting_batch \<Rightarrow> fixture_gl
  \<Rightarrow> (gl_error, string) result \<times> fixture_gl" where
  "fg_record L key batch g =
     (case hm_get (fg_posted g) key of
        Some existing \<Rightarrow> (Inr (po_gl_ref existing), g)
      | None \<Rightarrow>
          (case fg_fingerprint L batch of
             Inl e \<Rightarrow> (Inl e, g)
           | Inr fingerprint \<Rightarrow>
               (let seq = u64_saturating_add (fg_seq g) 1;
                    gl_ref = ''JE-'' @ show_nat (unat seq);
                    (drop_one, extra) = (case fg_next_fault g of
                        Some DropOneEntryOnReadback \<Rightarrow> (True, None)
                      | Some (ExtraEntryOnReadback h) \<Rightarrow> (False, Some h)
                      | _ \<Rightarrow> (False, None)) in
                (Inr gl_ref, g\<lparr>fg_seq := seq, fg_posted := hm_insert key
                   \<lparr>po_gl_ref = gl_ref, po_entry_hashes = fingerprint, po_readback_drop_one = drop_one,
                    po_readback_extra = extra\<rparr> (fg_posted g)\<rparr>))))"

definition fg_submit :: "libs \<Rightarrow> posting_batch \<Rightarrow> content_hash \<Rightarrow> fixture_gl
  \<Rightarrow> (gl_error, submit_outcome) result \<times> fixture_gl" where
  "fg_submit L batch key g =
     (let fault = fg_next_fault g; g = g\<lparr>fg_next_fault := None\<rparr> in
      case fault of
        Some FaultTransport \<Rightarrow> (Inl (GlTransport ''injected''), g)
      | Some AckLostNotPosted \<Rightarrow> (Inr AckLost, g)
      | Some AckLostButPosted \<Rightarrow> and_then_st (fg_record L key batch g) (\<lambda>_ g. (Inr AckLost, g))
      | other \<Rightarrow> and_then_st (fg_record L key batch (g\<lparr>fg_next_fault := other\<rparr>))
          (\<lambda>gl_ref g. (Inr (Acknowledged gl_ref ''fixture-ack''), g\<lparr>fg_next_fault := None\<rparr>)))"

definition fg_read_back :: "content_hash \<Rightarrow> fixture_gl \<Rightarrow> (gl_error, gl_readback) result \<times> fixture_gl" where
  "fg_read_back key g =
     (Inr (case hm_get (fg_posted g) key of
        None \<Rightarrow> \<lparr>rb_gl_ref = None, rb_entry_hashes = [], rb_raw_payload = ''fixture-readback-absent''\<rparr>
      | Some posted \<Rightarrow>
          (let hashes = po_entry_hashes posted;
               hashes = (if po_readback_drop_one posted \<and> hashes \<noteq> [] then butlast hashes else hashes);
               hashes = (case po_readback_extra posted of None \<Rightarrow> hashes | Some extra \<Rightarrow> hashes @ [extra]) in
           \<lparr>rb_gl_ref = Some (po_gl_ref posted), rb_entry_hashes = hashes, rb_raw_payload = ''fixture-readback''\<rparr>)), g)"

definition fixture_adapter :: "libs \<Rightarrow> fixture_gl gl_adapter" where
  "fixture_adapter L = \<lparr>gl_submit = fg_submit L, gl_read_back = fg_read_back\<rparr>"

subsection \<open>What an adapter promises\<close>

text \<open>A sequence of submissions, each with its batch and key.\<close>

fun gl_submits :: "'g gl_adapter \<Rightarrow> (posting_batch \<times> content_hash) list \<Rightarrow> 'g \<Rightarrow> 'g" where
  "gl_submits A [] g = g"
| "gl_submits A ((b, k) # rest) g = gl_submits A rest (snd (gl_submit A b k g))"

locale gl_contract =
  fixes A :: "'g gl_adapter"
  assumes read_back_pure: "snd (gl_read_back A key g) = g"
    and ack_shows: "gl_submit A b key g = (Inr (Acknowledged r raw), g') \<Longrightarrow>
      \<exists>rb. fst (gl_read_back A key g') = Inr rb \<and> rb_gl_ref rb = Some r"
    and shown_kept: "fst (gl_read_back A key g) = Inr rb \<Longrightarrow> rb_gl_ref rb = Some r \<Longrightarrow>
      fst (gl_read_back A key (snd (gl_submit A b k g))) = Inr rb"
begin

lemma shown_forever:
  "fst (gl_read_back A key g) = Inr rb \<Longrightarrow> rb_gl_ref rb = Some r \<Longrightarrow>
     fst (gl_read_back A key (gl_submits A ops g)) = Inr rb"
  by (induction ops arbitrary: g) (auto simp: shown_kept)

lemma retry_same_reference:
  assumes "gl_submit A b key g = (Inr (Acknowledged r raw), g1)"
    and "gl_submit A b' key (gl_submits A ops g1) = (Inr (Acknowledged r' raw'), g2)"
  shows "r' = r \<and> fst (gl_read_back A key g2) = fst (gl_read_back A key g1)"
proof -
  obtain rb where rb: "fst (gl_read_back A key g1) = Inr rb" "rb_gl_ref rb = Some r"
    using ack_shows [OF assms(1)] by blast
  have "fst (gl_read_back A key (snd (gl_submit A b' key (gl_submits A ops g1)))) = Inr rb"
    by (rule shown_kept [OF shown_forever [OF rb] rb(2)])
  then have "fst (gl_read_back A key g2) = Inr rb" using assms(2) by simp
  then show ?thesis using ack_shows [OF assms(2)] rb by auto
qed

end

subsection \<open>The fixture keeps the contract\<close>

lemma fixture_adapter_simps [simp]:
  "gl_submit (fixture_adapter L) = fg_submit L" "gl_read_back (fixture_adapter L) = fg_read_back"
  by (simp_all add: fixture_adapter_def)

lemma fg_record_get:
  "hm_get (fg_posted g) k = Some p \<Longrightarrow> hm_get (fg_posted (snd (fg_record L key b g))) k = Some p"
  by (auto simp: fg_record_def Let_def split: option.splits sum.splits prod.splits)

lemma fg_record_Inr:
  "fg_record L key b g = (Inr r, g') \<Longrightarrow> \<exists>p. hm_get (fg_posted g') key = Some p \<and> po_gl_ref p = r"
  by (auto simp: fg_record_def Let_def split: option.splits sum.splits prod.splits)

lemma and_then_st_snd: "snd (and_then_st rs f) = (case fst rs of Inl e \<Rightarrow> snd rs | Inr x \<Rightarrow> snd (f x (snd rs)))"
  by (cases rs; cases "fst rs") auto

lemma fg_submit_get:
  assumes "hm_get (fg_posted g) k = Some p"
  shows "hm_get (fg_posted (snd (fg_submit L b key g))) k = Some p"
  using assms fg_record_get [of "g\<lparr>fg_next_fault := f\<rparr>" k p L key b for f]
  by (auto simp: fg_submit_def Let_def and_then_st_snd split: option.splits fixture_fault.splits sum.splits)

lemma fg_submit_ack:
  assumes "fg_submit L b key g = (Inr (Acknowledged r raw), g')"
  shows "\<exists>p. hm_get (fg_posted g') key = Some p \<and> po_gl_ref p = r"
  using assms by (auto simp: fg_submit_def Let_def result_simps dest!: fg_record_Inr
      split: option.splits fixture_fault.splits)

interpretation fixture: gl_contract "fixture_adapter L" for L
proof
  show "snd (gl_read_back (fixture_adapter L) key g) = g" for key g
    by (simp add: fg_read_back_def)
next
  fix b key g r raw g'
  assume "gl_submit (fixture_adapter L) b key g = (Inr (Acknowledged r raw), g')"
  then obtain p where "hm_get (fg_posted g') key = Some p" "po_gl_ref p = r"
    using fg_submit_ack by fastforce
  then show "\<exists>rb. fst (gl_read_back (fixture_adapter L) key g') = Inr rb \<and> rb_gl_ref rb = Some r"
    by (simp add: fg_read_back_def Let_def)
next
  fix key g rb r b k
  assume "fst (gl_read_back (fixture_adapter L) key g) = Inr rb" "rb_gl_ref rb = Some r"
  then obtain p where "hm_get (fg_posted g) key = Some p" and rb: "fst (fg_read_back key g) = Inr rb"
    by (auto simp: fg_read_back_def split: option.splits)
  moreover from this have "hm_get (fg_posted (snd (fg_submit L b k g))) key = Some p"
    by (intro fg_submit_get)
  ultimately show "fst (gl_read_back (fixture_adapter L) key (snd (gl_submit (fixture_adapter L) b k g))) = Inr rb"
    by (simp add: fg_read_back_def)
qed

subsection \<open>Driving a fresh batch\<close>

text \<open>One batch in the protocol: its state, its payload and its approval.\<close>

definition holds_batch :: "posting_protocol \<Rightarrow> content_hash \<Rightarrow> posting_batch \<Rightarrow> posting_state \<Rightarrow> bool" where
  "holds_batch P bid b s \<longleftrightarrow> pp_state P bid = Some s \<and> dc_payload (pp_approvals P) bid = Some b"

lemma drive_simps [simp]:
  "drive_pp f (P, g) = (map_err DriveProtocol (fst (f P)), (snd (f P), g))"
  "drive_gl h (P, g) = (map_err DriveGl (fst (h g)), (P, snd (h g)))"
  by (simp_all add: drive_pp_def drive_gl_def split: prod.splits)

lemma register_fresh:
  assumes "pp_inv L P" and "batch_id L b = Inr bid" and "pp_state P bid = None"
  obtains P1 where "pp_register L b p P = (Inr bid, P1)" "holds_batch P1 bid b AwaitingApproval"
    "pp_approval P1 bid = Some (DC_Asserted p)"
proof -
  have "pp_approval P bid = None" using assms(1,3) fits_None unfolding pp_inv_def by metis
  then have none: "dc_state (pp_approvals P) bid = None" "dc_payload (pp_approvals P) bid = None"
    using dc_state_payload by (auto simp: pp_approval_def)
  show thesis
    by (rule that [of "snd (pp_register L b p P)"])
      (use assms(2,3) none in \<open>simp_all add: pp_register_def holds_batch_def pp_state_def pp_approval_def
        dc_propose_state dc_propose_payload\<close>)
qed

lemma release_fresh:
  assumes "holds_batch P bid b AwaitingApproval" and "pp_approval P bid = Some (DC_Asserted p)" and "p \<noteq> a"
  obtains P1 where "pp_release bid a P = (Inr (), P1)" "holds_batch P1 bid b ReadyToSubmit"
proof -
  obtain q where q: "dc_confirm (pp_approvals P) bid a = (Inr (), q)"
    using dc_confirm_error [of "pp_approvals P" bid a] assms(2,3)
    by (cases "dc_confirm (pp_approvals P) bid a") (auto simp: pp_approval_def)
  show thesis
    by (rule that [of "snd (pp_release bid a P)"])
      (use assms(1) q dc_confirm_state(2) [OF q] in \<open>simp_all add: pp_release_def Let_def holds_batch_def pp_state_def\<close>)
qed

lemma holds_batch_moves:
  assumes "holds_batch P bid b s"
  shows "s = ReadyToSubmit \<Longrightarrow> \<exists>P'. pp_begin_submit bid P = (Inr (), P') \<and> holds_batch P' bid b Submitting"
    and "s = Submitting \<Longrightarrow> \<exists>P'. pp_confirm_posted bid r e P = (Inr (), P') \<and> holds_batch P' bid b (Posted r e)"
    and "s = Submitting \<Longrightarrow> \<exists>P'. pp_report_unknown bid P = (Inr (), P') \<and> holds_batch P' bid b Unknown"
    and "s = Unknown \<Longrightarrow> \<exists>P'. pp_resolve_unknown bid found P = (Inr (), P') \<and>
      holds_batch P' bid b (case found of Some (r, e) \<Rightarrow> Posted r e | None \<Rightarrow> ReadyToSubmit)"
  using assms by (simp_all add: holds_batch_def pp_state_def pp_begin_submit_def pp_confirm_posted_def
      pp_report_unknown_def pp_resolve_unknown_def)

text \<open>What a read-back makes of a batch posted under a reference.\<close>

definition readback_outcome :: "libs \<Rightarrow> posting_batch \<Rightarrow> string \<Rightarrow> gl_readback \<Rightarrow> drive_outcome" where
  "readback_outcome L b gl_ref rb =
     (let expected = sort_dedup (map (entry_digest L) (pb_entries b)) in
      if set (rb_entry_hashes rb) = set expected then DriveVerified gl_ref
      else DriveVerificationFailed (set_difference expected (rb_entry_hashes rb))
             (set_difference (rb_entry_hashes rb) expected))"

lemma drive_verify_posted:
  assumes "libs_ok L" and "holds_batch P bid b (Posted r e)"
  shows "fst (drive_verify L A bid (P, g)) =
    map_err DriveGl (and_then (fst (gl_read_back A bid g)) (\<lambda>rb. Inr (readback_outcome L b r rb)))"
proof (cases "gl_read_back A bid g")
  case (Pair rb g')
  show ?thesis
  proof (cases rb)
    case (Inr x)
    have "pp_verify L bid (rb_entry_hashes x) (sha256 L (rb_raw_payload x)) P = (Inr (), P\<lparr>pp_states := hm_insert bid
      (if set (rb_entry_hashes x) = set (sort_dedup (map (entry_digest L) (pb_entries b))) then Verified r (sha256 L (rb_raw_payload x))
       else VerificationFailed (set_difference (sort_dedup (map (entry_digest L) (pb_entries b))) (rb_entry_hashes x))
         (set_difference (rb_entry_hashes x) (sort_dedup (map (entry_digest L) (pb_entries b)))) (sha256 L (rb_raw_payload x)))
      (pp_states P)\<rparr>)"
      using assms(2) entry_fingerprint_Inr [OF assms(1), of b] by (intro pp_verify_Posted [of P bid r e b]) (simp_all add: holds_batch_def)
    then show ?thesis using Pair Inr
      by (simp add: drive_verify_def readback_outcome_def Let_def pp_state_def)
  qed (use Pair in \<open>simp add: drive_verify_def\<close>)
qed

text \<open>
  The abstract course of a fresh batch, given the adapter alone: submit, on a lost acknowledgment read
  back to learn whether it landed, then read back and compare.
\<close>

definition fresh_outcome :: "libs \<Rightarrow> 'g gl_adapter \<Rightarrow> posting_batch \<Rightarrow> content_hash \<Rightarrow> 'g
  \<Rightarrow> (gl_error, drive_outcome) result" where
  "fresh_outcome L A b bid g =
     (case gl_submit A b bid g of
        (Inl e, g1) \<Rightarrow> Inl e
      | (Inr (Acknowledged r raw), g1) \<Rightarrow>
          and_then (fst (gl_read_back A bid g1)) (\<lambda>rb. Inr (readback_outcome L b r rb))
      | (Inr AckLost, g1) \<Rightarrow>
          (case gl_read_back A bid g1 of
             (Inl e, g2) \<Rightarrow> Inl e
           | (Inr rb, g2) \<Rightarrow>
               (case rb_gl_ref rb of
                  None \<Rightarrow> Inr RetryableNotPosted
                | Some r \<Rightarrow> and_then (fst (gl_read_back A bid g2)) (\<lambda>rb. Inr (readback_outcome L b r rb)))))"

lemma post_batch_fresh:
  assumes "libs_ok L" and "pp_inv L P" and "batch_id L b = Inr bid" and "pp_state P bid = None" and "p \<noteq> a"
  shows "fst (post_batch L A b p a (P, g)) = map_err DriveGl (fresh_outcome L A b bid g)"
proof -
  obtain P1 where P1: "pp_register L b p P = (Inr bid, P1)" "holds_batch P1 bid b AwaitingApproval"
    "pp_approval P1 bid = Some (DC_Asserted p)"
    by (rule register_fresh [OF assms(2-4)])
  obtain P2 where P2: "pp_release bid a P1 = (Inr (), P2)" "holds_batch P2 bid b ReadyToSubmit"
    by (rule release_fresh [OF P1(2,3) assms(5)])
  obtain P3 where P3: "pp_begin_submit bid P2 = (Inr (), P3)" "holds_batch P3 bid b Submitting"
    using holds_batch_moves(1) [OF P2(2)] by auto
  obtain r g1 where sub: "gl_submit A b bid g = (r, g1)" by (cases "gl_submit A b bid g")
  note start = P1(1) P2(1) P3(1) sub
  show ?thesis
  proof (cases r)
    case (Inl e)
    then show ?thesis using start by (simp add: post_batch_def drive_settle_def fresh_outcome_def)
  next
    case (Inr out)
    show ?thesis
    proof (cases out)
      case (Acknowledged gl_ref raw)
      obtain P4 where "pp_confirm_posted bid gl_ref (sha256 L raw) P3 = (Inr (), P4)"
        "holds_batch P4 bid b (Posted gl_ref (sha256 L raw))"
        using holds_batch_moves(2) [OF P3(2)] by blast
      then show ?thesis using start Inr Acknowledged drive_verify_posted [OF assms(1)]
        by (simp add: post_batch_def drive_settle_def fresh_outcome_def)
    next
      case AckLost
      obtain P4 where P4: "pp_report_unknown bid P3 = (Inr (), P4)" "holds_batch P4 bid b Unknown"
        using holds_batch_moves(3) [OF P3(2)] by blast
      obtain rb g2 where rb: "gl_read_back A bid g1 = (rb, g2)" by (cases "gl_read_back A bid g1")
      show ?thesis
      proof (cases rb)
        case (Inl e)
        then show ?thesis using start Inr AckLost P4 rb by (simp add: post_batch_def drive_settle_def fresh_outcome_def)
      next
        case (Inr x)
        let ?found = "map_option (\<lambda>gl_ref. (gl_ref, sha256 L (rb_raw_payload x))) (rb_gl_ref x)"
        obtain P5 where "pp_resolve_unknown bid ?found P4 = (Inr (), P5)"
          "holds_batch P5 bid b (case ?found of Some (r, e) \<Rightarrow> Posted r e | None \<Rightarrow> ReadyToSubmit)"
          using holds_batch_moves(4) [OF P4(2)] by blast
        then show ?thesis using start \<open>r = Inr out\<close> AckLost P4 rb Inr drive_verify_posted [OF assms(1)]
          by (cases "rb_gl_ref x") (simp_all add: post_batch_def drive_settle_def fresh_outcome_def Let_def)
      qed
    qed
  qed
qed

subsection \<open>After an absence has been proved\<close>

lemma approvals_kept [simp]:
  "pp_approvals (snd (pp_begin_submit bid P)) = pp_approvals P"
  "pp_approvals (snd (pp_confirm_posted bid r e P)) = pp_approvals P"
  "pp_approvals (snd (pp_report_unknown bid P)) = pp_approvals P"
  "pp_approvals (snd (pp_resolve_unknown bid found P)) = pp_approvals P"
  "pp_approvals (snd (pp_verify L bid hs e P)) = pp_approvals P"
  by (auto simp: pp_begin_submit_def pp_confirm_posted_def pp_report_unknown_def pp_resolve_unknown_def
      pp_verify_def Let_def split: option.splits sum.splits posting_state.splits)

lemma drive_pp_Inr:
  "drive_pp f s = (Inr x, t) \<longleftrightarrow> fst (f (fst s)) = Inr x \<and> t = (snd (f (fst s)), snd s)"
  by (cases s; cases "f (fst s)") (auto simp: result_simps)

lemma drive_gl_Inr:
  "drive_gl h s = (Inr x, t) \<longleftrightarrow> fst (h (snd s)) = Inr x \<and> t = (fst s, snd (h (snd s)))"
  by (cases s; cases "h (snd s)") (auto simp: result_simps)

lemmas drive_Inr = drive_pp_Inr drive_gl_Inr and_then_st_Inr

lemma drive_verify_approvals:
  "drive_verify L A bid s = (Inr out, s') \<Longrightarrow> pp_approvals (fst s') = pp_approvals (fst s)"
  by (auto simp: drive_verify_def drive_Inr)

lemma post_batch_steps:
  assumes "post_batch L A b p a s = (Inr out, s')"
  obtains bid s1 s2 s3 o' s4 where "batch_id L b = Inr bid" "drive_pp (pp_register L b p) s = (Inr bid, s1)"
    "drive_pp (pp_release bid a) s1 = (Inr (), s2)" "drive_pp (pp_begin_submit bid) s2 = (Inr (), s3)"
    "drive_gl (gl_submit A b bid) s3 = (Inr o', s4)" "drive_settle L A bid o' s4 = (Inr out, s')"
proof -
  from assms obtain bid s1 s2 s3 o' s4 where steps: "drive_pp (pp_register L b p) s = (Inr bid, s1)"
    "drive_pp (pp_release bid a) s1 = (Inr (), s2)" "drive_pp (pp_begin_submit bid) s2 = (Inr (), s3)"
    "drive_gl (gl_submit A b bid) s3 = (Inr o', s4)" "drive_settle L A bid o' s4 = (Inr out, s')"
    unfolding post_batch_def and_then_st_Inr by auto
  moreover have "batch_id L b = Inr bid"
    using steps(1) by (auto simp: drive_pp_Inr pp_register_def split: sum.splits)
  ultimately show thesis using that by blast
qed

lemma post_batch_confirms:
  assumes "post_batch L A b p a s = (Inr out, s')"
  shows "\<exists>bid q. batch_id L b = Inr bid \<and> pp_approval (fst s') bid = Some (DC_Confirmed q a)"
  using assms
proof (cases rule: post_batch_steps)
  case (1 bid s1 s2 s3 o' s4)
  have "pp_approvals (fst s') = pp_approvals (fst s4)"
    using 1(6) by (cases o') (auto simp: drive_settle_def drive_Inr Let_def dest!: drive_verify_approvals split: if_splits)
  moreover have "pp_approvals (fst s4) = pp_approvals (fst s2)"
    using 1(4,5) by (auto simp: drive_Inr)
  moreover obtain q where "pp_approval (fst s2) bid = Some (DC_Confirmed q a)"
    using 1(3) dc_confirm_state(1) [of "pp_approvals (fst s1)" bid a _ bid]
    by (fastforce simp: drive_pp_Inr pp_release_def pp_approval_def Let_def split: prod.splits sum.splits option.splits if_splits)
  ultimately show ?thesis using 1(1) by (auto simp: pp_approval_def)
qed

text \<open>Under the contract a drive that ends with an outcome has changed the outside world by its one
  submission only.\<close>

context gl_contract
begin

lemma drive_verify_world: "drive_verify L A bid s = (Inr out, s') \<Longrightarrow> snd s' = snd s"
  by (auto simp: drive_verify_def drive_Inr read_back_pure)

lemma post_batch_world:
  assumes "post_batch L A b p a s = (Inr out, s')"
  shows "\<exists>bid. batch_id L b = Inr bid \<and> snd s' = snd (gl_submit A b bid (snd s))"
  using assms
proof (cases rule: post_batch_steps)
  case (1 bid s1 s2 s3 o' s4)
  have "snd s' = snd s4"
    using 1(6) by (cases o') (auto simp: drive_settle_def drive_Inr Let_def read_back_pure dest!: drive_verify_world split: if_splits)
  with 1 show ?thesis by (auto simp: drive_Inr)
qed

end

lemma post_batch_confirmed_fails:
  assumes "batch_id L b = Inr bid" and "pp_approval P bid = Some (DC_Confirmed q r)"
  shows "fst (post_batch L A b p a (P, g)) = Inl (DriveProtocol (DualControl DC_InvalidTransition))"
proof -
  let ?P1 = "snd (pp_register L b p P)"
  have reg: "fst (pp_register L b p P) = Inr bid" using assms(1) by (simp add: pp_register_def)
  have "dc_state (pp_approvals ?P1) bid = Some (DC_Confirmed q r)"
    using assms by (simp add: pp_register_def dc_propose_state pp_approval_def)
  then have "fst (dc_confirm (pp_approvals ?P1) bid a) = Inl DC_InvalidTransition"
    by (simp add: dc_confirm_error)
  then have "fst (pp_release bid a ?P1) = Inl (DualControl DC_InvalidTransition)"
    by (cases "dc_confirm (pp_approvals ?P1) bid a") (simp add: pp_release_def)
  then show ?thesis using reg by (simp add: post_batch_def)
qed

subsection \<open>The fixture's faults\<close>

lemma sort_dedup_butlast: "set_difference (sort_dedup xs) (butlast (sort_dedup xs)) = (if xs = [] then [] else [last (sort_dedup xs)])"
proof (cases "sort_dedup xs" rule: rev_cases)
  case (snoc ys y)
  have id: "sort_dedup (sort_dedup xs) = sort_dedup xs" by (rule sort_dedup_eq) simp
  have "distinct (ys @ [y])" using distinct_sort_dedup [of xs] snoc by simp
  then have "filter (\<lambda>x. x \<notin> set ys) (ys @ [y]) = [y]" by (auto simp: filter_empty_conv)
  moreover have "xs \<noteq> []" using snoc by (auto simp: sort_dedup_def)
  ultimately show ?thesis unfolding set_difference_def id using snoc by simp
next
  case Nil
  then have "xs = []" by (metis set_empty set_sort_dedup)
  then show ?thesis by (simp add: set_difference_def sort_dedup_def)
qed

lemma set_difference_self: "set xs \<subseteq> set ys \<Longrightarrow> set_difference xs ys = []"
  by (simp add: set_difference_Nil)

lemma set_difference_snoc: "h \<notin> set xs \<Longrightarrow> set_difference (xs @ [h]) xs = [h]"
proof -
  assume "h \<notin> set xs"
  then have "set (set_difference (xs @ [h]) xs) = set [h]" by auto
  moreover have "sorted (set_difference (xs @ [h]) xs)" "distinct (set_difference (xs @ [h]) xs)"
    by (simp_all add: set_difference_def sorted_wrt_filter)
  ultimately show ?thesis by (intro sorted_distinct_set_unique) simp_all
qed

lemma butlast_sort_dedup_set: "xs \<noteq> [] \<Longrightarrow> set (butlast (sort_dedup xs)) \<noteq> set (sort_dedup xs)"
proof -
  assume "xs \<noteq> []"
  then obtain ys y where "sort_dedup xs = ys @ [y]"
    by (metis rev_exhaust set_empty set_sort_dedup)
  then show ?thesis using distinct_sort_dedup [of xs] by auto
qed

text \<open>What the fixture answers for a batch it has not seen, per armed fault.\<close>

definition fixture_outcome :: "libs \<Rightarrow> posting_batch \<Rightarrow> fixture_gl \<Rightarrow> (gl_error, drive_outcome) result" where
  "fixture_outcome L b g =
     (let expected = sort_dedup (map (entry_digest L) (pb_entries b));
          gl_ref = ''JE-'' @ show_nat (unat (u64_saturating_add (fg_seq g) 1)) in
      case fg_next_fault g of
        None \<Rightarrow> Inr (DriveVerified gl_ref)
      | Some AckLostButPosted \<Rightarrow> Inr (DriveVerified gl_ref)
      | Some AckLostNotPosted \<Rightarrow> Inr RetryableNotPosted
      | Some FaultTransport \<Rightarrow> Inl (GlTransport ''injected'')
      | Some DropOneEntryOnReadback \<Rightarrow>
          Inr (if pb_entries b = [] then DriveVerified gl_ref else DriveVerificationFailed [last expected] [])
      | Some (ExtraEntryOnReadback h) \<Rightarrow>
          Inr (if h \<in> set expected then DriveVerified gl_ref else DriveVerificationFailed [] [h]))"

lemma fixture_fresh_outcome:
  assumes "libs_ok L" and "hm_get (fg_posted g) bid = None"
  shows "fresh_outcome L (fixture_adapter L) b bid g = fixture_outcome L b g"
proof -
  have fp: "fg_fingerprint L b = Inr (sort_dedup (map (entry_digest L) (pb_entries b)))"
    by (simp add: fg_fingerprint_def entry_fingerprint_Inr [OF assms(1)])
  note run = fresh_outcome_def fixture_outcome_def fg_submit_def fg_record_def fg_read_back_def readback_outcome_def Let_def
  show ?thesis
  proof (cases "fg_next_fault g")
    case None
    then show ?thesis using assms(2) fp by (simp add: run)
  next
    case (Some fault)
    then show ?thesis using assms(2) fp
    proof (cases fault)
      case DropOneEntryOnReadback
      let ?xs = "map (entry_digest L) (pb_entries b)"
      have "set_difference (butlast (sort_dedup ?xs)) (sort_dedup ?xs) = []"
        by (rule set_difference_self) (auto dest: in_set_butlastD)
      then show ?thesis
        using assms(2) fp Some DropOneEntryOnReadback sort_dedup_butlast [of ?xs] butlast_sort_dedup_set [of ?xs]
        by (cases "pb_entries b") (auto simp: run sort_dedup_def)
    next
      case (ExtraEntryOnReadback h)
      let ?xs = "map (entry_digest L) (pb_entries b)"
      show ?thesis
      proof (cases "h \<in> set (sort_dedup ?xs)")
        case True
        then show ?thesis using assms(2) fp Some ExtraEntryOnReadback by (auto simp: run insert_absorb)
      next
        case False
        then show ?thesis
          using assms(2) fp Some ExtraEntryOnReadback set_difference_snoc [of h "sort_dedup ?xs"]
            set_difference_self [of "sort_dedup ?xs" "sort_dedup ?xs @ [h]"]
          by (auto simp: run)
      qed
    qed (simp_all add: run)
  qed
qed

subsection \<open>Properties\<close>

text \<open>C9: Driving a batch is exactly its evidence: for a batch the protocol has not seen, prepared and
  released by two people, the orchestration never fails inside the protocol and its outcome is the one
  the adapter's answers determine: verified or failed by comparing a read-back with the batch after an
  acknowledgment or a proof of presence, retryable after a proof of absence, and otherwise the adapter's error.\<close>

theorem post_batch_follows_evidence:
  assumes "libs_ok L" and "(pp_step L)\<^sup>*\<^sup>* pp_new P" and "batch_id L b = Inr bid" and "pp_state P bid = None"
    and "preparer \<noteq> approver"
  shows "fst (post_batch L A b preparer approver (P, g)) = map_err DriveGl (fresh_outcome L A b bid g)"
  by (rule post_batch_fresh [OF assms(1) pp_reach_inv [OF assms(2)] assms(3-5)])

theorem post_batch_follows_evidence_witness:
  "fst (post_batch demo_posting_libs (fixture_adapter demo_posting_libs) demo_batch ''alice'' ''bob''
     (pp_new, fg_inject AckLostNotPosted fg_new)) = Inr RetryableNotPosted"
  using post_batch_follows_evidence [OF demo_libs_ok rtranclp.rtrancl_refl demo_batch_id, of "''alice''" "''bob''"
      "fixture_adapter demo_posting_libs" "fg_inject AckLostNotPosted fg_new"]
  by (simp add: fixture_fresh_outcome fg_inject_def fg_new_def fixture_outcome_def pp_new_def pp_state_def)

text \<open>Every fault of the fixture ledger is caught: against a fresh batch, an undisturbed submission and
  one whose acknowledgment is lost after landing end verified under the new reference, a lost submission
  ends retryable, a dropped entry and a stranger entry end in a failed verification that names exactly
  that entry, and a transport failure surfaces as such.\<close>

theorem fixture_faults_caught:
  assumes "libs_ok L" and "(pp_step L)\<^sup>*\<^sup>* pp_new P" and "batch_id L b = Inr bid" and "pp_state P bid = None"
    and "preparer \<noteq> approver" and "hm_get (fg_posted g) bid = None"
  shows "fst (post_batch L (fixture_adapter L) b preparer approver (P, g)) = map_err DriveGl (fixture_outcome L b g)"
  unfolding post_batch_fresh [OF assms(1) pp_reach_inv [OF assms(2)] assms(3-5)]
  by (simp add: fixture_fresh_outcome [OF assms(1,6)])

theorem fixture_faults_caught_witness:
  "fst (post_batch demo_posting_libs (fixture_adapter demo_posting_libs) demo_batch ''alice'' ''bob''
     (pp_new, fg_inject (ExtraEntryOnReadback (hash_of_byte (CHR 0x09))) fg_new)) =
   Inr (DriveVerificationFailed [] [hash_of_byte (CHR 0x09)])"
  using fixture_faults_caught [OF demo_libs_ok rtranclp.rtrancl_refl demo_batch_id, of "''alice''" "''bob''"
      "fg_inject (ExtraEntryOnReadback (hash_of_byte (CHR 0x09))) fg_new"]
  by (simp add: fg_inject_def fg_new_def fixture_outcome_def pp_new_def pp_state_def demo_batch_def sort_dedup_def)

text \<open>Resubmitting under a key never duplicates: once the fixture has acknowledged a key, whatever is
  submitted in between, a further acknowledgment of that key carries the same reference and the
  read-back for the key is unchanged.\<close>

theorem fixture_idempotent:
  assumes "fg_submit L b key g = (Inr (Acknowledged r raw), g1)"
    and "fg_submit L b' key (gl_submits (fixture_adapter L) ops g1) = (Inr (Acknowledged r' raw'), g2)"
  shows "r' = r \<and> fst (fg_read_back key g2) = fst (fg_read_back key g1)"
  using fixture.retry_same_reference [of L b key g r raw g1 b' ops r' raw' g2] assms by simp

theorem fixture_idempotent_witness:
  "\<exists>r g1 g2. fg_submit demo_posting_libs demo_batch (hash_of_byte (CHR 0x01)) fg_new = (Inr (Acknowledged r ''fixture-ack''), g1) \<and>
     fg_submit demo_posting_libs demo_batch (hash_of_byte (CHR 0x01)) g1 = (Inr (Acknowledged r ''fixture-ack''), g2) \<and>
     fst (fg_read_back (hash_of_byte (CHR 0x01)) g2) = fst (fg_read_back (hash_of_byte (CHR 0x01)) g1)"
proof -
  let ?k = "hash_of_byte (CHR 0x01)"
  obtain r g1 where g1: "fg_submit demo_posting_libs demo_batch ?k fg_new = (Inr (Acknowledged r ''fixture-ack''), g1)"
    and fault: "fg_next_fault g1 = None"
    by (simp add: fg_submit_def fg_record_def fg_new_def Let_def fg_fingerprint_def entry_fingerprint_Inr)
  obtain p where "hm_get (fg_posted g1) ?k = Some p" "po_gl_ref p = r" using fg_submit_ack [OF g1] by blast
  with fault obtain g2 where g2: "fg_submit demo_posting_libs demo_batch ?k g1 = (Inr (Acknowledged r ''fixture-ack''), g2)"
    by (simp add: fg_submit_def fg_record_def Let_def)
  then show ?thesis using fixture_idempotent [of demo_posting_libs demo_batch ?k fg_new _ _ g1 demo_batch "[]", OF g1] g1 by auto
qed

text \<open>The promised retry is impossible: after a drive ends retryable because the batch was proved
  absent, every further drive of the same batch, by whomever and against whatever adapter, fails at the
  release with a dual-control error, because the batch has already been confirmed once.\<close>

theorem retry_after_absence_fails:
  assumes "post_batch L A b preparer approver s = (Inr RetryableNotPosted, s')"
  shows "fst (post_batch L A' b preparer' approver' (fst s', g)) = Inl (DriveProtocol (DualControl DC_InvalidTransition))"
proof -
  obtain bid q where "batch_id L b = Inr bid" "pp_approval (fst s') bid = Some (DC_Confirmed q approver)"
    using post_batch_confirms [OF assms] by blast
  then show ?thesis by (rule post_batch_confirmed_fails)
qed

theorem retry_after_absence_fails_witness:
  "\<exists>s'. post_batch demo_posting_libs (fixture_adapter demo_posting_libs) demo_batch ''alice'' ''bob''
      (pp_new, fg_inject AckLostNotPosted fg_new) = (Inr RetryableNotPosted, s') \<and>
    fst (post_batch demo_posting_libs (fixture_adapter demo_posting_libs) demo_batch ''alice'' ''bob'' s') =
      Inl (DriveProtocol (DualControl DC_InvalidTransition))"
proof -
  let ?d = "post_batch demo_posting_libs (fixture_adapter demo_posting_libs) demo_batch ''alice'' ''bob''"
  let ?s = "(pp_new, fg_inject AckLostNotPosted fg_new)"
  have "fst (?d ?s) = Inr RetryableNotPosted"
    using post_batch_fresh [OF demo_libs_ok pp_inv_new demo_batch_id, of "''alice''" "''bob''"
      "fixture_adapter demo_posting_libs" "fg_inject AckLostNotPosted fg_new"]
    by (simp add: fixture_fresh_outcome fg_inject_def fg_new_def fixture_outcome_def pp_new_def pp_state_def)
  then have "?d ?s = (Inr RetryableNotPosted, snd (?d ?s))" by (metis prod.collapse)
  then show ?thesis using retry_after_absence_fails by (metis prod.collapse)
qed

end
