(* ===== verification/Scope.thy ===== *)
theory Scope
  imports Event Dual_Control
begin

section \<open>The scope gate (treasury-scope)\<close>

text \<open>
  Models \<open>crates/treasury-scope/src/\<close> \<open>assessment.rs\<close> and \<open>gate.rs\<close>: the six-criteria assessment, its
  content hash and derived verdict, the dual-controlled gate with its governing assessment per
  (tenant, asset), and the judgment draft of a confirmed assessment. The gate's queue is the generic
  dual-control queue, so what the contract \<open>two_person\<close> promises of that queue carries over to
  every reachable gate.
\<close>

datatype criterion =
    IntangibleAsset
  | NoEnforceableClaim
  | OnDistributedLedger
  | CryptographicallySecured
  | Fungible
  | NotSelfIssued

datatype criterion_status = Met | NotMet | Undetermined

record criteria_assessment =
  ca_intangible_asset :: criterion_status
  ca_no_enforceable_claim :: criterion_status
  ca_on_distributed_ledger :: criterion_status
  ca_cryptographically_secured :: criterion_status
  ca_fungible :: criterion_status
  ca_not_self_issued :: criterion_status

definition criteria_entries :: "criteria_assessment \<Rightarrow> (criterion \<times> criterion_status) list" where
  "criteria_entries c = [
     (IntangibleAsset, ca_intangible_asset c),
     (NoEnforceableClaim, ca_no_enforceable_claim c),
     (OnDistributedLedger, ca_on_distributed_ledger c),
     (CryptographicallySecured, ca_cryptographically_secured c),
     (Fungible, ca_fungible c),
     (NotSelfIssued, ca_not_self_issued c)]"

datatype scope_verdict = InScope | OutOfScope "criterion list" "criterion list"

record scope_assessment =
  sa_tenant :: tenant_id
  sa_asset :: asset_id
  sa_criteria :: criteria_assessment
  sa_policy_hash :: content_hash

datatype scope_error = ScopeNotConfirmed | ScopeCanon canon_error

definition assessment_schema :: string where
  "assessment_schema = ''treasury-scope/assessment/v1''"

fun status_json :: "criterion_status \<Rightarrow> json" where
  "status_json Met = JString ''met''"
| "status_json NotMet = JString ''not_met''"
| "status_json Undetermined = JString ''undetermined''"

fun criterion_json :: "criterion \<Rightarrow> json" where
  "criterion_json IntangibleAsset = JString ''intangible_asset''"
| "criterion_json NoEnforceableClaim = JString ''no_enforceable_claim''"
| "criterion_json OnDistributedLedger = JString ''on_distributed_ledger''"
| "criterion_json CryptographicallySecured = JString ''cryptographically_secured''"
| "criterion_json Fungible = JString ''fungible''"
| "criterion_json NotSelfIssued = JString ''not_self_issued''"

definition criteria_json :: "criteria_assessment \<Rightarrow> json" where
  "criteria_json c = json_object [
     (''intangible_asset'', status_json (ca_intangible_asset c)),
     (''no_enforceable_claim'', status_json (ca_no_enforceable_claim c)),
     (''on_distributed_ledger'', status_json (ca_on_distributed_ledger c)),
     (''cryptographically_secured'', status_json (ca_cryptographically_secured c)),
     (''fungible'', status_json (ca_fungible c)),
     (''not_self_issued'', status_json (ca_not_self_issued c))]"

fun verdict_json :: "scope_verdict \<Rightarrow> json" where
  "verdict_json InScope = json_object [(''verdict'', JString ''in_scope'')]"
| "verdict_json (OutOfScope not_met undetermined) = json_object [
     (''verdict'', JString ''out_of_scope''),
     (''not_met'', JArray (map criterion_json not_met)),
     (''undetermined'', JArray (map criterion_json undetermined))]"

definition assessment_env :: "libs \<Rightarrow> scope_assessment \<Rightarrow> json" where
  "assessment_env L a = json_object [
     (''schema'', JString assessment_schema),
     (''tenant'', JString (sa_tenant a)),
     (''asset'', JString (sa_asset a)),
     (''criteria'', criteria_json (sa_criteria a)),
     (''policy'', JString (to_hex L (sa_policy_hash a)))]"

definition assessment_hash :: "libs \<Rightarrow> scope_assessment \<Rightarrow> (scope_error, content_hash) result" where
  "assessment_hash L a = map_err ScopeCanon (content_id L (assessment_env L a))"

text \<open>The loop of \<open>verdict\<close> pushes each criterion that is not met onto one of two vectors.\<close>

definition verdict :: "scope_assessment \<Rightarrow> scope_verdict" where
  "verdict a =
     (let entries = criteria_entries (sa_criteria a);
          not_met = map fst (filter (\<lambda>(_, status). status = NotMet) entries);
          undetermined = map fst (filter (\<lambda>(_, status). status = Undetermined) entries) in
      if not_met = [] \<and> undetermined = [] then InScope else OutOfScope not_met undetermined)"

subsection \<open>The gate\<close>

datatype gate_decision =
    Proceed content_hash
  | BlockedOutOfScope content_hash scope_verdict
  | BlockedNoAssessment

record scope_gate =
  sg_queue :: "scope_assessment dual_control_queue"
  sg_confirmed :: "(tenant_id \<times> asset_id, content_hash) hashmap"

definition sg_new :: scope_gate where
  "sg_new = \<lparr>sg_queue = dc_new, sg_confirmed = []\<rparr>"

definition sg_propose :: "libs \<Rightarrow> scope_assessment \<Rightarrow> actor_id \<Rightarrow> scope_gate
  \<Rightarrow> (scope_error, content_hash) result \<times> scope_gate" where
  "sg_propose L a preparer G =
     (case assessment_hash L a of
        Inl e \<Rightarrow> (Inl e, G)
      | Inr aid \<Rightarrow> (Inr aid, G\<lparr>sg_queue := dc_propose (sg_queue G) aid a preparer\<rparr>))"

definition sg_confirm :: "content_hash \<Rightarrow> actor_id \<Rightarrow> scope_gate
  \<Rightarrow> (dual_control_error, unit) result \<times> scope_gate" where
  "sg_confirm aid approver G =
     (case dc_confirm (sg_queue G) aid approver of
        (Inl e, q) \<Rightarrow> (Inl e, G\<lparr>sg_queue := q\<rparr>)
      | (Inr _, q) \<Rightarrow>
          (case dc_payload q aid of
             None \<Rightarrow> (Inr (), G\<lparr>sg_queue := q\<rparr>)
           | Some a \<Rightarrow> (Inr (), \<lparr>sg_queue = q,
               sg_confirmed = hm_insert (sa_tenant a, sa_asset a) aid (sg_confirmed G)\<rparr>)))"

definition sg_reject :: "content_hash \<Rightarrow> actor_id \<Rightarrow> string \<Rightarrow> scope_gate
  \<Rightarrow> (dual_control_error, unit) result \<times> scope_gate" where
  "sg_reject aid actor reason G =
     (case dc_reject (sg_queue G) aid actor reason of (r, q) \<Rightarrow> (r, G\<lparr>sg_queue := q\<rparr>))"

definition sg_check :: "scope_gate \<Rightarrow> tenant_id \<Rightarrow> asset_id \<Rightarrow> gate_decision" where
  "sg_check G tenant asset =
     (case hm_get (sg_confirmed G) (tenant, asset) of
        None \<Rightarrow> BlockedNoAssessment
      | Some aid \<Rightarrow>
          (case dc_payload (sg_queue G) aid of
             None \<Rightarrow> BlockedNoAssessment
           | Some a \<Rightarrow>
               (case verdict a of
                  InScope \<Rightarrow> Proceed aid
                | OutOfScope n u \<Rightarrow> BlockedOutOfScope aid (OutOfScope n u))))"

definition sg_state :: "scope_gate \<Rightarrow> content_hash \<Rightarrow> dual_control_state option" where
  "sg_state G aid = dc_state (sg_queue G) aid"

definition draft_scope_judgment :: "libs \<Rightarrow> scope_assessment \<Rightarrow> dual_control_state \<Rightarrow> timestamp_ns
  \<Rightarrow> (scope_error, event_draft) result" where
  "draft_scope_judgment L a state event_time =
     (case state of
        DC_Confirmed preparer approver \<Rightarrow>
          and_then (assessment_hash L a) (\<lambda>aid. Inr
            \<lparr>ev_tenant = sa_tenant a, ev_layer = Judgment, ev_time = event_time, ev_supersedes = None,
             ev_provenance = ProvJudgment (sa_policy_hash a) [preparer, approver] [aid],
             ev_payload = json_object [
               (''schema'', JString assessment_schema),
               (''booking'', JString ''scope_designation''),
               (''asset'', JString (sa_asset a)),
               (''criteria'', criteria_json (sa_criteria a)),
               (''verdict'', verdict_json (verdict a)),
               (''assessment'', JString (to_hex L aid))]\<rparr>)
      | _ \<Rightarrow> Inl ScopeNotConfirmed)"

subsection \<open>Verdicts and identity\<close>

lemma verdict_in_scope:
  "verdict a = InScope \<longleftrightarrow> list_all (\<lambda>(_, status). status = Met) (criteria_entries (sa_criteria a))"
proof -
  have "status = Met \<longleftrightarrow> status \<noteq> NotMet \<and> status \<noteq> Undetermined" for status by (cases status) simp_all
  then show ?thesis by (auto simp: verdict_def Let_def filter_empty_conv list_all_iff split: if_splits prod.splits)
qed

lemma status_json_simps [simp]: "json_ok k (status_json s)" "status_json s = status_json t \<longleftrightarrow> s = t"
  by (cases s; simp) (cases s; cases t; simp)

lemma criterion_json_ok [simp]: "json_ok k (criterion_json c)"
  by (cases c) simp_all

lemma verdict_json_ok [simp]: "json_ok (Suc (Suc k)) (verdict_json v)"
  by (cases v) simp_all

lemma criteria_json_simps [simp]:
  "json_ok (Suc k) (criteria_json c)" "criteria_json c = criteria_json d \<longleftrightarrow> c = d"
  by (simp add: criteria_json_def) (cases c; cases d; simp add: criteria_json_def json_object_inject)

interpretation assessment_identity: artifact assessment_env "\<lambda>a. True"
proof
  fix x y :: scope_assessment and L
  show "json_ok max_depth (assessment_env L x)" by (rule json_ok_shallow) (simp add: assessment_env_def)
  show "libs_ok L \<Longrightarrow> assessment_env L x = assessment_env L y \<Longrightarrow> x = y"
    by (cases x; cases y) (simp add: assessment_env_def json_object_inject)
qed

subsection \<open>Reachable gates\<close>

inductive sg_step :: "libs \<Rightarrow> scope_gate \<Rightarrow> scope_gate \<Rightarrow> bool" for L where
  sg_step_propose: "sg_step L G (snd (sg_propose L a preparer G))"
| sg_step_confirm: "sg_step L G (snd (sg_confirm aid approver G))"
| sg_step_reject: "sg_step L G (snd (sg_reject aid actor reason G))"

lemma sg_confirm_cases:
  obtains (failed) e where "sg_confirm aid approver G = (Inl e, G)"
  | (confirmed) q a where "dc_confirm (sg_queue G) aid approver = (Inr (), q)" "dc_payload (sg_queue G) aid = Some a"
      "sg_confirm aid approver G = (Inr (), \<lparr>sg_queue = q, sg_confirmed = hm_insert (sa_tenant a, sa_asset a) aid (sg_confirmed G)\<rparr>)"
proof (cases "dc_confirm (sg_queue G) aid approver")
  case (Pair r q)
  show thesis
  proof (cases r)
    case (Inl e)
    then have "q = sg_queue G" using Pair dc_confirm_Inl by blast
    then show thesis using Pair Inl by (intro failed) (simp add: sg_confirm_def)
  next
    case (Inr u)
    then have conf: "dc_confirm (sg_queue G) aid approver = (Inr (), q)" using Pair by simp
    obtain p where "dc_state (sg_queue G) aid = Some (DC_Asserted p)" using dc_confirm_state(1) [OF conf] by blast
    then obtain a where a: "dc_payload (sg_queue G) aid = Some a"
      using dc_state_payload [of "sg_queue G" aid] by auto
    with dc_confirm_state(2) [OF conf, of aid] conf show thesis
      by (intro confirmed [OF conf a]) (simp add: sg_confirm_def)
  qed
qed

lemma sg_step_queue: "sg_step L G G' \<Longrightarrow> dc_step\<^sup>*\<^sup>* (sg_queue G) (sg_queue G')"
proof (induction rule: sg_step.induct)
  case (sg_step_propose G a preparer)
  then show ?case
    by (cases "assessment_hash L a") (auto simp: sg_propose_def intro: dc_step_propose)
next
  case (sg_step_confirm G aid approver)
  then show ?case
    by (cases rule: sg_confirm_cases [of aid approver G]) (auto intro: dc_step_confirm)
next
  case (sg_step_reject G aid actor reason)
  then show ?case
    by (cases "dc_reject (sg_queue G) aid actor reason") (auto simp: sg_reject_def intro: dc_step_reject)
qed

lemma sg_reach_queue: "(sg_step L)\<^sup>*\<^sup>* G G' \<Longrightarrow> dc_step\<^sup>*\<^sup>* (sg_queue G) (sg_queue G')"
  by (induction rule: rtranclp_induct) (auto dest: sg_step_queue)

definition governs :: "scope_assessment dual_control_queue \<Rightarrow> tenant_id \<Rightarrow> asset_id \<Rightarrow> content_hash \<Rightarrow> bool" where
  "governs q tenant asset aid \<longleftrightarrow>
     (\<exists>a p x. dc_payload q aid = Some a \<and> sa_tenant a = tenant \<and> sa_asset a = asset \<and>
        dc_state q aid = Some (DC_Confirmed p x))"

lemma governs_steps: "dc_step\<^sup>*\<^sup>* q q' \<Longrightarrow> governs q tenant asset aid \<Longrightarrow> governs q' tenant asset aid"
  unfolding governs_def using dc_steps_payload dcq.terminal_forever by (metis dc_is_terminal.simps(2))

definition sg_inv :: "libs \<Rightarrow> scope_gate \<Rightarrow> bool" where
  "sg_inv L G \<longleftrightarrow>
     (\<forall>tenant asset aid. hm_get (sg_confirmed G) (tenant, asset) = Some aid \<longrightarrow>
        governs (sg_queue G) tenant asset aid) \<and>
     (\<forall>aid a. dc_payload (sg_queue G) aid = Some a \<longrightarrow> assessment_hash L a = Inr aid)"

lemma sg_inv_new: "sg_inv L sg_new"
  by (simp add: sg_inv_def sg_new_def)

lemma sg_step_confirmed:
  assumes "sg_step L G G'" and "hm_get (sg_confirmed G') (tenant, asset) = Some aid"
  shows "hm_get (sg_confirmed G) (tenant, asset) = Some aid \<or> governs (sg_queue G') tenant asset aid"
  using assms(1)
proof cases
  case (sg_step_propose a preparer)
  then show ?thesis using assms(2) by (auto simp: sg_propose_def split: sum.splits)
next
  case (sg_step_confirm aid' approver)
  show ?thesis
  proof (cases rule: sg_confirm_cases [of aid' approver G])
    case (confirmed q a)
    then show ?thesis
      using dc_confirm_state [OF confirmed(1), of aid'] sg_step_confirm assms(2)
      by (auto simp: governs_def split: if_splits)
  qed (use sg_step_confirm assms(2) in simp)
next
  case (sg_step_reject aid' actor reason)
  then show ?thesis using assms(2) by (auto simp: sg_reject_def split: prod.splits)
qed

lemma sg_step_hashes:
  assumes "sg_step L G G'" and "dc_payload (sg_queue G') aid = Some a"
  shows "dc_payload (sg_queue G) aid = Some a \<or> assessment_hash L a = Inr aid"
  using assms(1)
proof cases
  case (sg_step_propose b preparer)
  then show ?thesis using assms(2) by (auto simp: sg_propose_def dc_propose_payload split: sum.splits if_splits)
next
  case (sg_step_confirm aid' approver)
  then show ?thesis using assms(2)
    by (cases rule: sg_confirm_cases [of aid' approver G]) (auto simp: dc_confirm_state(2))
next
  case (sg_step_reject aid' actor reason)
  obtain r q where rq: "dc_reject (sg_queue G) aid' actor reason = (r, q)" by (cases "dc_reject (sg_queue G) aid' actor reason")
  then have "dc_payload q aid = dc_payload (sg_queue G) aid"
    by (cases r) (auto dest: dc_reject_Inl simp: dc_reject_state(2))
  then show ?thesis using assms(2) sg_step_reject rq by (simp add: sg_reject_def)
qed

lemma sg_step_inv: "sg_step L G G' \<Longrightarrow> sg_inv L G \<Longrightarrow> sg_inv L G'"
  unfolding sg_inv_def using sg_step_confirmed sg_step_hashes governs_steps [OF sg_step_queue] by meson

lemma sg_reach_inv: "(sg_step L)\<^sup>*\<^sup>* sg_new G \<Longrightarrow> sg_inv L G"
  by (induction rule: rtranclp_induct) (auto intro: sg_inv_new sg_step_inv)

subsection \<open>Properties\<close>


definition demo_assessment :: "criterion_status \<Rightarrow> scope_assessment" where
  "demo_assessment fungible = \<lparr>sa_tenant = ''acme'', sa_asset = ''BTC'', sa_criteria = \<lparr>ca_intangible_asset = Met,
     ca_no_enforceable_claim = Met, ca_on_distributed_ledger = Met, ca_cryptographically_secured = Met,
     ca_fungible = fungible, ca_not_self_issued = Met\<rparr>, sa_policy_hash = hash_of_byte (CHR 0x05)\<rparr>"


end
