(* ===== verification/Fairvalue.thy ===== *)
theory Fairvalue
  imports Lots Policy
begin

section \<open>Fair value (treasury-fairvalue)\<close>

text \<open>
  Models \<open>crates/treasury-fairvalue/src/\<close> \<open>snapshot.rs\<close> and \<open>valuation.rs\<close>: price snapshots with their
  hash, and the valuation of a lot book at a snapshot under a policy. The lemmas give the contents
  of a successful valuation exactly (one position per held asset, in order, with summed atoms and
  basis, the value at the snapshot price and the mark), its totals, and that the valuation key
  determines the whole report. The division of the code truncates; that is the documented floor
  as long as prices are not negative, which the code does not check.
\<close>

record price =
  pr_minor_per_unit :: int
  pr_atoms_per_unit :: int

record price_snapshot =
  ps_currency :: asset_id
  ps_as_of :: timestamp_ns
  ps_prices :: "(asset_id, price) btreemap"

definition snapshot_schema :: string where
  "snapshot_schema = ''treasury-fairvalue/price-snapshot/v1''"

definition price_json :: "price \<Rightarrow> json" where
  "price_json p = json_object [
     (''minor_per_unit'', JString (show_int (pr_minor_per_unit p))),
     (''atoms_per_unit'', JString (show_int (pr_atoms_per_unit p)))]"

definition snapshot_env :: "libs \<Rightarrow> price_snapshot \<Rightarrow> json" where
  "snapshot_env L s = json_object [
     (''schema'', JString snapshot_schema),
     (''currency'', JString (ps_currency s)),
     (''as_of'', time_json (ps_as_of s)),
     (''prices'', JObject (map (\<lambda>(asset, p). (asset, price_json p)) (ps_prices s)))]"

definition snapshot_hash :: "libs \<Rightarrow> price_snapshot \<Rightarrow> (canon_error, content_hash) result" where
  "snapshot_hash L s = content_id L (snapshot_env L s)"

subsection \<open>Valuations\<close>

record position =
  pos_asset :: asset_id
  pos_atoms :: int
  pos_cost_basis :: asset_amount
  pos_fair_value :: asset_amount
  pos_unrealized :: asset_amount

record valuation =
  vl_key :: valuation_key
  vl_key_hash :: content_hash
  vl_as_of :: timestamp_ns
  vl_positions :: "position list"
  vl_total_fair_value :: asset_amount
  vl_total_unrealized :: asset_amount

datatype fv_error =
    MissingPrice asset_id
  | BadPrice asset_id
  | FvCurrencyMismatch
  | FvOverflow
  | FvLots lot_error
  | FvAmount amount_error
  | FvCanon canon_error

definition valuation_schema :: string where
  "valuation_schema = ''treasury-fairvalue/valuation/v1''"

definition position_json :: "position \<Rightarrow> json" where
  "position_json p = json_object [
     (''asset'', JString (pos_asset p)),
     (''atoms'', JString (show_int (pos_atoms p))),
     (''cost_basis'', amount_json (pos_cost_basis p)),
     (''fair_value'', amount_json (pos_fair_value p)),
     (''unrealized'', amount_json (pos_unrealized p))]"

definition valuation_env :: "libs \<Rightarrow> valuation \<Rightarrow> json" where
  "valuation_env L v = json_object [
     (''schema'', JString valuation_schema),
     (''key'', JString (to_hex L (vl_key_hash v))),
     (''as_of'', time_json (vl_as_of v)),
     (''positions'', JArray (map position_json (vl_positions v))),
     (''total_fair_value'', amount_json (vl_total_fair_value v)),
     (''total_unrealized'', amount_json (vl_total_unrealized v))]"

definition valuation_hash :: "libs \<Rightarrow> valuation \<Rightarrow> (fv_error, content_hash) result" where
  "valuation_hash L v = map_err FvCanon (content_id L (valuation_env L v))"

text \<open>The first loop of \<open>value_book\<close>: open lots aggregated per asset.\<close>

fun aggregate_lots :: "asset_id \<Rightarrow> (asset_id, int \<times> asset_amount) btreemap \<Rightarrow> lot list
  \<Rightarrow> (fv_error, (asset_id, int \<times> asset_amount) btreemap) result" where
  "aggregate_lots currency by_asset [] = Inr by_asset"
| "aggregate_lots currency by_asset (l # ls) =
     (if amt_asset (lot_cost_basis l) \<noteq> currency then Inl FvCurrencyMismatch
      else case bt_get by_asset (lot_asset l) of
        None \<Rightarrow> aggregate_lots currency (bt_insert (lot_asset l) (lot_atoms l, lot_cost_basis l) by_asset) ls
      | Some (atoms, basis) \<Rightarrow>
          and_then (ok_or FvOverflow (i128_add atoms (lot_atoms l))) (\<lambda>new_atoms.
          and_then (map_err FvAmount (checked_add basis (lot_cost_basis l))) (\<lambda>new_basis.
            aggregate_lots currency (bt_insert (lot_asset l) (new_atoms, new_basis) by_asset) ls)))"

text \<open>The second loop: one position per asset, with the running totals.\<close>

fun value_positions :: "asset_id \<Rightarrow> (asset_id, price) btreemap \<Rightarrow> asset_amount \<Rightarrow> asset_amount
  \<Rightarrow> (asset_id \<times> int \<times> asset_amount) list
  \<Rightarrow> (fv_error, position list \<times> asset_amount \<times> asset_amount) result" where
  "value_positions currency prices total_fv total_un [] = Inr ([], total_fv, total_un)"
| "value_positions currency prices total_fv total_un ((asset, atoms, cost_basis) # rest) =
     (case bt_get prices asset of
        None \<Rightarrow> Inl (MissingPrice asset)
      | Some price \<Rightarrow>
          if pr_atoms_per_unit price \<le> 0 then Inl (BadPrice asset)
          else
            and_then (ok_or FvOverflow (i128_mul atoms (pr_minor_per_unit price))) (\<lambda>scaled.
            and_then (ok_or FvOverflow (i128_div scaled (pr_atoms_per_unit price))) (\<lambda>value_minor.
            let fair_value = amount_new currency value_minor in
            and_then (map_err FvAmount (checked_sub fair_value cost_basis)) (\<lambda>unrealized.
            and_then (map_err FvAmount (checked_add total_fv fair_value)) (\<lambda>total_fv.
            and_then (map_err FvAmount (checked_add total_un unrealized)) (\<lambda>total_un.
            and_then (value_positions currency prices total_fv total_un rest) (\<lambda>(positions, tf, tu).
              Inr (\<lparr>pos_asset = asset, pos_atoms = atoms, pos_cost_basis = cost_basis,
                    pos_fair_value = fair_value, pos_unrealized = unrealized\<rparr> # positions, tf, tu))))))))"

definition value_book :: "libs \<Rightarrow> lot_book \<Rightarrow> price_snapshot \<Rightarrow> content_hash \<Rightarrow> (fv_error, valuation) result" where
  "value_book L book snapshot policy =
     and_then (map_err FvLots (lots_hash L book)) (\<lambda>lh.
     and_then (map_err FvCanon (snapshot_hash L snapshot)) (\<lambda>sh.
     let key = \<lparr>vk_lots_hash = lh, vk_price_snapshot_hash = sh, vk_policy_hash = policy\<rparr> in
     and_then (map_err FvCanon (key_hash L key)) (\<lambda>kh.
     let currency = ps_currency snapshot in
     and_then (aggregate_lots currency [] (open_lots book)) (\<lambda>by_asset.
     and_then (value_positions currency (ps_prices snapshot) (amount_new currency 0) (amount_new currency 0) by_asset)
       (\<lambda>(positions, total_fv, total_un). Inr
         \<lparr>vl_key = key, vl_key_hash = kh, vl_as_of = ps_as_of snapshot, vl_positions = positions,
          vl_total_fair_value = total_fv, vl_total_unrealized = total_un\<rparr>)))))"

subsection \<open>Identity\<close>

definition snapshot_wf :: "price_snapshot \<Rightarrow> bool" where
  "snapshot_wf s \<longleftrightarrow> bt_wf (ps_prices s)"

lemma price_json_simps [simp]: "json_ok (Suc k) (price_json p)" "price_json p = price_json q \<longleftrightarrow> p = q"
  by (simp add: price_json_def) (cases p; cases q; simp add: price_json_def json_object_inject show_int_inject)

lemma prices_json_ok: "bt_wf ps \<Longrightarrow> json_ok (Suc (Suc k)) (JObject (map (\<lambda>(asset, p). (asset, price_json p)) ps))"
proof -
  assume wf: "bt_wf ps"
  have "json_ok (Suc k) (price_json p)" for p by simp
  moreover have "sorted_wrt (<) (map (fst \<circ> (\<lambda>(asset, p). (asset, price_json p))) ps)"
    using wf by (induction ps) fastforce+
  ultimately show ?thesis by (auto simp: json_ok_def)
qed

lemma prices_json_inject: "map (\<lambda>(asset, p). (asset, price_json p)) ps = map (\<lambda>(asset, p). (asset, price_json p)) qs \<longleftrightarrow> ps = qs"
  by (subst inj_map_eq_map) (auto simp: inj_def)

interpretation snapshot_identity: artifact snapshot_env snapshot_wf
proof
  fix x y :: price_snapshot and L
  show "snapshot_wf x \<Longrightarrow> json_ok max_depth (snapshot_env L x)"
    by (rule json_ok_shallow) (simp add: snapshot_env_def snapshot_wf_def prices_json_ok)
  show "libs_ok L \<Longrightarrow> snapshot_env L x = snapshot_env L y \<Longrightarrow> x = y"
    by (cases x; cases y) (simp add: snapshot_env_def json_object_inject prices_json_inject)
qed

lemma position_json_ok [simp]: "json_ok (Suc (Suc k)) (position_json p)"
  by (simp add: position_json_def)

lemma position_json_inject [simp]: "position_json p = position_json q \<longleftrightarrow> p = q"
  by (cases p; cases q) (simp add: position_json_def json_object_inject show_int_inject)

subsection \<open>What a valuation contains\<close>

definition asset_atoms :: "asset_id \<Rightarrow> lot list \<Rightarrow> int" where
  "asset_atoms a ls = (\<Sum>l \<leftarrow> ls. if lot_asset l = a then lot_atoms l else 0)"

definition asset_basis :: "asset_id \<Rightarrow> lot list \<Rightarrow> int" where
  "asset_basis a ls = (\<Sum>l \<leftarrow> ls. if lot_asset l = a then amt_atoms (lot_cost_basis l) else 0)"

lemma asset_sums_simps [simp]:
  "asset_atoms a [] = 0" "asset_basis a [] = 0"
  "asset_atoms a (l # ls) = (if lot_asset l = a then lot_atoms l else 0) + asset_atoms a ls"
  "asset_basis a (l # ls) = (if lot_asset l = a then amt_atoms (lot_cost_basis l) else 0) + asset_basis a ls"
  by (simp_all add: asset_atoms_def asset_basis_def)

lemma asset_sums_mset: "mset ls = mset ms \<Longrightarrow> asset_atoms a ls = asset_atoms a ms \<and> asset_basis a ls = asset_basis a ms"
proof -
  assume eq: "mset ls = mset ms"
  have "sum_list (map f ls) = sum_list (map f ms)" for f :: "lot \<Rightarrow> int"
    using eq by (metis mset_map sum_mset_sum_list)
  then show ?thesis unfolding asset_atoms_def asset_basis_def by blast
qed

lemma asset_sums_absent: "a \<notin> lot_asset ` set ls \<Longrightarrow> asset_atoms a ls = 0 \<and> asset_basis a ls = 0"
  by (induction ls) auto

text \<open>What the aggregation adds to a position that is already there, or starts from nothing.\<close>

definition plus_lots :: "asset_id \<Rightarrow> lot list \<Rightarrow> asset_id \<Rightarrow> (int \<times> asset_amount) option \<Rightarrow> (int \<times> asset_amount) option" where
  "plus_lots currency ls a v =
     (case v of
        Some (n, b) \<Rightarrow> Some (n + asset_atoms a ls, amount_new currency (amt_atoms b + asset_basis a ls))
      | None \<Rightarrow> if a \<in> lot_asset ` set ls then Some (asset_atoms a ls, amount_new currency (asset_basis a ls)) else None)"

definition in_currency :: "asset_id \<Rightarrow> (asset_id, int \<times> asset_amount) btreemap \<Rightarrow> bool" where
  "in_currency currency m \<longleftrightarrow> (\<forall>a n b. bt_get m a = Some (n, b) \<longrightarrow> amt_asset b = currency)"

lemma aggregate_lots_Inr:
  assumes "aggregate_lots currency m ls = Inr m'" and "bt_wf m" and "in_currency currency m"
  shows "bt_wf m' \<and> (\<forall>l \<in> set ls. amt_asset (lot_cost_basis l) = currency) \<and>
    (\<forall>a. bt_get m' a = plus_lots currency ls a (bt_get m a))"
  using assms
proof (induction ls arbitrary: m)
  case Nil
  then show ?case by (auto simp: plus_lots_def in_currency_def amount_eq_iff split: option.splits)
next
  case (Cons l ls)
  have cur: "amt_asset (lot_cost_basis l) = currency" using Cons.prems(1) by (auto split: if_splits)
  show ?case
  proof (cases "bt_get m (lot_asset l)")
    case None
    let ?m = "bt_insert (lot_asset l) (lot_atoms l, lot_cost_basis l) m"
    have step: "aggregate_lots currency ?m ls = Inr m'" using Cons.prems(1) cur None by simp
    have "in_currency currency ?m" using Cons.prems(2,3) cur by (auto simp: in_currency_def)
    from Cons.IH [OF step bt_wf_insert [OF Cons.prems(2)] this] show ?thesis
      using Cons.prems(2) None cur by (auto simp: plus_lots_def split: option.splits)
  next
    case (Some x)
    obtain n b where x: "x = (n, b)" by (cases x)
    obtain n' b' where step: "aggregate_lots currency (bt_insert (lot_asset l) (n', b') m) ls = Inr m'"
      and n': "n' = n + lot_atoms l" and b': "b' = amount_new (amt_asset b) (amt_atoms b + amt_atoms (lot_cost_basis l))"
      using Cons.prems(1) cur Some x by (auto simp: result_simps i128_ops)
    have b: "amt_asset b = currency" using Cons.prems(3) Some x by (auto simp: in_currency_def)
    have "in_currency currency (bt_insert (lot_asset l) (n', b') m)" using Cons.prems(2,3) b b' by (auto simp: in_currency_def)
    from Cons.IH [OF step bt_wf_insert [OF Cons.prems(2)] this] show ?thesis
      using Cons.prems(2) Some x cur n' b' b by (auto simp: plus_lots_def split: option.splits)
  qed
qed

definition valued :: "asset_id \<Rightarrow> (asset_id, price) btreemap \<Rightarrow> asset_id \<times> int \<times> asset_amount \<Rightarrow> position \<Rightarrow> bool" where
  "valued currency prices e p \<longleftrightarrow>
     (\<exists>pr. bt_get prices (fst e) = Some pr \<and> 0 < pr_atoms_per_unit pr \<and>
        p = \<lparr>pos_asset = fst e, pos_atoms = fst (snd e), pos_cost_basis = snd (snd e),
             pos_fair_value = amount_new currency ((fst (snd e) * pr_minor_per_unit pr) sdiv pr_atoms_per_unit pr),
             pos_unrealized = amount_new currency
               ((fst (snd e) * pr_minor_per_unit pr) sdiv pr_atoms_per_unit pr - amt_atoms (snd (snd e)))\<rparr>)"

lemma value_positions_Inr:
  assumes "value_positions currency prices tf tu es = Inr (ps, tf', tu')"
    and "amt_asset tf = currency" and "amt_asset tu = currency"
  shows "list_all2 (valued currency prices) es ps \<and>
    tf' = amount_new currency (amt_atoms tf + (\<Sum>p \<leftarrow> ps. amt_atoms (pos_fair_value p))) \<and>
    tu' = amount_new currency (amt_atoms tu + (\<Sum>p \<leftarrow> ps. amt_atoms (pos_fair_value p) - amt_atoms (pos_cost_basis p)))"
  using assms
proof (induction es arbitrary: tf tu ps)
  case Nil
  then show ?case by (auto simp: amount_eq_iff)
next
  case (Cons e es)
  obtain a n b where e: "e = (a, n, b)" by (cases e)
  from Cons.prems(1) e obtain pr where pr: "bt_get prices a = Some pr" by (auto split: option.splits)
  let ?v = "(n * pr_minor_per_unit pr) sdiv pr_atoms_per_unit pr"
  let ?tf = "amount_new currency (amt_atoms tf + ?v)" and ?tu = "amount_new currency (amt_atoms tu + (?v - amt_atoms b))"
  from Cons.prems e pr obtain qs where pos: "0 < pr_atoms_per_unit pr"
    and rest: "value_positions currency prices ?tf ?tu es = Inr (qs, tf', tu')"
    and ps: "ps = \<lparr>pos_asset = a, pos_atoms = n, pos_cost_basis = b, pos_fair_value = amount_new currency ?v,
      pos_unrealized = amount_new currency (?v - amt_atoms b)\<rparr> # qs"
    by (auto simp: result_simps i128_ops Let_def split: if_splits)
  show ?case using Cons.IH [OF rest] pos pr by (simp add: ps e valued_def)
qed

lemma open_lots_mset [simp]: "mset (open_lots b) = mset (lb_lots b)" "set (open_lots b) = set (lb_lots b)"
  by (simp_all add: open_lots_def)

lemma value_book_Inr:
  assumes "value_book L b s p = Inr v"
  shows "\<exists>m. bt_wf m \<and> list_all2 (valued (ps_currency s) (ps_prices s)) m (vl_positions v) \<and>
    (\<forall>a. bt_get m a = plus_lots (ps_currency s) (lb_lots b) a None) \<and>
    list_all (\<lambda>l. amt_asset (lot_cost_basis l) = ps_currency s) (lb_lots b) \<and>
    vl_total_fair_value v = amount_new (ps_currency s) (\<Sum>q \<leftarrow> vl_positions v. amt_atoms (pos_fair_value q)) \<and>
    vl_total_unrealized v = amount_new (ps_currency s)
      (\<Sum>q \<leftarrow> vl_positions v. amt_atoms (pos_fair_value q) - amt_atoms (pos_cost_basis q))"
proof -
  obtain m where m: "aggregate_lots (ps_currency s) [] (open_lots b) = Inr m"
    and v: "value_positions (ps_currency s) (ps_prices s) (amount_new (ps_currency s) 0) (amount_new (ps_currency s) 0) m =
      Inr (vl_positions v, vl_total_fair_value v, vl_total_unrealized v)"
    using assms by (auto simp: value_book_def result_simps Let_def)
  have agg: "bt_wf m \<and> (\<forall>l \<in> set (open_lots b). amt_asset (lot_cost_basis l) = ps_currency s) \<and>
      (\<forall>a. bt_get m a = plus_lots (ps_currency s) (open_lots b) a None)"
    using aggregate_lots_Inr [OF m] by (simp add: in_currency_def)
  have "plus_lots (ps_currency s) (open_lots b) a None = plus_lots (ps_currency s) (lb_lots b) a None" for a
    using asset_sums_mset [of "open_lots b" "lb_lots b" a] by (simp add: plus_lots_def)
  with agg value_positions_Inr [OF v] show ?thesis by (auto simp: list_all_iff)
qed

text \<open>Summing over the positions is summing over the lots.\<close>

lemma basis_sum_over:
  "finite S \<Longrightarrow> lot_asset ` set ls \<subseteq> S \<Longrightarrow> (\<Sum>a \<in> S. asset_basis a ls) = (\<Sum>l \<leftarrow> ls. amt_atoms (lot_cost_basis l))"
proof (induction ls)
  case (Cons l ls)
  then show ?case by (simp add: sum.distrib sum.delta')
qed simp

lemma aggregated_keys:
  assumes "\<And>a. bt_get m a = plus_lots c ls a None"
  shows "set (map fst m) = lot_asset ` set ls"
proof (rule set_eqI)
  fix a
  have "a \<in> set (map fst m) \<longleftrightarrow> bt_get m a \<noteq> None" by (simp add: map_of_None_keys)
  then show "a \<in> set (map fst m) \<longleftrightarrow> a \<in> lot_asset ` set ls" by (simp add: assms plus_lots_def)
qed

lemma aggregated_entry:
  assumes "bt_wf m" and "\<And>a. bt_get m a = plus_lots c ls a None" and "e \<in> set m"
  shows "snd e = (asset_atoms (fst e) ls, amount_new c (asset_basis (fst e) ls))"
proof -
  have "plus_lots c ls (fst e) None = Some (snd e)"
    using bt_get_iff [OF assms(1)] assms(3) by (cases e) (simp flip: assms(2))
  then show ?thesis by (simp add: plus_lots_def split: if_splits)
qed

lemma positions_basis_sum:
  assumes "bt_wf m" and "\<And>a. bt_get m a = plus_lots c ls a None"
  shows "(\<Sum>e \<leftarrow> m. amt_atoms (snd (snd e))) = (\<Sum>l \<leftarrow> ls. amt_atoms (lot_cost_basis l))"
proof -
  have dist: "distinct (map fst m)" using assms(1) by (simp add: bt_wf_def strict_sorted_iff)
  have basis: "amt_atoms (snd (snd e)) = asset_basis (fst e) ls" if "e \<in> set m" for e
    using aggregated_entry [OF assms that] by simp
  have "(\<Sum>e \<leftarrow> m. amt_atoms (snd (snd e))) = (\<Sum>a \<leftarrow> map fst m. asset_basis a ls)"
    using basis by (simp add: comp_def cong: map_cong)
  also have "\<dots> = (\<Sum>a \<in> lot_asset ` set ls. asset_basis a ls)"
    using dist aggregated_keys [OF assms(2)] by (metis sum_list_distinct_conv_sum_set)
  also have "\<dots> = (\<Sum>l \<leftarrow> ls. amt_atoms (lot_cost_basis l))" by (rule basis_sum_over) simp_all
  finally show ?thesis .
qed

text \<open>A position agrees with the lots of its asset and with the snapshot price.\<close>

definition position_exact :: "price_snapshot \<Rightarrow> lot list \<Rightarrow> position \<Rightarrow> bool" where
  "position_exact s ls q \<longleftrightarrow> (\<exists>pr. bt_get (ps_prices s) (pos_asset q) = Some pr \<and> 0 < pr_atoms_per_unit pr \<and>
      pos_atoms q = asset_atoms (pos_asset q) ls \<and>
      pos_cost_basis q = amount_new (ps_currency s) (asset_basis (pos_asset q) ls) \<and>
      pos_fair_value q = amount_new (ps_currency s) ((pos_atoms q * pr_minor_per_unit pr) sdiv pr_atoms_per_unit pr) \<and>
      pos_unrealized q = amount_new (ps_currency s) (amt_atoms (pos_fair_value q) - amt_atoms (pos_cost_basis q)))"

lemma valued_position_exact:
  assumes "bt_wf m" and "\<And>a. bt_get m a = plus_lots (ps_currency s) ls a None" and "e \<in> set m"
    and "valued (ps_currency s) (ps_prices s) e q"
  shows "position_exact s ls q"
  using aggregated_entry [OF assms(1-3)] assms(4) by (auto simp: valued_def position_exact_def)

lemma value_book_positions:
  assumes "value_book L b s p = Inr v"
  shows "sorted_wrt (<) (map pos_asset (vl_positions v)) \<and>
    set (map pos_asset (vl_positions v)) = lot_asset ` set (lb_lots b) \<and>
    list_all (position_exact s (lb_lots b)) (vl_positions v) \<and>
    (\<Sum>q \<leftarrow> vl_positions v. amt_atoms (pos_cost_basis q)) = (\<Sum>l \<leftarrow> lb_lots b. amt_atoms (lot_cost_basis l))"
proof -
  obtain m where m: "bt_wf m" "list_all2 (valued (ps_currency s) (ps_prices s)) m (vl_positions v)"
    "\<And>a. bt_get m a = plus_lots (ps_currency s) (lb_lots b) a None"
    using value_book_Inr [OF assms] by blast
  have assets: "map pos_asset (vl_positions v) = map fst m" and basis: "map pos_cost_basis (vl_positions v) = map (snd \<circ> snd) m"
    using m(2) by (induction rule: list_all2_induct) (auto simp: valued_def)
  have "position_exact s (lb_lots b) q" if "q \<in> set (vl_positions v)" for q
    using that m(2) valued_position_exact [OF m(1,3)] by (metis in_set_conv_nth list_all2_conv_all_nth)
  moreover have "(\<Sum>q \<leftarrow> vl_positions v. amt_atoms (pos_cost_basis q)) = (\<Sum>e \<leftarrow> m. amt_atoms (snd (snd e)))"
    using arg_cong [OF basis, of "\<lambda>xs. sum_list (map amt_atoms xs)"] by (simp add: comp_def)
  ultimately show ?thesis
    using m(1) aggregated_keys [OF m(3)] positions_basis_sum [OF m(1,3)] assets by (simp add: list_all_iff bt_wf_def)
qed

text \<open>Every amount of a report fits its machine integer.\<close>

lemma bt_insert_set: "set (bt_insert k v m) \<subseteq> insert (k, v) (set m)"
  by (induction k v m rule: bt_insert.induct) auto

lemma aggregate_lots_range:
  assumes "aggregate_lots currency m ls = Inr m'" and "\<forall>e \<in> set m. in_i128 (amt_atoms (snd (snd e)))"
    and "\<forall>l \<in> set ls. in_i128 (amt_atoms (lot_cost_basis l))"
  shows "\<forall>e \<in> set m'. in_i128 (amt_atoms (snd (snd e)))"
  using assms
proof (induction ls arbitrary: m)
  case (Cons l ls)
  from Cons.prems(1) obtain n b where step: "aggregate_lots currency (bt_insert (lot_asset l) (n, b) m) ls = Inr m'"
    and b: "in_i128 (amt_atoms b)"
    using Cons.prems(3) by (auto simp: result_simps i128_ops split: if_splits option.splits)
  show ?case
    by (rule Cons.IH [OF step]) (use Cons.prems(2,3) b bt_insert_set [of "lot_asset l" "(n, b)" m] in auto)
qed simp

lemma value_positions_range:
  assumes "value_positions currency prices tf tu es = Inr (ps, tf', tu')"
    and "\<forall>e \<in> set es. in_i128 (amt_atoms (snd (snd e)))"
  shows "list_all (\<lambda>q. in_i128 (amt_atoms (pos_cost_basis q)) \<and> in_i128 (amt_atoms (pos_fair_value q)) \<and>
    in_i128 (amt_atoms (pos_unrealized q))) ps"
  using assms
proof (induction es arbitrary: tf tu ps)
  case (Cons e es)
  obtain a n b where "e = (a, n, b)" by (cases e)
  with Cons.prems obtain q qs tf1 tu1 where "ps = q # qs" "value_positions currency prices tf1 tu1 es = Inr (qs, tf', tu')"
    "in_i128 (amt_atoms (pos_cost_basis q))" "in_i128 (amt_atoms (pos_fair_value q))" "in_i128 (amt_atoms (pos_unrealized q))"
    by (auto simp: result_simps i128_ops Let_def split: if_splits option.splits)
  with Cons.IH Cons.prems(2) show ?case by simp
qed simp

lemma value_book_range:
  assumes "value_book L b s p = Inr v" and "list_all (\<lambda>l. in_i128 (amt_atoms (lot_cost_basis l))) (lb_lots b)"
  shows "list_all (\<lambda>q. in_i128 (amt_atoms (pos_cost_basis q)) \<and> in_i128 (amt_atoms (pos_fair_value q)) \<and>
    in_i128 (amt_atoms (pos_unrealized q))) (vl_positions v)"
proof -
  obtain m where m: "aggregate_lots (ps_currency s) [] (open_lots b) = Inr m"
    and v: "value_positions (ps_currency s) (ps_prices s) (amount_new (ps_currency s) 0) (amount_new (ps_currency s) 0) m =
      Inr (vl_positions v, vl_total_fair_value v, vl_total_unrealized v)"
    using assms(1) by (auto simp: value_book_def result_simps Let_def)
  show ?thesis
    by (rule value_positions_range [OF v aggregate_lots_range [OF m]]) (use assms(2) in \<open>auto simp: list_all_iff\<close>)
qed

subsection \<open>The key determines the report\<close>

lemma open_lots_unique:
  assumes "mset (lb_lots b) = mset (lb_lots b')" and "lb_distinct b"
  shows "open_lots b = open_lots b'"
proof -
  have "inj_on lot_id (set (lb_lots b))" using assms(2) by (simp add: lb_distinct_def distinct_map)
  then have "inj_on lot_key (set (lb_lots b))" by (auto simp: inj_on_def lot_key_def)
  then show ?thesis unfolding open_lots_def
    using assms(1) by (intro sort_key_inj_key_eq) simp_all
qed

lemma value_book_key:
  assumes "value_book L b s p = Inr v"
  shows "lots_hash L b = Inr (vk_lots_hash (vl_key v)) \<and> snapshot_hash L s = Inr (vk_price_snapshot_hash (vl_key v)) \<and>
    vk_policy_hash (vl_key v) = p"
  using assms by (auto simp: value_book_def result_simps Let_def)

lemma value_book_cong:
  assumes "lots_hash L b = lots_hash L b'" and "open_lots b = open_lots b'"
  shows "value_book L b s p = value_book L b' s p"
  using assms by (simp add: value_book_def)

subsection \<open>A concrete valuation\<close>

definition demo_snapshot :: price_snapshot where
  "demo_snapshot = \<lparr>ps_currency = ''USD'', ps_as_of = 9,
     ps_prices = [(''BTC'', \<lparr>pr_minor_per_unit = 61, pr_atoms_per_unit = 2\<rparr>)]\<rparr>"

lemma demo_open_lots: "open_lots demo_book = [demo_lot (CHR 0x02) 7 40 4, demo_lot (CHR 0x01) 10 100 5]"
  by (simp add: open_lots_def demo_book_def demo_lot_def lot_key_def)

lemma demo_value_book:
  obtains v where "value_book (const_libs (CHR 0x07)) demo_book demo_snapshot (hash_of_byte (CHR 0x03)) = Inr v"
    "vl_total_fair_value v = amount_new ''USD'' 518"
proof -
  let ?L = "const_libs (CHR 0x07)"
  have ok: "libs_ok ?L" by (simp add: const_libs_def)
  have "snapshot_wf demo_snapshot" by (simp add: snapshot_wf_def demo_snapshot_def)
  then obtain h where h: "snapshot_hash ?L demo_snapshot = Inr h"
    using snapshot_identity.hash_total [OF ok] by (simp add: snapshot_hash_def)
  have "\<exists>v. value_book ?L demo_book demo_snapshot (hash_of_byte (CHR 0x03)) = Inr v \<and>
      vl_total_fair_value v = amount_new ''USD'' 518"
    unfolding value_book_def h lots_hash_state lots_state.hash_total [OF ok TrueI] key_hash_def
      valuation_key_identity.hash_total [OF ok TrueI] demo_open_lots
    by (simp add: demo_lot_def demo_snapshot_def i128_ops i128_opt_def in_i128_def checked_add_def checked_sub_def
        sdiv_nonneg Let_def)
  then show thesis using that by blast
qed

subsection \<open>Properties\<close>

text \<open>The documented value of a position: the floor of atoms times price.\<close>

definition position_floored :: "price_snapshot \<Rightarrow> lot list \<Rightarrow> position \<Rightarrow> bool" where
  "position_floored s ls q \<longleftrightarrow> (\<exists>pr. bt_get (ps_prices s) (pos_asset q) = Some pr \<and> 0 < pr_atoms_per_unit pr \<and>
      pos_atoms q = asset_atoms (pos_asset q) ls \<and>
      pos_cost_basis q = amount_new (ps_currency s) (asset_basis (pos_asset q) ls) \<and>
      pos_fair_value q = amount_new (ps_currency s) (pos_atoms q * pr_minor_per_unit pr div pr_atoms_per_unit pr) \<and>
      pos_unrealized q = amount_new (ps_currency s) (amt_atoms (pos_fair_value q) - amt_atoms (pos_cost_basis q)))"

lemma asset_atoms_nonneg: "list_all (\<lambda>l. 0 \<le> lot_atoms l) ls \<Longrightarrow> 0 \<le> asset_atoms a ls"
  by (induction ls) auto

lemma position_exact_floored:
  assumes "position_exact s ls q" and "list_all (\<lambda>l. 0 \<le> lot_atoms l) ls"
    and "\<And>pr. bt_get (ps_prices s) (pos_asset q) = Some pr \<Longrightarrow> 0 \<le> pr_minor_per_unit pr"
  shows "position_floored s ls q"
proof -
  from assms(1) obtain pr where pr: "bt_get (ps_prices s) (pos_asset q) = Some pr" "0 < pr_atoms_per_unit pr"
    "pos_atoms q = asset_atoms (pos_asset q) ls"
    "pos_cost_basis q = amount_new (ps_currency s) (asset_basis (pos_asset q) ls)"
    "pos_fair_value q = amount_new (ps_currency s) ((pos_atoms q * pr_minor_per_unit pr) sdiv pr_atoms_per_unit pr)"
    "pos_unrealized q = amount_new (ps_currency s) (amt_atoms (pos_fair_value q) - amt_atoms (pos_cost_basis q))"
    unfolding position_exact_def by blast
  have "0 \<le> pos_atoms q * pr_minor_per_unit pr"
    using asset_atoms_nonneg [OF assms(2)] assms(3) [OF pr(1)] pr(3) by simp
  then have "(pos_atoms q * pr_minor_per_unit pr) sdiv pr_atoms_per_unit pr = pos_atoms q * pr_minor_per_unit pr div pr_atoms_per_unit pr"
    using pr(2) by (intro sdiv_nonneg) simp_all
  with pr show ?thesis unfolding position_floored_def by (intro exI [of _ pr]) simp
qed

text \<open>C27: A valuation at prices that are not negative is exact: it has one position per held asset, in order of asset,
  whose atoms and basis are the sums over the book's lots of that asset, none of which has a negative quantity;
  every lot's basis is in the reporting currency; the fair value is the position at the snapshot price, rounded down
  to a whole minor unit as documented; the mark is fair value less basis; and the totals are the sums, so
  that the total mark is total fair value less the whole basis of the book.\<close>

theorem valuation_exact:
  assumes "value_book L b s p = Inr v" and "list_all (\<lambda>l. 0 \<le> lot_atoms l) (lb_lots b)"
    and "list_all (\<lambda>(asset, pr). 0 \<le> pr_minor_per_unit pr) (ps_prices s)"
  shows "sorted_wrt (<) (map pos_asset (vl_positions v)) \<and>
    set (map pos_asset (vl_positions v)) = lot_asset ` set (lb_lots b) \<and>
    list_all (\<lambda>l. amt_asset (lot_cost_basis l) = ps_currency s) (lb_lots b) \<and>
    list_all (position_floored s (lb_lots b)) (vl_positions v) \<and>
    amt_atoms (vl_total_fair_value v) = (\<Sum>q \<leftarrow> vl_positions v. amt_atoms (pos_fair_value q)) \<and>
    amt_atoms (vl_total_unrealized v) =
      amt_atoms (vl_total_fair_value v) - (\<Sum>l \<leftarrow> lb_lots b. amt_atoms (lot_cost_basis l))"
proof -
  have "0 \<le> pr_minor_per_unit pr" if "bt_get (ps_prices s) a = Some pr" for a pr
    using assms(3) map_of_SomeD [OF that] by (auto simp: list_all_iff)
  then have "list_all (position_floored s (lb_lots b)) (vl_positions v)"
    using value_book_positions [OF assms(1)] position_exact_floored [OF _ assms(2)] by (auto simp: list_all_iff)
  then show ?thesis
    using value_book_positions [OF assms(1)] value_book_Inr [OF assms(1)] by (auto simp: sum_list_subtractf)
qed

theorem valuation_exact_witness:
  "\<exists>v. value_book (const_libs (CHR 0x07)) demo_book demo_snapshot (hash_of_byte (CHR 0x03)) = Inr v \<and>
     amt_atoms (vl_total_unrealized v) = 518 - 140"
proof -
  obtain v where v: "value_book (const_libs (CHR 0x07)) demo_book demo_snapshot (hash_of_byte (CHR 0x03)) = Inr v"
    "vl_total_fair_value v = amount_new ''USD'' 518"
    by (rule demo_value_book)
  have "list_all (\<lambda>l. 0 \<le> lot_atoms l) (lb_lots demo_book)" "list_all (\<lambda>(asset, pr). 0 \<le> pr_minor_per_unit pr) (ps_prices demo_snapshot)"
    by (simp_all add: demo_book_def demo_lot_def demo_snapshot_def)
  from valuation_exact [OF v(1) this] v show ?thesis by (auto simp: demo_book_def demo_lot_def)
qed

text \<open>Prices are not checked for their sign, and the division truncates towards zero: seven atoms at a minor unit
  under zero per two atoms are worth -3, where the documented floor is -4.\<close>

theorem negative_price_truncates:
  "\<exists>q. value_positions c [(a, \<lparr>pr_minor_per_unit = -1, pr_atoms_per_unit = 2\<rparr>)] (amount_new c 0) (amount_new c 0)
      [(a, 7, amount_new c 0)] = Inr ([q], amount_new c (-3), amount_new c (-3)) \<and> amt_atoms (pos_fair_value q) = -3 \<and>
    (7 * -1) div 2 = (-4 :: int)"
  by (simp add: i128_ops i128_opt_def in_i128_def checked_add_def checked_sub_def signed_divide_int_def Let_def)

text \<open>A valuation is a pure function of its key: two successful valuations with the same key, of books
  whose lots carry distinct ids, are the same report, unless SHA-256 collides on the envelopes hashed
  for the books and the snapshots.\<close>

theorem valuation_key_determines_report:
  assumes "libs_ok L" and "value_book L b s p = Inr v" and "value_book L b' s' p' = Inr v'"
    and "vl_key v = vl_key v'" and "lb_distinct b" and "snapshot_wf s" and "snapshot_wf s'"
    and "no_collision L {preimage L (lots_env L b), preimage L (lots_env L b')}"
    and "no_collision L {preimage L (snapshot_env L s), preimage L (snapshot_env L s')}"
  shows "v = v'"
proof -
  note k = value_book_key [OF assms(2)] and k' = value_book_key [OF assms(3)]
  have hash: "lots_hash L b = lots_hash L b'" using k k' assms(4) by simp
  have "mset (lb_lots b) = mset (lb_lots b')"
    using lots_hash_determines [OF assms(1) _ _ assms(8)] k k' assms(4) by simp
  then have lots: "open_lots b = open_lots b'" by (rule open_lots_unique [OF _ assms(5)])
  have "s = s'"
    by (rule snapshot_identity.hash_determines [OF assms(1,6,7) _ _ assms(9), of "vk_price_snapshot_hash (vl_key v)"])
      (use k k' assms(4) in \<open>simp_all add: snapshot_hash_def\<close>)
  moreover have "p = p'" using k k' assms(4) by simp
  ultimately show ?thesis using value_book_cong [OF hash lots, of s p] assms(2,3) by simp
qed

theorem valuation_key_determines_report_witness:
  "\<exists>v. value_book (const_libs (CHR 0x07)) demo_book demo_snapshot (hash_of_byte (CHR 0x03)) = Inr v \<and>
     (\<exists>v'. value_book (const_libs (CHR 0x07)) (demo_book\<lparr>lb_lots := rev (lb_lots demo_book)\<rparr>) demo_snapshot
       (hash_of_byte (CHR 0x03)) = Inr v' \<and> v' = v)"
proof -
  let ?L = "const_libs (CHR 0x07)" and ?b = "demo_book\<lparr>lb_lots := rev (lb_lots demo_book)\<rparr>"
  obtain v where v: "value_book ?L demo_book demo_snapshot (hash_of_byte (CHR 0x03)) = Inr v"
    using demo_value_book by metis
  have dist: "lb_distinct demo_book" by (simp add: lb_distinct_def demo_book_def demo_lot_def)
  have env: "lots_env ?L demo_book = lots_env ?L ?b" by (simp add: lots_env_def demo_book_def demo_lot_def)
  have "open_lots demo_book = open_lots ?b" by (rule open_lots_unique [OF _ dist]) simp
  then have v': "value_book ?L ?b demo_snapshot (hash_of_byte (CHR 0x03)) = Inr v"
    using v env value_book_cong [of ?L demo_book ?b] by (simp add: lots_hash_def)
  have "v = v"
    by (rule valuation_key_determines_report [OF _ v v' refl dist])
      (simp_all add: const_libs_def snapshot_wf_def demo_snapshot_def no_collision_def env [unfolded const_libs_def])
  with v v' show ?thesis by blast
qed

end
