(* ===== verification/Disclosure.thy ===== *)
theory Disclosure
  imports Fairvalue
begin

section \<open>Disclosure packs (treasury-disclosure)\<close>

text \<open>
  Models \<open>crates/treasury-disclosure/src/\<close> \<open>rollforward.rs\<close> and \<open>pack.rs\<close>: roll-forward rows and their
  constructor, the pack with its tie-out against a valuation, its manifest and its hash. The lemmas
  say when a row exists, what an empty tie-out means, what the manifest contains, and connect a tied
  pack with the valuation of the lot book: the closing balances add up to its total fair value.
\<close>

record roll_row =
  rr_asset :: asset_id
  rr_opening :: asset_amount
  rr_additions :: asset_amount
  rr_disposals :: asset_amount
  rr_remeasurement :: asset_amount
  rr_closing :: asset_amount
  rr_evidence :: "content_hash list"

datatype roll_error = RollMixedCurrencies | NegativeComponent | DoesNotRoll int int | RollOverflow

definition row_new :: "asset_id \<Rightarrow> asset_amount \<Rightarrow> asset_amount \<Rightarrow> asset_amount \<Rightarrow> asset_amount \<Rightarrow> asset_amount
  \<Rightarrow> content_hash list \<Rightarrow> (roll_error, roll_row) result" where
  "row_new asset opening additions disposals remeasurement closing evidence =
     (let currency = amt_asset opening in
      if \<not> (amt_asset additions = currency \<and> amt_asset disposals = currency \<and>
             amt_asset remeasurement = currency \<and> amt_asset closing = currency)
      then Inl RollMixedCurrencies
      else if amt_atoms opening < 0 \<or> amt_atoms additions < 0 \<or> amt_atoms disposals < 0 \<or> amt_atoms closing < 0
      then Inl NegativeComponent
      else and_then (ok_or RollOverflow
             (Option.bind (Option.bind (i128_add (amt_atoms opening) (amt_atoms additions))
               (\<lambda>v. i128_sub v (amt_atoms disposals))) (\<lambda>v. i128_add v (amt_atoms remeasurement))))
        (\<lambda>rolled.
          if rolled \<noteq> amt_atoms closing then Inl (DoesNotRoll rolled (amt_atoms closing))
          else Inr \<lparr>rr_asset = asset, rr_opening = opening, rr_additions = additions, rr_disposals = disposals,
                    rr_remeasurement = remeasurement, rr_closing = closing, rr_evidence = sort_dedup evidence\<rparr>))"

datatype tie_break =
    MissingRow asset_id
  | ExtraRow asset_id
  | ClosingMismatch asset_id int int

record disclosure_pack =
  dp_tenant :: tenant_id
  dp_period :: string
  dp_checkpoint :: content_hash
  dp_valuation :: content_hash
  dp_policies :: "(string \<times> content_hash) list"
  dp_anchor_receipt :: "content_hash option"
  dp_rows :: "roll_row list"

text \<open>The loop over the positions, then the loop over the ordered set of row assets.\<close>

fun position_breaks :: "roll_row list \<Rightarrow> position list \<Rightarrow> tie_break list" where
  "position_breaks rows [] = []"
| "position_breaks rows (p # ps) =
     (case List.find (\<lambda>r. rr_asset r = pos_asset p) rows of
        None \<Rightarrow> MissingRow (pos_asset p) # position_breaks rows ps
      | Some row \<Rightarrow>
          (if rr_closing row \<noteq> pos_fair_value p
           then [ClosingMismatch (pos_asset p) (amt_atoms (rr_closing row)) (amt_atoms (pos_fair_value p))] else [])
          @ position_breaks rows ps)"

definition tie_to_valuation :: "disclosure_pack \<Rightarrow> valuation \<Rightarrow> tie_break list" where
  "tie_to_valuation pack v =
     position_breaks (dp_rows pack) (vl_positions v) @
     map ExtraRow (filter (\<lambda>asset. asset \<notin> set (map pos_asset (vl_positions v)))
       (sort_dedup (map rr_asset (dp_rows pack))))"

definition manifest :: "disclosure_pack \<Rightarrow> content_hash list" where
  "manifest pack = sort_dedup (
     [dp_checkpoint pack, dp_valuation pack] @ map snd (dp_policies pack) @
     (case dp_anchor_receipt pack of None \<Rightarrow> [] | Some receipt \<Rightarrow> [receipt]) @
     concat (map rr_evidence (dp_rows pack)))"

definition pack_schema :: string where
  "pack_schema = ''treasury-disclosure/pack/v1''"

definition row_json :: "libs \<Rightarrow> roll_row \<Rightarrow> json" where
  "row_json L r = json_object [
     (''asset'', JString (rr_asset r)),
     (''opening'', amount_json (rr_opening r)),
     (''additions'', amount_json (rr_additions r)),
     (''disposals'', amount_json (rr_disposals r)),
     (''remeasurement'', amount_json (rr_remeasurement r)),
     (''closing'', amount_json (rr_closing r)),
     (''evidence'', JArray (map (hash_json L) (rr_evidence r)))]"

definition pack_policy_json :: "libs \<Rightarrow> string \<times> content_hash \<Rightarrow> json" where
  "pack_policy_json L p = json_object [(''kind'', JString (fst p)), (''policy'', JString (to_hex L (snd p)))]"

definition pack_env :: "libs \<Rightarrow> disclosure_pack \<Rightarrow> json" where
  "pack_env L d = json_object [
     (''schema'', JString pack_schema),
     (''tenant'', JString (dp_tenant d)),
     (''period'', JString (dp_period d)),
     (''checkpoint'', JString (to_hex L (dp_checkpoint d))),
     (''valuation'', JString (to_hex L (dp_valuation d))),
     (''policies'', JArray (map (pack_policy_json L) (dp_policies d))),
     (''anchor_receipt'', json_option (hash_json L) (dp_anchor_receipt d)),
     (''rows'', JArray (map (row_json L) (dp_rows d)))]"

datatype pack_error = PackCanon canon_error

definition pack_hash :: "libs \<Rightarrow> disclosure_pack \<Rightarrow> (pack_error, content_hash) result" where
  "pack_hash L d = map_err PackCanon (content_id L (pack_env L d))"

subsection \<open>Rows\<close>

lemma row_new_Inr:
  "row_new asset opening additions disposals remeasurement closing evidence = Inr r \<longleftrightarrow>
     amt_asset additions = amt_asset opening \<and> amt_asset disposals = amt_asset opening \<and>
     amt_asset remeasurement = amt_asset opening \<and> amt_asset closing = amt_asset opening \<and>
     0 \<le> amt_atoms opening \<and> 0 \<le> amt_atoms additions \<and> 0 \<le> amt_atoms disposals \<and> 0 \<le> amt_atoms closing \<and>
     amt_atoms opening + amt_atoms additions - amt_atoms disposals + amt_atoms remeasurement = amt_atoms closing \<and>
     in_i128 (amt_atoms opening + amt_atoms additions) \<and>
     in_i128 (amt_atoms opening + amt_atoms additions - amt_atoms disposals) \<and> in_i128 (amt_atoms closing) \<and>
     r = \<lparr>rr_asset = asset, rr_opening = opening, rr_additions = additions, rr_disposals = disposals,
          rr_remeasurement = remeasurement, rr_closing = closing, rr_evidence = sort_dedup evidence\<rparr>"
  by (auto simp: row_new_def Let_def result_simps i128_ops bind_eq_Some_conv not_less split: if_splits)

subsection \<open>Identity\<close>

lemma row_json_ok [simp]: "json_ok (Suc (Suc k)) (row_json L r)"
  by (simp add: row_json_def)

lemma row_json_inject [simp]: "libs_ok L \<Longrightarrow> row_json L r = row_json L s \<longleftrightarrow> r = s"
  by (cases r; cases s) (simp add: row_json_def json_object_inject hash_list_inject)

lemma pack_policy_json_simps [simp]:
  "json_ok (Suc k) (pack_policy_json L p)" "libs_ok L \<Longrightarrow> pack_policy_json L p = pack_policy_json L q \<longleftrightarrow> p = q"
  by (simp_all add: pack_policy_json_def json_object_inject prod_eq_iff)

interpretation pack_identity: artifact pack_env "\<lambda>d. True"
proof
  fix x y :: disclosure_pack and L
  show "json_ok max_depth (pack_env L x)" by (rule json_ok_shallow) (simp add: pack_env_def)
  assume ok: "libs_ok L" and eq: "pack_env L x = pack_env L y"
  have "map (row_json L) xs = map (row_json L) ys \<longleftrightarrow> xs = ys" for xs ys
    by (rule inj_map_eq_map) (simp add: inj_def ok)
  moreover have "map (pack_policy_json L) xs = map (pack_policy_json L) ys \<longleftrightarrow> xs = ys" for xs ys
    by (rule inj_map_eq_map) (simp add: inj_def ok)
  ultimately show "x = y"
    using ok eq by (cases x; cases y) (simp add: pack_env_def json_object_inject)
qed

subsection \<open>Tie-out\<close>

lemma position_breaks_Nil:
  "position_breaks rows ps = [] \<longleftrightarrow>
     (\<forall>p \<in> set ps. \<exists>row. List.find (\<lambda>r. rr_asset r = pos_asset p) rows = Some row \<and> rr_closing row = pos_fair_value p)"
  by (induction ps) (auto split: option.splits)

lemma tie_Nil:
  "tie_to_valuation d v = [] \<longleftrightarrow>
     (\<forall>p \<in> set (vl_positions v). \<exists>row. List.find (\<lambda>r. rr_asset r = pos_asset p) (dp_rows d) = Some row \<and>
        rr_closing row = pos_fair_value p) \<and>
     rr_asset ` set (dp_rows d) \<subseteq> pos_asset ` set (vl_positions v)"
  by (auto simp: tie_to_valuation_def position_breaks_Nil filter_empty_conv)

lemma find_unique:
  assumes "distinct (map f xs)" and "x \<in> set xs"
  shows "List.find (\<lambda>y. f y = f x) xs = Some x"
  using assms by (induction xs) (auto simp: image_iff)

lemma find_SomeD: "List.find P xs = Some x \<Longrightarrow> x \<in> set xs \<and> P x"
  by (auto simp: find_Some_iff)

lemma tied_row:
  assumes "tie_to_valuation d v = []" and "q \<in> set (vl_positions v)"
  shows "\<exists>r \<in> set (dp_rows d). rr_asset r = pos_asset q \<and> rr_closing r = pos_fair_value q"
proof -
  obtain r where "List.find (\<lambda>r. rr_asset r = pos_asset q) (dp_rows d) = Some r" "rr_closing r = pos_fair_value q"
    using assms unfolding tie_Nil by blast
  then show ?thesis using find_SomeD by fast
qed

lemma tied_assets:
  assumes "tie_to_valuation d v = []"
  shows "rr_asset ` set (dp_rows d) = pos_asset ` set (vl_positions v)"
proof
  show "rr_asset ` set (dp_rows d) \<subseteq> pos_asset ` set (vl_positions v)" using assms unfolding tie_Nil by blast
  show "pos_asset ` set (vl_positions v) \<subseteq> rr_asset ` set (dp_rows d)" using tied_row [OF assms] by force
qed

lemma tied_closings:
  assumes "tie_to_valuation d v = []" and "distinct (map rr_asset (dp_rows d))"
    and "distinct (map pos_asset (vl_positions v))"
  shows "(\<Sum>r \<leftarrow> dp_rows d. amt_atoms (rr_closing r)) = (\<Sum>p \<leftarrow> vl_positions v. amt_atoms (pos_fair_value p))"
proof -
  define g where "g p = (THE r. r \<in> set (dp_rows d) \<and> rr_asset r = pos_asset p)" for p :: position
  have row: "g p \<in> set (dp_rows d) \<and> rr_asset (g p) = pos_asset p \<and> rr_closing (g p) = pos_fair_value p"
    if p: "p \<in> set (vl_positions v)" for p
  proof -
    obtain r where r: "r \<in> set (dp_rows d)" "rr_asset r = pos_asset p" "rr_closing r = pos_fair_value p"
      using tied_row [OF assms(1) p] by blast
    then have "g p = r" unfolding g_def using assms(2) by (auto simp: distinct_map inj_on_def intro!: the_equality)
    with r show ?thesis by simp
  qed
  have "bij_betw g (set (vl_positions v)) (set (dp_rows d))"
  proof (rule bij_betwI')
    fix p q assume "p \<in> set (vl_positions v)" "q \<in> set (vl_positions v)"
    then show "g p = g q \<longleftrightarrow> p = q" using row assms(3) by (metis distinct_map inj_onD)
  next
    fix r assume r: "r \<in> set (dp_rows d)"
    then obtain p where p: "p \<in> set (vl_positions v)" "pos_asset p = rr_asset r"
      using tied_assets [OF assms(1)] by (metis imageE imageI)
    then have "g p = r" using row r assms(2) by (metis distinct_map inj_onD)
    then show "\<exists>p \<in> set (vl_positions v). r = g p" using p(1) by blast
  qed (use row in blast)
  then have "(\<Sum>r \<in> set (dp_rows d). amt_atoms (rr_closing r)) = (\<Sum>p \<in> set (vl_positions v). amt_atoms (rr_closing (g p)))"
    by (rule sum.reindex_bij_betw [symmetric])
  also have "\<dots> = (\<Sum>p \<in> set (vl_positions v). amt_atoms (pos_fair_value p))" using row by simp
  finally show ?thesis
    using assms(2,3) by (simp add: sum_list_distinct_conv_sum_set distinct_map)
qed

subsection \<open>Properties\<close>

text \<open>A roll-forward that does not roll cannot be constructed: a row exists exactly when all five
  amounts share one currency, the balances and the gross activity are not negative, opening plus
  additions less disposals plus remeasurement is the closing balance, and no intermediate sum leaves
  128 bits; its evidence is the given evidence, sorted and without repetition.\<close>

theorem roll_forward_rolls:
  "row_new asset opening additions disposals remeasurement closing evidence = Inr r \<longleftrightarrow>
     list_all (\<lambda>x. amt_asset x = amt_asset opening) [additions, disposals, remeasurement, closing] \<and>
     list_all (\<lambda>x. 0 \<le> amt_atoms x) [opening, additions, disposals, closing] \<and>
     amt_atoms opening + amt_atoms additions - amt_atoms disposals + amt_atoms remeasurement = amt_atoms closing \<and>
     list_all in_i128 [amt_atoms opening + amt_atoms additions,
       amt_atoms opening + amt_atoms additions - amt_atoms disposals, amt_atoms closing] \<and>
     r = \<lparr>rr_asset = asset, rr_opening = opening, rr_additions = additions, rr_disposals = disposals,
          rr_remeasurement = remeasurement, rr_closing = closing, rr_evidence = sort_dedup evidence\<rparr>"
  unfolding row_new_Inr by auto

text \<open>C28: A tied pack discloses the valuation: when a pack ties without a break to the valuation of a lot book, its
  assets are exactly the assets held, and for every position the first row of its asset closes at the position's fair
  value. If the pack has one row per asset, which neither its construction nor the tie-out checks, the closing balances add
  up to the total fair value; a second row of an asset is not looked at.\<close>

theorem tied_pack_discloses_book:
  assumes "value_book L b s p = Inr v" and "tie_to_valuation d v = []"
  shows "rr_asset ` set (dp_rows d) = lot_asset ` set (lb_lots b) \<and>
    list_all (\<lambda>q. \<exists>r. List.find (\<lambda>r. rr_asset r = pos_asset q) (dp_rows d) = Some r \<and> rr_closing r = pos_fair_value q)
      (vl_positions v) \<and>
    (distinct (map rr_asset (dp_rows d)) \<longrightarrow>
      (\<Sum>r \<leftarrow> dp_rows d. amt_atoms (rr_closing r)) = amt_atoms (vl_total_fair_value v))"
proof -
  note pos = value_book_positions [OF assms(1)]
  have dist: "distinct (map pos_asset (vl_positions v))" using pos by (simp add: strict_sorted_iff)
  have "rr_asset ` set (dp_rows d) = pos_asset ` set (vl_positions v)"
    by (rule tied_assets [OF assms(2)])
  moreover have "amt_atoms (vl_total_fair_value v) = (\<Sum>q \<leftarrow> vl_positions v. amt_atoms (pos_fair_value q))"
    using value_book_Inr [OF assms(1)] by auto
  moreover have "pos_asset ` set (vl_positions v) = lot_asset ` set (lb_lots b)" using pos by simp
  ultimately show ?thesis
    using tied_closings [OF assms(2) _ dist] assms(2) [unfolded tie_Nil] unfolding list_all_iff by simp
qed

definition demo_pack :: "roll_row list \<Rightarrow> disclosure_pack" where
  "demo_pack rows = \<lparr>dp_tenant = ''acme'', dp_period = ''2026Q2'', dp_checkpoint = hash_of_byte (CHR 0x01),
     dp_valuation = hash_of_byte (CHR 0x02), dp_policies = [(''relief'', hash_of_byte (CHR 0x03))],
     dp_anchor_receipt = None, dp_rows = rows\<rparr>"

definition demo_row :: "int \<Rightarrow> roll_row" where
  "demo_row closing = \<lparr>rr_asset = ''BTC'', rr_opening = amount_new ''USD'' 0, rr_additions = amount_new ''USD'' 140,
     rr_disposals = amount_new ''USD'' 0, rr_remeasurement = amount_new ''USD'' (closing - 140),
     rr_closing = amount_new ''USD'' closing, rr_evidence = []\<rparr>"

lemma demo_valuation:
  obtains v where "value_book (const_libs (CHR 0x07)) demo_book demo_snapshot (hash_of_byte (CHR 0x03)) = Inr v"
    "map pos_asset (vl_positions v) = [''BTC'']" "map pos_fair_value (vl_positions v) = [amount_new ''USD'' 518]"
    "vl_total_fair_value v = amount_new ''USD'' 518"
proof -
  obtain v where v: "value_book (const_libs (CHR 0x07)) demo_book demo_snapshot (hash_of_byte (CHR 0x03)) = Inr v"
    "vl_total_fair_value v = amount_new ''USD'' 518"
    by (rule demo_value_book)
  have "map pos_asset (vl_positions v) = [''BTC'']"
  proof (rule sorted_distinct_set_unique)
    show "set (map pos_asset (vl_positions v)) = set [''BTC'']"
      using value_book_positions [OF v(1)] by (simp add: demo_book_def demo_lot_def)
  qed (use value_book_positions [OF v(1)] in \<open>simp_all add: strict_sorted_iff\<close>)
  note assets = this
  then obtain q where q: "vl_positions v = [q]" by (cases "vl_positions v") auto
  then have "amt_atoms (pos_fair_value q) = 518" "amt_asset (pos_fair_value q) = ''USD''"
    using value_book_Inr [OF v(1)] value_book_positions [OF v(1)] v(2)
    by (auto simp: position_exact_def demo_snapshot_def)
  then show thesis using that [OF v(1) assets _ v(2)] q by (simp add: amount_eq_iff)
qed

theorem tied_pack_discloses_book_witness:
  "\<exists>v. value_book (const_libs (CHR 0x07)) demo_book demo_snapshot (hash_of_byte (CHR 0x03)) = Inr v \<and>
     (\<Sum>r \<leftarrow> dp_rows (demo_pack [demo_row 518]). amt_atoms (rr_closing r)) = amt_atoms (vl_total_fair_value v)"
proof -
  obtain v where v: "value_book (const_libs (CHR 0x07)) demo_book demo_snapshot (hash_of_byte (CHR 0x03)) = Inr v"
    "map pos_asset (vl_positions v) = [''BTC'']" "map pos_fair_value (vl_positions v) = [amount_new ''USD'' 518]"
    by (rule demo_valuation)
  then obtain q where "vl_positions v = [q]" by (cases "vl_positions v") auto
  with v have "tie_to_valuation (demo_pack [demo_row 518]) v = []"
    by (auto simp: tie_Nil demo_pack_def demo_row_def)
  from tied_pack_discloses_book [OF v(1) this] v(1) show ?thesis by (auto simp: demo_pack_def)
qed

text \<open>The manifest is the whole closure: sorted, without repetition, it holds exactly the checkpoint, the
  valuation, the policies in force, the anchor receipt if there is one and the evidence of every row.\<close>

theorem manifest_complete:
  "sorted (manifest d) \<and> distinct (manifest d) \<and>
   set (manifest d) = {dp_checkpoint d, dp_valuation d} \<union> snd ` set (dp_policies d) \<union>
     set_option (dp_anchor_receipt d) \<union> (\<Union>r \<in> set (dp_rows d). set (rr_evidence r))"
  by (auto simp: manifest_def split: option.splits)

text \<open>The tie-out never looks at a second row of an asset: a pack that ties still ties after a further
  row for an asset it already has is appended, whatever that row's closing balance, so its closing
  balances no longer need to add up to the valuation.\<close>

theorem tie_ignores_duplicate_rows:
  "tie_to_valuation (demo_pack [demo_row 518, demo_row 999]) \<lparr>vl_key = k, vl_key_hash = h, vl_as_of = t,
     vl_positions = [\<lparr>pos_asset = ''BTC'', pos_atoms = 17, pos_cost_basis = amount_new ''USD'' 140,
       pos_fair_value = amount_new ''USD'' 518, pos_unrealized = amount_new ''USD'' 378\<rparr>],
     vl_total_fair_value = amount_new ''USD'' 518, vl_total_unrealized = amount_new ''USD'' 378\<rparr> = [] \<and>
   (\<Sum>r \<leftarrow> dp_rows (demo_pack [demo_row 518, demo_row 999]). amt_atoms (rr_closing r)) = 518 + 999"
  by (simp add: tie_Nil) (simp add: demo_pack_def demo_row_def)

end
