(* ===== verification/Quarter_Close.thy ===== *)
theory Quarter_Close
  imports Disclosure Gaap
begin

section \<open>From the lot book to the disclosure pack\<close>

text \<open>
  A harness of this development, not a translation: the last stages of the close the end-to-end test runs once
  with literal amounts (\<open>crates/treasury-e2e/tests/golden_close.rs\<close>; \<open>Golden_Close\<close> translates that run), run here over
  every position of an arbitrary book, with the arguments the test writes out taken from the valuation: value it, mark every position from its basis to its fair value, roll the basis and the mark
  forward to the closing balance, and tie the pack to the valuation. The theorem puts the contracts of the lot book,
  the valuation, the entry builders and the pack together: the close of a well-formed book at prices that
  are not negative cannot fail, and the general ledger, the valuation and the pack show one number.
\<close>

definition close_row :: "asset_id \<Rightarrow> (asset_id \<Rightarrow> content_hash list) \<Rightarrow> position \<Rightarrow> (roll_error, roll_row) result" where
  "close_row currency evidence q =
     row_new (pos_asset q) (amount_new currency 0) (pos_cost_basis q) (amount_new currency 0) (pos_unrealized q)
       (pos_fair_value q) (evidence (pos_asset q))"

fun close_marks :: "content_hash \<Rightarrow> position list \<Rightarrow> (entry_error, journal_entry list) result" where
  "close_marks policy [] = Inr []"
| "close_marks policy (q # qs) =
     and_then (remeasurement_entry (pos_cost_basis q) (pos_fair_value q) policy) (\<lambda>e.
     and_then (close_marks policy qs) (\<lambda>es. Inr ((case e of None \<Rightarrow> [] | Some x \<Rightarrow> [x]) @ es)))"

definition close_pack :: "tenant_id \<Rightarrow> string \<Rightarrow> content_hash \<Rightarrow> content_hash \<Rightarrow> (string \<times> content_hash) list
  \<Rightarrow> content_hash option \<Rightarrow> roll_row list \<Rightarrow> disclosure_pack" where
  "close_pack tenant period checkpoint valuation policies receipt rows =
     \<lparr>dp_tenant = tenant, dp_period = period, dp_checkpoint = checkpoint, dp_valuation = valuation,
      dp_policies = policies, dp_anchor_receipt = receipt, dp_rows = rows\<rparr>"

text \<open>What the stages need of a position: one currency, nothing negative, and the mark is the difference.\<close>

definition closable :: "asset_id \<Rightarrow> position \<Rightarrow> bool" where
  "closable currency q \<longleftrightarrow>
     pos_cost_basis q = amount_new currency (amt_atoms (pos_cost_basis q)) \<and>
     pos_fair_value q = amount_new currency (amt_atoms (pos_fair_value q)) \<and>
     pos_unrealized q = amount_new currency (amt_atoms (pos_fair_value q) - amt_atoms (pos_cost_basis q)) \<and>
     0 \<le> amt_atoms (pos_cost_basis q) \<and> in_i128 (amt_atoms (pos_cost_basis q)) \<and>
     0 \<le> amt_atoms (pos_fair_value q) \<and> in_i128 (amt_atoms (pos_fair_value q))"

lemma closable_row:
  assumes "closable currency q"
  shows "\<exists>r. close_row currency evidence q = Inr r \<and> rr_asset r = pos_asset q \<and> rr_closing r = pos_fair_value q"
  using assms unfolding close_row_def row_new_Inr closable_def
  by (auto simp: amount_eq_iff)

lemma remeasurement_total:
  assumes "amt_asset c = amt_asset f" and "in_i128 (amt_atoms f - amt_atoms c)" and "in_i128 \<bar>amt_atoms f - amt_atoms c\<bar>"
  shows "\<exists>e. remeasurement_entry c f p = Inr e"
  using assms
  by (auto simp: remeasurement_entry_def result_simps i128_ops i128_opt_def je_new_Inr Let_def)

lemma closable_mark:
  assumes "closable currency q"
  shows "\<exists>e. remeasurement_entry (pos_cost_basis q) (pos_fair_value q) policy = Inr e \<and>
    (\<forall>t. line_balance t (case e of None \<Rightarrow> [] | Some x \<Rightarrow> [x]) =
      (if t = CryptoAssets then amt_atoms (pos_unrealized q)
       else if t = UnrealizedCryptoGainLoss then - amt_atoms (pos_unrealized q) else 0))"
proof -
  let ?d = "amt_atoms (pos_fair_value q) - amt_atoms (pos_cost_basis q)"
  have cur: "amt_asset (pos_cost_basis q) = amt_asset (pos_fair_value q)" and un: "amt_atoms (pos_unrealized q) = ?d"
    using assms unfolding closable_def by (auto simp: amount_eq_iff)
  have range: "in_i128 ?d" "in_i128 \<bar>?d\<bar>"
    using assms by (auto simp: closable_def in_i128_def)
  then obtain e where e: "remeasurement_entry (pos_cost_basis q) (pos_fair_value q) policy = Inr e"
    using remeasurement_total [OF cur] by blast
  show ?thesis
  proof (cases e)
    case None
    then have "?d = 0" using e by (simp add: remeasurement_None)
    then show ?thesis using e None un by (simp add: line_balance_def)
  next
    case (Some x)
    then show ?thesis using e remeasurement_Some [of _ _ policy x] un by (auto simp: line_balance_def)
  qed
qed

lemma closable_marks:
  assumes "list_all (closable currency) qs"
  shows "\<exists>es. close_marks policy qs = Inr es \<and>
    (\<forall>t. line_balance t es =
      (if t = CryptoAssets then (\<Sum>q \<leftarrow> qs. amt_atoms (pos_unrealized q))
       else if t = UnrealizedCryptoGainLoss then - (\<Sum>q \<leftarrow> qs. amt_atoms (pos_unrealized q)) else 0))"
  using assms
proof (induction qs)
  case (Cons q qs)
  obtain e where e: "remeasurement_entry (pos_cost_basis q) (pos_fair_value q) policy = Inr e"
    "\<forall>t. line_balance t (case e of None \<Rightarrow> [] | Some x \<Rightarrow> [x]) =
      (if t = CryptoAssets then amt_atoms (pos_unrealized q)
       else if t = UnrealizedCryptoGainLoss then - amt_atoms (pos_unrealized q) else 0)"
    using closable_mark [of currency q policy] Cons.prems by auto
  with Cons show ?case by auto
qed (simp add: line_balance_def)

lemma sdiv_quotient_nonneg: "0 \<le> a \<Longrightarrow> 0 < b \<Longrightarrow> 0 \<le> a sdiv b" for a b :: int
  by (simp add: sdiv_nonneg pos_imp_zdiv_nonneg_iff)

lemma asset_sums_nonneg:
  "\<forall>l \<in> set ls. lot_ok l \<Longrightarrow> 0 \<le> asset_atoms a ls \<and> 0 \<le> asset_basis a ls"
  by (induction ls) (auto simp: asset_atoms_def asset_basis_def lot_ok_def lot_money_ok_def)

lemma valued_closable:
  assumes "value_book L b s p = Inr v" and "lb_ok b"
    and "list_all (\<lambda>(a, pr). 0 \<le> pr_minor_per_unit pr) (ps_prices s)"
  shows "list_all (closable (ps_currency s)) (vl_positions v)"
proof -
  have lots: "\<forall>l \<in> set (lb_lots b). lot_ok l" using assms(2) by (simp add: lb_ok_def)
  have "list_all (\<lambda>l. in_i128 (amt_atoms (lot_cost_basis l))) (lb_lots b)"
    using lots by (auto simp: list_all_iff lot_ok_def lot_money_ok_def)
  note range = value_book_range [OF assms(1) this]
  have "closable (ps_currency s) q" if q: "q \<in> set (vl_positions v)" for q
  proof -
    obtain pr where pr: "bt_get (ps_prices s) (pos_asset q) = Some pr" "0 < pr_atoms_per_unit pr"
      "pos_atoms q = asset_atoms (pos_asset q) (lb_lots b)"
      "pos_cost_basis q = amount_new (ps_currency s) (asset_basis (pos_asset q) (lb_lots b))"
      "pos_fair_value q = amount_new (ps_currency s) ((pos_atoms q * pr_minor_per_unit pr) sdiv pr_atoms_per_unit pr)"
      "pos_unrealized q = amount_new (ps_currency s) (amt_atoms (pos_fair_value q) - amt_atoms (pos_cost_basis q))"
      using value_book_positions [OF assms(1)] q by (auto simp: list_all_iff position_exact_def)
    have "0 \<le> pr_minor_per_unit pr" using assms(3) map_of_SomeD [OF pr(1)] by (auto simp: list_all_iff)
    then have "0 \<le> amt_atoms (pos_fair_value q)"
      using asset_sums_nonneg [OF lots, of "pos_asset q"] pr(2,3,5) by (simp add: sdiv_quotient_nonneg)
    moreover have "0 \<le> amt_atoms (pos_cost_basis q)" using asset_sums_nonneg [OF lots] pr(4) by simp
    moreover have "in_i128 (amt_atoms (pos_cost_basis q))" "in_i128 (amt_atoms (pos_fair_value q))"
      using range q by (simp_all add: list_all_iff)
    ultimately show ?thesis using pr(4-6) by (simp add: closable_def amount_eq_iff)
  qed
  then show ?thesis by (simp add: list_all_iff)
qed

lemma closable_rows:
  assumes "list_all (closable currency) qs"
  shows "\<exists>rows. map (close_row currency evidence) qs = map Inr rows \<and>
    map rr_asset rows = map pos_asset qs \<and> map rr_closing rows = map pos_fair_value qs"
  using assms
proof (induction qs)
  case (Cons q qs)
  then obtain rows where "map (close_row currency evidence) qs = map Inr rows"
    "map rr_asset rows = map pos_asset qs" "map rr_closing rows = map pos_fair_value qs" by auto
  moreover obtain r where "close_row currency evidence q = Inr r" "rr_asset r = pos_asset q" "rr_closing r = pos_fair_value q"
    using closable_row Cons.prems by fastforce
  ultimately show ?case by (intro exI [of _ "r # rows"]) simp
qed simp

lemma aligned_rows_tie:
  assumes "map rr_asset (dp_rows d) = map pos_asset (vl_positions v)"
    and "map rr_closing (dp_rows d) = map pos_fair_value (vl_positions v)"
    and "distinct (map pos_asset (vl_positions v))"
  shows "tie_to_valuation d v = []"
proof -
  have "\<exists>row. List.find (\<lambda>r. rr_asset r = pos_asset q) (dp_rows d) = Some row \<and> rr_closing row = pos_fair_value q"
    if q: "q \<in> set (vl_positions v)" for q
  proof -
    obtain i where i: "i < length (vl_positions v)" "q = vl_positions v ! i" using q by (auto simp: in_set_conv_nth)
    have len: "length (dp_rows d) = length (vl_positions v)" using arg_cong [OF assms(1), of length] by simp
    let ?r = "dp_rows d ! i"
    have r: "rr_asset ?r = pos_asset q" "rr_closing ?r = pos_fair_value q"
      using assms(1,2) i len by (metis nth_map)+
    moreover have "List.find (\<lambda>r. rr_asset r = rr_asset ?r) (dp_rows d) = Some ?r"
      using find_unique [of rr_asset "dp_rows d" ?r] assms(1,3) i len by simp
    ultimately show ?thesis by auto
  qed
  moreover have "rr_asset ` set (dp_rows d) = pos_asset ` set (vl_positions v)"
    using arg_cong [OF assms(1), of set] by simp
  ultimately show ?thesis by (simp add: tie_Nil)
qed

text \<open>C14: The close of a book ties: once a well-formed lot book has been valued at prices that are not
  negative, every mark and every roll-forward row can be built; the pack of these rows ties to the valuation;
  and the general ledger's crypto line, carried at the lots' basis and marked, the closing balances of the pack
  and the total fair value are one number, with the marks' income the total unrealized gain.\<close>

theorem close_of_book_ties:
  assumes "value_book L b s p = Inr v" and "lb_ok b"
    and "list_all (\<lambda>(a, pr). 0 \<le> pr_minor_per_unit pr) (ps_prices s)"
  shows "\<exists>rows es. map (close_row (ps_currency s) evidence) (vl_positions v) = map Inr rows \<and>
    close_marks p (vl_positions v) = Inr es \<and>
    tie_to_valuation (close_pack tenant period checkpoint valuation policies receipt rows) v = [] \<and>
    (\<Sum>l \<leftarrow> lb_lots b. amt_atoms (lot_cost_basis l)) + line_balance CryptoAssets es = amt_atoms (vl_total_fair_value v) \<and>
    (\<Sum>r \<leftarrow> rows. amt_atoms (rr_closing r)) = amt_atoms (vl_total_fair_value v) \<and>
    net_income es = amt_atoms (vl_total_unrealized v)"
proof -
  note pos = value_book_positions [OF assms(1)] and clos = valued_closable [OF assms]
  obtain es where es: "close_marks p (vl_positions v) = Inr es"
    "\<forall>t. line_balance t es =
      (if t = CryptoAssets then (\<Sum>q \<leftarrow> vl_positions v. amt_atoms (pos_unrealized q))
       else if t = UnrealizedCryptoGainLoss then - (\<Sum>q \<leftarrow> vl_positions v. amt_atoms (pos_unrealized q)) else 0)"
    using closable_marks [OF clos] by blast
  obtain rows where rows: "map (close_row (ps_currency s) evidence) (vl_positions v) = map Inr rows"
    "map rr_asset rows = map pos_asset (vl_positions v)" "map rr_closing rows = map pos_fair_value (vl_positions v)"
    using closable_rows [OF clos] by blast
  have un: "map (\<lambda>q. amt_atoms (pos_unrealized q)) (vl_positions v) =
      map (\<lambda>q. amt_atoms (pos_fair_value q) - amt_atoms (pos_cost_basis q)) (vl_positions v)"
    using clos by (auto simp: list_all_iff closable_def amount_eq_iff)
  have totals: "amt_atoms (vl_total_fair_value v) = (\<Sum>q \<leftarrow> vl_positions v. amt_atoms (pos_fair_value q))"
    "amt_atoms (vl_total_unrealized v) = (\<Sum>q \<leftarrow> vl_positions v. amt_atoms (pos_unrealized q))"
    unfolding un using value_book_Inr [OF assms(1)] by auto
  have "tie_to_valuation (close_pack tenant period checkpoint valuation policies receipt rows) v = []"
    using rows pos by (intro aligned_rows_tie) (simp_all add: close_pack_def strict_sorted_iff)
  moreover have "(\<Sum>r \<leftarrow> rows. amt_atoms (rr_closing r)) = amt_atoms (vl_total_fair_value v)"
    using arg_cong [OF rows(3), of "\<lambda>xs. sum_list (map amt_atoms xs)"] totals by (simp add: comp_def)
  moreover have "(\<Sum>l \<leftarrow> lb_lots b. amt_atoms (lot_cost_basis l)) + line_balance CryptoAssets es = amt_atoms (vl_total_fair_value v)"
    using es(2) [unfolded un] pos totals by (simp add: sum_list_subtractf)
  moreover have "net_income es = amt_atoms (vl_total_unrealized v)"
    using es(2) totals by (simp add: net_income_lines)
  ultimately show ?thesis using es(1) rows(1) by blast
qed

theorem close_of_book_ties_witness:
  "\<exists>v es. value_book (const_libs (CHR 0x07)) demo_book demo_snapshot (hash_of_byte (CHR 0x03)) = Inr v \<and>
     close_marks (hash_of_byte (CHR 0x03)) (vl_positions v) = Inr es \<and> 140 + line_balance CryptoAssets es = 518"
proof -
  obtain v where v: "value_book (const_libs (CHR 0x07)) demo_book demo_snapshot (hash_of_byte (CHR 0x03)) = Inr v"
    "vl_total_fair_value v = amount_new ''USD'' 518"
    by (rule demo_valuation)
  have "list_all (\<lambda>(a, pr). 0 \<le> pr_minor_per_unit pr) (ps_prices demo_snapshot)" by (simp add: demo_snapshot_def)
  from close_of_book_ties [OF v(1) demo_book_ok(1) this] obtain es where
    "close_marks (hash_of_byte (CHR 0x03)) (vl_positions v) = Inr es"
    "(\<Sum>l \<leftarrow> lb_lots demo_book. amt_atoms (lot_cost_basis l)) + line_balance CryptoAssets es = amt_atoms (vl_total_fair_value v)"
    by blast
  then show ?thesis using v by (intro exI [of _ v] exI [of _ es]) (simp add: demo_book_def demo_lot_def)
qed

end
