(* ===== verification/Matcher.thy ===== *)
theory Matcher
  imports Event
begin

section \<open>The tiered matcher (treasury-reconcile)\<close>

text \<open>
  Models \<open>crates/treasury-reconcile/src/\<close> \<open>leg.rs\<close>, \<open>config.rs\<close>, \<open>decision.rs\<close> and \<open>matcher.rs\<close>: transfer
  legs, the content-addressed configuration, match proposals, and the matcher itself, whose two
  passes over the sorted outflows thread the set of legs already used. The lemmas show, for legs with
  distinct ids, that no leg is netted twice, what every proposal of each tier establishes, that no
  pair that would match is left over between two unmatched legs, and that the outcome does not depend
  on the order in which the legs arrive.
\<close>

type_synonym leg_id = content_hash

datatype direction = Outflow | Inflow

record transfer_leg =
  tl_leg_id :: leg_id
  tl_tenant :: tenant_id
  tl_venue :: venue_id
  tl_direction :: direction
  tl_amount :: asset_amount
  tl_fee :: "asset_amount option"
  tl_tx_hash :: "string option"
  tl_address :: "string option"
  tl_event_time :: timestamp_ns

record matcher_config =
  mc_time_window_ns :: int
  mc_materiality_atoms :: "(asset_id, int) btreemap"

definition config_schema :: string where
  "config_schema = ''treasury-reconcile/matcher-config/v1''"

definition config_env :: "libs \<Rightarrow> matcher_config \<Rightarrow> json" where
  "config_env L c = json_object [
     (''schema'', JString config_schema),
     (''time_window_ns'', JString (show_int (mc_time_window_ns c))),
     (''materiality_atoms'', JObject (map (\<lambda>(asset, atoms). (asset, JString (show_int atoms))) (mc_materiality_atoms c)))]"

definition config_hash :: "libs \<Rightarrow> matcher_config \<Rightarrow> (canon_error, content_hash) result" where
  "config_hash L c = content_id L (config_env L c)"

definition threshold_for :: "matcher_config \<Rightarrow> asset_id \<Rightarrow> int" where
  "threshold_for c asset = (case bt_get (mc_materiality_atoms c) asset of None \<Rightarrow> 0 | Some t \<Rightarrow> t)"

datatype tier = Deterministic | StrongCorroboration | Probabilistic

datatype disposition = AutoNet | Queue

record match_proposal =
  mp_out_leg :: leg_id
  mp_in_leg :: leg_id
  mp_tier :: tier
  mp_disposition :: disposition
  mp_config_hash :: content_hash

definition decision_schema :: string where
  "decision_schema = ''treasury-reconcile/decision/v1''"

fun tier_json :: "tier \<Rightarrow> json" where
  "tier_json Deterministic = JString ''deterministic''"
| "tier_json StrongCorroboration = JString ''strong_corroboration''"
| "tier_json Probabilistic = JString ''probabilistic''"

fun disposition_json :: "disposition \<Rightarrow> json" where
  "disposition_json AutoNet = JString ''auto_net''"
| "disposition_json Queue = JString ''queue''"

definition decision_env :: "libs \<Rightarrow> match_proposal \<Rightarrow> json" where
  "decision_env L p = json_object [
     (''schema'', JString decision_schema),
     (''out_leg'', JString (to_hex L (mp_out_leg p))),
     (''in_leg'', JString (to_hex L (mp_in_leg p))),
     (''tier'', tier_json (mp_tier p)),
     (''disposition'', disposition_json (mp_disposition p)),
     (''config'', JString (to_hex L (mp_config_hash p)))]"

definition decision_hash :: "libs \<Rightarrow> match_proposal \<Rightarrow> (canon_error, content_hash) result" where
  "decision_hash L p = content_id L (decision_env L p)"

subsection \<open>The matcher\<close>

record close_blockers =
  cb_unmatched_legs :: "leg_id list"
  cb_queued_decisions :: "content_hash list"

definition close_permitted :: "close_blockers \<Rightarrow> bool" where
  "close_permitted b \<longleftrightarrow> cb_unmatched_legs b = [] \<and> cb_queued_decisions b = []"

record match_outcome =
  mo_proposals :: "match_proposal list"
  mo_blockers :: close_blockers

datatype match_error = MixedTenants | MatchCanon canon_error

definition expected_inflow :: "transfer_leg \<Rightarrow> asset_amount option" where
  "expected_inflow out =
     (case tl_fee out of
        None \<Rightarrow> Some (tl_amount out)
      | Some fee \<Rightarrow> (case checked_sub (tl_amount out) fee of Inl _ \<Rightarrow> None | Inr a \<Rightarrow> Some a))"

definition amount_and_window_match :: "transfer_leg \<Rightarrow> transfer_leg \<Rightarrow> asset_amount option \<Rightarrow> matcher_config \<Rightarrow> bool" where
  "amount_and_window_match out inflow expected_in config =
     (case expected_in of
        None \<Rightarrow> False
      | Some expected \<Rightarrow>
          if tl_amount inflow \<noteq> expected then False
          else (case i64_sub (tl_event_time inflow) (tl_event_time out) of
                  None \<Rightarrow> False
                | Some delta \<Rightarrow> 0 \<le> delta \<and> delta \<le> mc_time_window_ns config))"

definition addresses_corroborate :: "transfer_leg \<Rightarrow> transfer_leg \<Rightarrow> bool" where
  "addresses_corroborate out inflow =
     (case (tl_address out, tl_address inflow) of (Some a, Some b) \<Rightarrow> a = b | _ \<Rightarrow> False)"

text \<open>Tier 0: for each outflow with a transaction hash, the first free inflow of the same hash and asset.\<close>

definition tier0_partner :: "leg_id set \<Rightarrow> transfer_leg list \<Rightarrow> transfer_leg \<Rightarrow> transfer_leg option" where
  "tier0_partner used inflows out =
     (case tl_tx_hash out of
        None \<Rightarrow> None
      | Some out_tx \<Rightarrow> List.find (\<lambda>inflow. tl_tx_hash inflow = Some out_tx \<and> tl_leg_id inflow \<notin> used \<and>
          amt_asset (tl_amount inflow) = amt_asset (tl_amount out)) inflows)"

fun tier0 :: "content_hash \<Rightarrow> transfer_leg list \<Rightarrow> leg_id set \<Rightarrow> transfer_leg list \<Rightarrow> match_proposal list \<times> leg_id set" where
  "tier0 ch inflows used [] = ([], used)"
| "tier0 ch inflows used (out # outs) =
     (case tier0_partner used inflows out of
        None \<Rightarrow> tier0 ch inflows used outs
      | Some inflow \<Rightarrow>
          (let (ps, u) = tier0 ch inflows (used \<union> {tl_leg_id out, tl_leg_id inflow}) outs in
           (\<lparr>mp_out_leg = tl_leg_id out, mp_in_leg = tl_leg_id inflow, mp_tier = Deterministic,
             mp_disposition = AutoNet, mp_config_hash = ch\<rparr> # ps, u)))"

text \<open>Tiers 1 and 2: the free inflows that match in amount and window, and among them the corroborated.\<close>

definition candidates_for :: "matcher_config \<Rightarrow> transfer_leg list \<Rightarrow> leg_id set \<Rightarrow> transfer_leg \<Rightarrow> transfer_leg list" where
  "candidates_for config inflows used out =
     filter (\<lambda>inflow. tl_leg_id inflow \<notin> used \<and> amount_and_window_match out inflow (expected_inflow out) config) inflows"

definition tier1_disposition :: "matcher_config \<Rightarrow> transfer_leg \<Rightarrow> disposition" where
  "tier1_disposition config out =
     (if amt_atoms (tl_amount out) < threshold_for config (amt_asset (tl_amount out)) then AutoNet else Queue)"

fun tier12 :: "matcher_config \<Rightarrow> content_hash \<Rightarrow> transfer_leg list \<Rightarrow> leg_id set \<Rightarrow> transfer_leg list
  \<Rightarrow> match_proposal list \<times> leg_id set" where
  "tier12 config ch inflows used [] = ([], used)"
| "tier12 config ch inflows used (out # outs) =
     (if tl_leg_id out \<in> used then tier12 config ch inflows used outs
      else
        let candidates = candidates_for config inflows used out;
            corroborated = filter (addresses_corroborate out) candidates in
        case corroborated of
          [inflow] \<Rightarrow>
            (let (ps, u) = tier12 config ch inflows (used \<union> {tl_leg_id out, tl_leg_id inflow}) outs in
             (\<lparr>mp_out_leg = tl_leg_id out, mp_in_leg = tl_leg_id inflow, mp_tier = StrongCorroboration,
               mp_disposition = tier1_disposition config out, mp_config_hash = ch\<rparr> # ps, u))
        | _ \<Rightarrow>
            (let (ps, u) = tier12 config ch inflows used outs in
             (map (\<lambda>inflow. \<lparr>mp_out_leg = tl_leg_id out, mp_in_leg = tl_leg_id inflow, mp_tier = Probabilistic,
                mp_disposition = Queue, mp_config_hash = ch\<rparr>) candidates @ ps, u)))"

fun queued_hashes :: "libs \<Rightarrow> match_proposal list \<Rightarrow> (canon_error, content_hash list) result" where
  "queued_hashes L [] = Inr []"
| "queued_hashes L (p # ps) =
     (if mp_disposition p = Queue
      then and_then (decision_hash L p) (\<lambda>h. and_then (queued_hashes L ps) (\<lambda>hs. Inr (h # hs)))
      else queued_hashes L ps)"

definition proposed_legs :: "match_proposal list \<Rightarrow> leg_id set" where
  "proposed_legs ps = set (map mp_out_leg ps) \<union> set (map mp_in_leg ps)"

definition leg_key :: "transfer_leg \<Rightarrow> timestamp_ns \<times> leg_id" where
  "leg_key l = (tl_event_time l, tl_leg_id l)"

definition side_legs :: "direction \<Rightarrow> transfer_leg list \<Rightarrow> transfer_leg list" where
  "side_legs d legs = sort_key leg_key (filter (\<lambda>l. tl_direction l = d) legs)"

definition match_legs :: "libs \<Rightarrow> transfer_leg list \<Rightarrow> matcher_config \<Rightarrow> (match_error, match_outcome) result" where
  "match_legs L legs config =
     (if (case legs of [] \<Rightarrow> False | first # _ \<Rightarrow> list_ex (\<lambda>l. tl_tenant l \<noteq> tl_tenant first) legs)
      then Inl MixedTenants
      else and_then (map_err MatchCanon (config_hash L config)) (\<lambda>ch.
        let outflows = side_legs Outflow legs;
            inflows = side_legs Inflow legs;
            (ps0, used0) = tier0 ch inflows {} outflows;
            (ps12, used12) = tier12 config ch inflows used0 outflows;
            proposals = ps0 @ ps12 in
        and_then (map_err MatchCanon (queued_hashes L proposals)) (\<lambda>queued. Inr
          \<lparr>mo_proposals = proposals,
           mo_blockers = \<lparr>cb_unmatched_legs =
               sort (map tl_leg_id (filter (\<lambda>l. tl_leg_id l \<notin> proposed_legs proposals) legs)),
             cb_queued_decisions = queued\<rparr>\<rparr>)))"

subsection \<open>Identity\<close>

definition config_wf :: "matcher_config \<Rightarrow> bool" where
  "config_wf c \<longleftrightarrow> bt_wf (mc_materiality_atoms c)"

lemma materiality_json_ok:
  assumes "bt_wf m"
  shows "json_ok (Suc k) (JObject (map (\<lambda>(asset, atoms). (asset, JString (show_int atoms))) m))"
proof -
  have "sorted_wrt (<) (map (fst \<circ> (\<lambda>(asset, atoms). (asset, JString (show_int atoms)))) m)"
    using assms by (induction m) fastforce+
  then show ?thesis by (auto simp: json_ok_def)
qed

lemma materiality_json_inject:
  "map (\<lambda>(asset, atoms). (asset, JString (show_int atoms))) xs = map (\<lambda>(asset, atoms). (asset, JString (show_int atoms))) ys \<longleftrightarrow> xs = ys"
  by (subst inj_map_eq_map) (auto simp: inj_def show_int_inject)

interpretation config_identity: artifact config_env config_wf
proof
  fix x y :: matcher_config and L
  show "config_wf x \<Longrightarrow> json_ok max_depth (config_env L x)"
    by (rule json_ok_shallow) (simp add: config_env_def config_wf_def materiality_json_ok)
  show "libs_ok L \<Longrightarrow> config_env L x = config_env L y \<Longrightarrow> x = y"
    by (cases x; cases y) (simp add: config_env_def json_object_inject materiality_json_inject show_int_inject)
qed

lemma tier_json_simps [simp]: "json_ok k (tier_json t)" "tier_json t = tier_json u \<longleftrightarrow> t = u"
  by (cases t; simp) (cases t; cases u; simp)

lemma disposition_json_simps [simp]: "json_ok k (disposition_json t)" "disposition_json t = disposition_json u \<longleftrightarrow> t = u"
  by (cases t; simp) (cases t; cases u; simp)

interpretation decision_identity: artifact decision_env "\<lambda>p. True"
proof
  fix x y :: match_proposal and L
  show "json_ok max_depth (decision_env L x)" by (rule json_ok_shallow) (simp add: decision_env_def)
  show "libs_ok L \<Longrightarrow> decision_env L x = decision_env L y \<Longrightarrow> x = y"
    by (cases x; cases y) (simp add: decision_env_def json_object_inject)
qed

lemma queued_hashes_Inr:
  assumes "libs_ok L"
  shows "queued_hashes L ps = Inr (map (\<lambda>p. sha256 L (preimage L (decision_env L p))) (filter (\<lambda>p. mp_disposition p = Queue) ps))"
  by (induction ps) (simp_all add: decision_hash_def decision_identity.hash_total [OF assms])

subsection \<open>What the passes do\<close>

text \<open>The proposals that consume their legs, and the legs of a list of proposals.\<close>

definition consuming :: "match_proposal list \<Rightarrow> match_proposal list" where
  "consuming ps = filter (\<lambda>p. mp_tier p \<noteq> Probabilistic) ps"

definition legs_of :: "match_proposal list \<Rightarrow> leg_id list" where
  "legs_of ps = concat (map (\<lambda>p. [mp_out_leg p, mp_in_leg p]) ps)"

lemma legs_of_simps [simp]:
  "legs_of [] = []" "legs_of (p # ps) = mp_out_leg p # mp_in_leg p # legs_of ps" "legs_of (ps @ qs) = legs_of ps @ legs_of qs"
  by (simp_all add: legs_of_def)

lemma consuming_simps [simp]:
  "consuming [] = []" "consuming (p # ps) = (if mp_tier p = Probabilistic then consuming ps else p # consuming ps)"
  "consuming (ps @ qs) = consuming ps @ consuming qs"
  by (simp_all add: consuming_def)

lemma set_legs_of: "set (legs_of ps) = proposed_legs ps"
  by (induction ps) (auto simp: proposed_legs_def)

lemma proposed_legs_append: "proposed_legs (ps @ qs) = proposed_legs ps \<union> proposed_legs qs"
  by (auto simp: proposed_legs_def)

lemma proposed_legs_consuming: "proposed_legs (consuming ps) \<subseteq> proposed_legs ps"
  by (auto simp: proposed_legs_def consuming_def)

definition tx_match :: "transfer_leg \<Rightarrow> transfer_leg \<Rightarrow> bool" where
  "tx_match out inflow \<longleftrightarrow> tl_tx_hash out \<noteq> None \<and> tl_tx_hash inflow = tl_tx_hash out \<and>
     amt_asset (tl_amount inflow) = amt_asset (tl_amount out)"

definition pairs :: "match_proposal \<Rightarrow> transfer_leg \<Rightarrow> transfer_leg \<Rightarrow> bool" where
  "pairs p out inflow \<longleftrightarrow> mp_out_leg p = tl_leg_id out \<and> mp_in_leg p = tl_leg_id inflow"

text \<open>What a proposal of each tier establishes of the pair it names.\<close>

definition proposal_ok :: "matcher_config \<Rightarrow> match_proposal \<Rightarrow> transfer_leg \<Rightarrow> transfer_leg \<Rightarrow> bool" where
  "proposal_ok config p out inflow \<longleftrightarrow> pairs p out inflow \<and>
     (case mp_tier p of
        Deterministic \<Rightarrow> tx_match out inflow \<and> mp_disposition p = AutoNet
      | StrongCorroboration \<Rightarrow> amount_and_window_match out inflow (expected_inflow out) config \<and>
          addresses_corroborate out inflow \<and> mp_disposition p = tier1_disposition config out
      | Probabilistic \<Rightarrow> amount_and_window_match out inflow (expected_inflow out) config \<and> mp_disposition p = Queue)"

lemma tier0_partner_Some:
  assumes "tier0_partner used inflows out = Some inflow"
  shows "inflow \<in> set inflows \<and> tl_leg_id inflow \<notin> used \<and> tx_match out inflow"
  using assms by (auto simp: tier0_partner_def tx_match_def find_Some_iff split: option.splits)

lemma tier0_partner_None:
  assumes "tier0_partner used inflows out = None" and "inflow \<in> set inflows" and "tl_leg_id inflow \<notin> used"
  shows "\<not> tx_match out inflow"
  using assms by (auto simp: tier0_partner_def tx_match_def find_None_iff split: option.splits)

lemma tier0_sound:
  assumes "tier0 ch inflows used outs = (ps, u)" and "distinct (map tl_leg_id outs)"
    and "tl_leg_id ` set outs \<inter> (tl_leg_id ` set inflows \<union> used) = {}"
  shows "u = used \<union> set (legs_of ps) \<and> distinct (legs_of ps) \<and> set (legs_of ps) \<inter> used = {} \<and> consuming ps = ps \<and>
    (\<forall>p \<in> set ps. \<exists>out \<in> set outs. \<exists>inflow \<in> set inflows. proposal_ok config p out inflow)"
  using assms
proof (induction outs arbitrary: used ps u)
  case (Cons out outs)
  show ?case
  proof (cases "tier0_partner used inflows out")
    case None
    then show ?thesis using Cons.IH [of used ps u] Cons.prems by auto
  next
    case (Some inflow)
    let ?used = "used \<union> {tl_leg_id out, tl_leg_id inflow}"
    let ?p = "\<lparr>mp_out_leg = tl_leg_id out, mp_in_leg = tl_leg_id inflow, mp_tier = Deterministic,
      mp_disposition = AutoNet, mp_config_hash = ch\<rparr>"
    note partner = tier0_partner_Some [OF Some]
    obtain qs where qs: "tier0 ch inflows ?used outs = (qs, u)" and ps: "ps = ?p # qs"
      using Cons.prems(1) Some by (auto simp: Let_def split: prod.splits)
    have disj: "tl_leg_id ` set outs \<inter> (tl_leg_id ` set inflows \<union> ?used) = {}"
      using Cons.prems(2,3) partner by auto
    have "tl_leg_id out \<noteq> tl_leg_id inflow" "tl_leg_id out \<notin> used" using Cons.prems(3) partner by auto
    moreover have "proposal_ok config ?p out inflow" using partner by (simp add: proposal_ok_def pairs_def)
    moreover have "distinct (map tl_leg_id outs)" using Cons.prems(2) by simp
    ultimately show ?thesis using Cons.IH [OF qs _ disj] partner ps by auto
  qed
qed simp

lemma tier0_used_mono: "tier0 ch inflows used outs = (ps, u) \<Longrightarrow> used \<subseteq> u"
  by (induction outs arbitrary: used ps u) (fastforce simp: Let_def split: option.splits prod.splits)+

lemma tier0_complete:
  assumes "tier0 ch inflows used outs = (ps, u)" and "out \<in> set outs" and "inflow \<in> set inflows"
    and "tl_leg_id inflow \<notin> u" and "tx_match out inflow"
  shows "tl_leg_id out \<in> u"
  using assms(1,2,4)
proof (induction outs arbitrary: used ps u)
  case (Cons o' outs)
  have free: "tl_leg_id inflow \<notin> used" using tier0_used_mono [OF Cons.prems(1)] Cons.prems(3) by blast
  show ?case
  proof (cases "tier0_partner used inflows o'")
    case None
    then have "o' \<noteq> out" using tier0_partner_None [OF None assms(3) free] assms(5) by blast
    then show ?thesis using Cons None by auto
  next
    case (Some i)
    obtain qs where qs: "tier0 ch inflows (used \<union> {tl_leg_id o', tl_leg_id i}) outs = (qs, u)"
      using Cons.prems(1) Some by (auto simp: Let_def split: prod.splits)
    then show ?thesis using Cons.IH [OF qs] Cons.prems(2,3) tier0_used_mono [OF qs] by auto
  qed
qed simp

lemma candidates_for_set:
  "inflow \<in> set (candidates_for config inflows used out) \<longleftrightarrow> inflow \<in> set inflows \<and> tl_leg_id inflow \<notin> used \<and>
     amount_and_window_match out inflow (expected_inflow out) config"
  by (auto simp: candidates_for_def)

text \<open>The two ways the second pass goes on from an outflow that is still free.\<close>

lemma tier12_cases:
  assumes "tier12 config ch inflows used (out # outs) = (ps, u)" and "tl_leg_id out \<notin> used"
  obtains (single) inflow qs where "inflow \<in> set (candidates_for config inflows used out)" "addresses_corroborate out inflow"
      "tier12 config ch inflows (used \<union> {tl_leg_id out, tl_leg_id inflow}) outs = (qs, u)"
      "ps = \<lparr>mp_out_leg = tl_leg_id out, mp_in_leg = tl_leg_id inflow, mp_tier = StrongCorroboration,
        mp_disposition = tier1_disposition config out, mp_config_hash = ch\<rparr> # qs"
  | (queued) qs where "tier12 config ch inflows used outs = (qs, u)"
      "ps = map (\<lambda>inflow. \<lparr>mp_out_leg = tl_leg_id out, mp_in_leg = tl_leg_id inflow, mp_tier = Probabilistic,
        mp_disposition = Queue, mp_config_hash = ch\<rparr>) (candidates_for config inflows used out) @ qs"
proof (cases "\<exists>inflow. filter (addresses_corroborate out) (candidates_for config inflows used out) = [inflow]")
  case True
  then obtain inflow where one: "filter (addresses_corroborate out) (candidates_for config inflows used out) = [inflow]" by blast
  have "inflow \<in> set (filter (addresses_corroborate out) (candidates_for config inflows used out))" unfolding one by simp
  then have "inflow \<in> set (candidates_for config inflows used out)" "addresses_corroborate out inflow"
    unfolding set_filter by blast+
  with one assms show thesis by (auto simp: Let_def split: prod.splits intro!: single)
next
  case False
  with assms show thesis
    by (cases "filter (addresses_corroborate out) (candidates_for config inflows used out)")
      (auto simp: Let_def split: prod.splits list.splits intro!: queued)
qed

lemma tier12_sound:
  assumes "tier12 config ch inflows used outs = (ps, u)" and "distinct (map tl_leg_id outs)"
    and "tl_leg_id ` set outs \<inter> tl_leg_id ` set inflows = {}"
  shows "u = used \<union> set (legs_of (consuming ps)) \<and> distinct (legs_of (consuming ps)) \<and>
    set (legs_of (consuming ps)) \<inter> used = {} \<and>
    (\<forall>p \<in> set ps. \<exists>out \<in> set outs. \<exists>inflow \<in> set inflows. proposal_ok config p out inflow)"
  using assms
proof (induction outs arbitrary: used ps u)
  case (Cons out outs)
  have rest: "distinct (map tl_leg_id outs)" "tl_leg_id ` set outs \<inter> tl_leg_id ` set inflows = {}"
    using Cons.prems(2,3) by auto
  show ?case
  proof (cases "tl_leg_id out \<in> used")
    case True
    then show ?thesis using Cons.IH [OF _ rest, of used ps u] Cons.prems(1) by auto
  next
    case False
    from Cons.prems(1) False show ?thesis
    proof (cases rule: tier12_cases)
      case (single inflow qs)
      have "tl_leg_id out \<noteq> tl_leg_id inflow" using Cons.prems(3) single(1) by (auto simp: candidates_for_set)
      moreover have "proposal_ok config (hd ps) out inflow"
        using single by (simp add: proposal_ok_def pairs_def candidates_for_set)
      ultimately show ?thesis
        using Cons.IH [OF single(3) rest] single(1) False by (auto simp: single(4) candidates_for_set)
    next
      case (queued qs)
      let ?ps = "map (\<lambda>inflow. \<lparr>mp_out_leg = tl_leg_id out, mp_in_leg = tl_leg_id inflow, mp_tier = Probabilistic,
        mp_disposition = Queue, mp_config_hash = ch\<rparr>) (candidates_for config inflows used out)"
      have none: "consuming ?ps = []" by (simp add: consuming_def filter_empty_conv)
      have "\<exists>inflow \<in> set inflows. proposal_ok config p out inflow" if "p \<in> set ?ps" for p
        using that by (auto simp: proposal_ok_def pairs_def candidates_for_set)
      then show ?thesis using Cons.IH [OF queued(1) rest] none by (auto simp: queued(2))
    qed
  qed
qed simp

lemma tier12_used_mono: "tier12 config ch inflows used outs = (ps, u) \<Longrightarrow> used \<subseteq> u"
proof (induction outs arbitrary: used ps u)
  case (Cons out outs)
  show ?case
  proof (cases "tl_leg_id out \<in> used")
    case False
    from Cons.prems False show ?thesis
      by (cases rule: tier12_cases) (auto dest: Cons.IH)
  qed (use Cons in auto)
qed simp

lemma tier12_complete:
  assumes "tier12 config ch inflows used outs = (ps, u)" and "out \<in> set outs" and "inflow \<in> set inflows"
    and "tl_leg_id inflow \<notin> u" and "amount_and_window_match out inflow (expected_inflow out) config"
  shows "tl_leg_id out \<in> u \<union> proposed_legs ps"
  using assms(1,2,4)
proof (induction outs arbitrary: used ps u)
  case (Cons o' outs)
  have free: "tl_leg_id inflow \<notin> used" using tier12_used_mono [OF Cons.prems(1)] Cons.prems(3) by blast
  show ?case
  proof (cases "tl_leg_id o' \<in> used")
    case True
    then show ?thesis
      using Cons.IH [of used ps u] Cons.prems tier12_used_mono [OF Cons.prems(1)] by auto
  next
    case False
    from Cons.prems(1) False show ?thesis
    proof (cases rule: tier12_cases)
      case (single i qs)
      then show ?thesis using Cons.IH [OF single(3)] Cons.prems(2,3) tier12_used_mono [OF single(3)]
        by (auto simp: proposed_legs_def)
    next
      case (queued qs)
      have "inflow \<in> set (candidates_for config inflows used out)" using assms(3,5) free by (simp add: candidates_for_set)
      then show ?thesis using Cons.IH [OF queued(1)] Cons.prems(2,3) by (auto simp: queued(2) proposed_legs_def)
    qed
  qed
qed simp

subsection \<open>The whole run\<close>

lemma set_side_legs [simp]: "set (side_legs d legs) = {l \<in> set legs. tl_direction l = d}"
  by (auto simp: side_legs_def)

lemma distinct_side_legs: "distinct (map tl_leg_id legs) \<Longrightarrow> distinct (map tl_leg_id (side_legs d legs))"
  by (simp add: side_legs_def distinct_map inj_on_def)

lemma sides_disjoint:
  "distinct (map tl_leg_id legs) \<Longrightarrow> tl_leg_id ` set (side_legs Outflow legs) \<inter> tl_leg_id ` set (side_legs Inflow legs) = {}"
proof -
  assume "distinct (map tl_leg_id legs)"
  then have inj: "inj_on tl_leg_id (set legs)" by (simp add: distinct_map)
  have "l \<noteq> m" if "l \<in> set (side_legs Outflow legs)" "m \<in> set (side_legs Inflow legs)" for l m
    using that by auto
  then show ?thesis using inj_onD [OF inj] by (fastforce simp del: set_side_legs simp: set_side_legs [THEN eqset_imp_iff])
qed

lemma match_legs_Inr:
  assumes "match_legs L legs config = Inr out"
  obtains ch ps0 u0 ps12 u12 where "tier0 ch (side_legs Inflow legs) {} (side_legs Outflow legs) = (ps0, u0)"
    "tier12 config ch (side_legs Inflow legs) u0 (side_legs Outflow legs) = (ps12, u12)"
    "mo_proposals out = ps0 @ ps12"
    "cb_unmatched_legs (mo_blockers out) =
       sort (map tl_leg_id (filter (\<lambda>l. tl_leg_id l \<notin> proposed_legs (ps0 @ ps12)) legs))"
    "queued_hashes L (ps0 @ ps12) = Inr (cb_queued_decisions (mo_blockers out))"
proof -
  from assms obtain ch where ch: "config_hash L config = Inr ch"
    by (auto simp: match_legs_def result_simps split: if_splits)
  obtain ps0 u0 where t0: "tier0 ch (side_legs Inflow legs) {} (side_legs Outflow legs) = (ps0, u0)"
    by (cases "tier0 ch (side_legs Inflow legs) {} (side_legs Outflow legs)")
  obtain ps12 u12 where t12: "tier12 config ch (side_legs Inflow legs) u0 (side_legs Outflow legs) = (ps12, u12)"
    by (cases "tier12 config ch (side_legs Inflow legs) u0 (side_legs Outflow legs)")
  from assms show thesis
    by (intro that [OF t0 t12]) (auto simp: match_legs_def ch t0 t12 result_simps Let_def split: if_splits)
qed

text \<open>An outcome in terms of the legs and proposals alone.\<close>

definition sound_outcome :: "matcher_config \<Rightarrow> transfer_leg list \<Rightarrow> match_proposal list \<Rightarrow> bool" where
  "sound_outcome config legs ps \<longleftrightarrow> distinct (legs_of (consuming ps)) \<and>
     list_all (\<lambda>p. \<exists>out \<in> set legs. \<exists>inflow \<in> set legs. tl_direction out = Outflow \<and> tl_direction inflow = Inflow \<and>
       proposal_ok config p out inflow) ps"

lemma match_legs_sound:
  assumes "match_legs L legs config = Inr outcome" and "distinct (map tl_leg_id legs)"
  shows "sound_outcome config legs (mo_proposals outcome)"
  using assms(1)
proof (cases rule: match_legs_Inr)
  case (1 ch ps0 u0 ps12 u12)
  note d = distinct_side_legs [OF assms(2)] sides_disjoint [OF assms(2)]
  have t0: "u0 = {} \<union> set (legs_of ps0) \<and> distinct (legs_of ps0) \<and> set (legs_of ps0) \<inter> {} = {} \<and> consuming ps0 = ps0 \<and>
    (\<forall>p \<in> set ps0. \<exists>out \<in> set (side_legs Outflow legs). \<exists>inflow \<in> set (side_legs Inflow legs). proposal_ok config p out inflow)"
    by (rule tier0_sound [OF 1(1) d(1)]) (use d(2) in simp)
  note t12 = tier12_sound [OF 1(2) d]
  have "distinct (legs_of (consuming (ps0 @ ps12)))" using t0 t12 by auto
  moreover have "\<exists>out \<in> set legs. \<exists>inflow \<in> set legs. tl_direction out = Outflow \<and> tl_direction inflow = Inflow \<and>
      proposal_ok config p out inflow" if "p \<in> set (ps0 @ ps12)" for p
    using that t0 t12 by fastforce
  ultimately show ?thesis using 1(3) by (simp add: sound_outcome_def list_all_iff)
qed

lemma match_legs_complete:
  assumes "match_legs L legs config = Inr outcome" and "distinct (map tl_leg_id legs)"
    and "out \<in> set legs" "tl_direction out = Outflow" "inflow \<in> set legs" "tl_direction inflow = Inflow"
    and "tl_leg_id out \<in> set (cb_unmatched_legs (mo_blockers outcome))"
    and "tl_leg_id inflow \<in> set (cb_unmatched_legs (mo_blockers outcome))"
  shows "\<not> tx_match out inflow \<and> \<not> amount_and_window_match out inflow (expected_inflow out) config"
  using assms(1)
proof (cases rule: match_legs_Inr)
  case (1 ch ps0 u0 ps12 u12)
  note d = distinct_side_legs [OF assms(2)] sides_disjoint [OF assms(2)]
  have mem: "out \<in> set (side_legs Outflow legs)" "inflow \<in> set (side_legs Inflow legs)" using assms(3-6) by simp_all
  have un: "tl_leg_id out \<notin> proposed_legs ps0 \<union> proposed_legs ps12" "tl_leg_id inflow \<notin> proposed_legs ps0 \<union> proposed_legs ps12"
    using assms(7,8) unfolding 1(4) proposed_legs_append [symmetric] by auto
  have u0: "u0 = proposed_legs ps0"
    using tier0_sound [OF 1(1) d(1)] d(2) by (simp add: set_legs_of)
  have u12: "u12 \<subseteq> proposed_legs ps0 \<union> proposed_legs ps12"
    using tier12_sound [OF 1(2) d] u0 proposed_legs_consuming [of ps12] by (auto simp: set_legs_of)
  have "\<not> tx_match out inflow" using tier0_complete [OF 1(1) mem] un u0 by blast
  moreover have "\<not> amount_and_window_match out inflow (expected_inflow out) config"
    using tier12_complete [OF 1(2) mem] un u12 by blast
  ultimately show ?thesis by blast
qed

lemma match_legs_permitted:
  assumes "libs_ok L" and "match_legs L legs config = Inr outcome"
  shows "close_permitted (mo_blockers outcome) \<longleftrightarrow>
    tl_leg_id ` set legs \<subseteq> proposed_legs (mo_proposals outcome) \<and>
    list_all (\<lambda>p. mp_disposition p = AutoNet) (mo_proposals outcome)"
  using assms(2)
proof (cases rule: match_legs_Inr)
  case (1 ch ps0 u0 ps12 u12)
  have auto: "d = AutoNet \<longleftrightarrow> d \<noteq> Queue" for d by (cases d) simp_all
  have "cb_unmatched_legs (mo_blockers outcome) = [] \<longleftrightarrow> tl_leg_id ` set legs \<subseteq> proposed_legs (ps0 @ ps12)"
    unfolding 1(4) by (metis (no_types, lifting) filter_empty_conv image_subset_iff map_is_Nil_conv mset_sort mset_zero_iff)
  moreover have "cb_queued_decisions (mo_blockers outcome) = [] \<longleftrightarrow> list_all (\<lambda>p. mp_disposition p = AutoNet) (ps0 @ ps12)"
    using 1(5) unfolding queued_hashes_Inr [OF assms(1)] auto by (auto simp: filter_empty_conv list_all_iff)
  ultimately show ?thesis by (simp add: close_permitted_def 1(3))
qed

text \<open>A leg list only matters up to order.\<close>

lemma side_legs_unique:
  assumes "mset legs = mset legs'" and "distinct (map tl_leg_id legs)"
  shows "side_legs d legs = side_legs d legs'"
proof -
  have "inj_on leg_key (set (filter (\<lambda>l. tl_direction l = d) legs))"
    using assms(2) by (auto simp: distinct_map inj_on_def leg_key_def)
  moreover have "mset (filter (\<lambda>l. tl_direction l = d) legs) = mset (sort_key leg_key (filter (\<lambda>l. tl_direction l = d) legs'))"
    using assms(1) by simp
  ultimately show ?thesis unfolding side_legs_def by (intro sort_key_inj_key_eq) simp_all
qed

lemma mixed_tenants_iff:
  "(case legs of [] \<Rightarrow> False | first # _ \<Rightarrow> list_ex (\<lambda>l. tl_tenant l \<noteq> tl_tenant first) legs) \<longleftrightarrow>
     (\<exists>l \<in> set legs. \<exists>m \<in> set legs. tl_tenant l \<noteq> tl_tenant m)"
  by (cases legs) (auto simp: list_ex_iff, metis+)

lemma match_legs_perm:
  assumes "mset legs = mset legs'" and "distinct (map tl_leg_id legs)"
  shows "match_legs L legs config = match_legs L legs' config"
proof -
  have "sort (map tl_leg_id (filter P legs)) = sort (map tl_leg_id (filter P legs'))" for P
    using assms(1) by (intro properties_for_sort) (simp_all add: mset_filter)
  moreover have "set legs = set legs'" using assms(1) by (rule mset_eq_setD)
  ultimately show ?thesis
    by (simp only: match_legs_def mixed_tenants_iff side_legs_unique [OF assms, of Outflow] side_legs_unique [OF assms, of Inflow])
qed

lemma match_legs_total:
  assumes "libs_ok L" and "config_wf config" and "\<And>l m. l \<in> set legs \<Longrightarrow> m \<in> set legs \<Longrightarrow> tl_tenant l = tl_tenant m"
  shows "\<exists>outcome. match_legs L legs config = Inr outcome"
proof -
  have ch: "config_hash L config = Inr (sha256 L (preimage L (config_env L config)))"
    unfolding config_hash_def by (rule config_identity.hash_total [OF assms(1,2)])
  have one: "\<not> (\<exists>l \<in> set legs. \<exists>m \<in> set legs. tl_tenant l \<noteq> tl_tenant m)" using assms(3) by blast
  show ?thesis
    by (simp add: match_legs_def mixed_tenants_iff one ch queued_hashes_Inr [OF assms(1)] Let_def split: prod.splits)
qed

lemma sound_autonet_consuming:
  assumes "sound_outcome config legs ps" and "list_all (\<lambda>p. mp_disposition p = AutoNet) ps"
  shows "consuming ps = ps"
proof -
  have "mp_tier p \<noteq> Probabilistic" if "p \<in> set ps" for p
    using assms that unfolding sound_outcome_def list_all_iff
    by (fastforce simp: proposal_ok_def split: tier.splits)
  then show ?thesis by (simp add: consuming_def)
qed

lemma sound_legs_known:
  assumes "sound_outcome config legs ps"
  shows "proposed_legs ps \<subseteq> tl_leg_id ` set legs"
  using assms unfolding sound_outcome_def list_all_iff proposed_legs_def
  by (fastforce simp: proposal_ok_def pairs_def)

text \<open>No pair is proposed twice.\<close>

definition pair_of :: "match_proposal \<Rightarrow> leg_id \<times> leg_id" where
  "pair_of p = (mp_out_leg p, mp_in_leg p)"

lemma distinct_legs_pairs: "distinct (legs_of ps) \<Longrightarrow> distinct (map pair_of ps)"
  by (induction ps) (force simp: set_legs_of proposed_legs_def pair_of_def)+

lemma tier12_pairs:
  assumes "tier12 config ch inflows used outs = (ps, u)" and "distinct (map tl_leg_id outs)"
    and "distinct (map tl_leg_id inflows)"
  shows "distinct (map pair_of ps) \<and> mp_out_leg ` set ps \<subseteq> tl_leg_id ` set outs - used"
  using assms(1,2)
proof (induction outs arbitrary: used ps u)
  case (Cons out outs)
  have rest: "distinct (map tl_leg_id outs)" and new: "tl_leg_id out \<notin> tl_leg_id ` set outs" using Cons.prems(2) by auto
  show ?case
  proof (cases "tl_leg_id out \<in> used")
    case True
    then show ?thesis using Cons.IH [OF _ rest, of used ps u] Cons.prems(1) by auto
  next
    case False
    from Cons.prems(1) False show ?thesis
    proof (cases rule: tier12_cases)
      case (single inflow qs)
      note ih = Cons.IH [OF single(3) rest]
      then have "tl_leg_id out \<notin> mp_out_leg ` set qs" using new by auto
      then have "(tl_leg_id out, tl_leg_id inflow) \<notin> pair_of ` set qs" by (auto simp: pair_of_def)
      then show ?thesis using ih False by (auto simp: single(4) pair_of_def [of "match_proposal_ext a b c d e f" for a b c d e f])
    next
      case (queued qs)
      have "distinct (map tl_leg_id (candidates_for config inflows used out))"
        using assms(3) by (simp add: candidates_for_def distinct_map inj_on_def)
      then have "distinct (map (\<lambda>inflow. (tl_leg_id out, tl_leg_id inflow)) (candidates_for config inflows used out))"
        by (simp add: distinct_map inj_on_def)
      moreover note ih = Cons.IH [OF queued(1) rest]
      moreover have "tl_leg_id out \<notin> mp_out_leg ` set qs" using ih new by auto
      ultimately show ?thesis using False by (auto simp: queued(2) pair_of_def comp_def)
    qed
  qed
qed simp

lemma match_legs_pairs_distinct:
  assumes "match_legs L legs config = Inr outcome" and "distinct (map tl_leg_id legs)"
  shows "distinct (map pair_of (mo_proposals outcome))"
  using assms(1)
proof (cases rule: match_legs_Inr)
  case (1 ch ps0 u0 ps12 u12)
  note d = distinct_side_legs [OF assms(2)] sides_disjoint [OF assms(2)]
  have t0: "u0 = proposed_legs ps0" "distinct (legs_of ps0)"
    using tier0_sound [OF 1(1) d(1)] d(2) by (simp_all add: set_legs_of)
  note t12 = tier12_pairs [OF 1(2) d(1) d(1)]
  have "mp_out_leg ` set ps0 \<inter> mp_out_leg ` set ps12 = {}" using t0(1) t12 by (auto simp: proposed_legs_def)
  then have "pair_of ` set ps0 \<inter> pair_of ` set ps12 = {}" by (auto simp: pair_of_def)
  then show ?thesis using distinct_legs_pairs [OF t0(2)] t12 by (simp add: 1(3))
qed

subsection \<open>Concrete legs\<close>

definition demo_leg :: "char \<Rightarrow> direction \<Rightarrow> int \<Rightarrow> int option \<Rightarrow> string option \<Rightarrow> timestamp_ns \<Rightarrow> transfer_leg" where
  "demo_leg n d atoms fee addr t = \<lparr>tl_leg_id = hash_of_byte n, tl_tenant = ''acme'', tl_venue = ''cold'', tl_direction = d,
     tl_amount = amount_new ''BTC'' atoms, tl_fee = map_option (amount_new ''BTC'') fee, tl_tx_hash = None,
     tl_address = addr, tl_event_time = t\<rparr>"

definition demo_config :: matcher_config where
  "demo_config = \<lparr>mc_time_window_ns = 60, mc_materiality_atoms = [(''BTC'', 1000)]\<rparr>"

definition demo_legs :: "transfer_leg list" where
  "demo_legs = [demo_leg (CHR 0x02) Inflow 95 None (Some ''addr'') 30, demo_leg (CHR 0x01) Outflow 100 (Some 5) (Some ''addr'') 10]"

lemma demo_legs_distinct [simp]: "distinct (map tl_leg_id demo_legs)"
  by (simp add: demo_legs_def demo_leg_def)

lemma demo_match:
  "\<exists>ch. match_legs (demo_libs h) demo_legs demo_config = Inr \<lparr>mo_proposals =
      [\<lparr>mp_out_leg = hash_of_byte (CHR 0x01), mp_in_leg = hash_of_byte (CHR 0x02), mp_tier = StrongCorroboration,
        mp_disposition = AutoNet, mp_config_hash = ch\<rparr>],
     mo_blockers = \<lparr>cb_unmatched_legs = [], cb_queued_decisions = []\<rparr>\<rparr>"
proof -
  have "config_wf demo_config" by (simp add: config_wf_def demo_config_def)
  then obtain ch where ch: "config_hash (demo_libs h) demo_config = Inr ch"
    using config_identity.hash_total [OF demo_libs_ok] by (simp add: config_hash_def)
  show ?thesis
    unfolding match_legs_def ch
    by (simp add: demo_legs_def demo_leg_def side_legs_def tier0_partner_def candidates_for_def
        amount_and_window_match_def expected_inflow_def checked_sub_def i128_ops i128_opt_def in_i128_def i64_sub_def in_i64_def
        addresses_corroborate_def tier1_disposition_def threshold_for_def demo_config_def proposed_legs_def Let_def)
qed

subsection \<open>Properties\<close>

text \<open>C4: The matcher never nets a leg twice and never nets without grounds: for legs with distinct ids, no
  leg occurs twice among the proposals that consume legs, and every proposal pairs an outflow with an
  inflow of the run: sharing a transaction hash and an asset at tier 0 (netted automatically); with the
  inflow equal to the outflow less its fee, within the window and with equal addresses at tier 1 (netted
  automatically only below the asset's materiality threshold); with amount and window alone at tier 2,
  always queued.\<close>

theorem matcher_nets_once:
  assumes "match_legs L legs config = Inr outcome" and "distinct (map tl_leg_id legs)"
  shows "distinct (legs_of (consuming (mo_proposals outcome))) \<and>
    list_all (\<lambda>p. \<exists>out \<in> set legs. \<exists>inflow \<in> set legs. tl_direction out = Outflow \<and> tl_direction inflow = Inflow \<and>
      proposal_ok config p out inflow) (mo_proposals outcome)"
  using match_legs_sound [OF assms] by (simp add: sound_outcome_def)

theorem matcher_nets_once_witness:
  "\<exists>outcome. match_legs (demo_libs (\<lambda>_. hash_of_byte (CHR 0x00))) demo_legs demo_config = Inr outcome \<and>
     distinct (legs_of (consuming (mo_proposals outcome)))"
proof -
  obtain outcome where run: "match_legs (demo_libs (\<lambda>_. hash_of_byte (CHR 0x00))) demo_legs demo_config = Inr outcome"
    using demo_match by blast
  from matcher_nets_once [OF run demo_legs_distinct] run show ?thesis by blast
qed

text \<open>Nothing that would match is left over: when an outflow and an inflow are both reported unmatched,
  they share no transaction hash in the same asset, and the inflow is not the outflow less its fee
  within the window.\<close>

theorem matcher_overlooks_nothing:
  assumes "match_legs L legs config = Inr outcome" and "distinct (map tl_leg_id legs)"
    and "out \<in> set legs" "tl_direction out = Outflow" "inflow \<in> set legs" "tl_direction inflow = Inflow"
    and "tl_leg_id out \<in> set (cb_unmatched_legs (mo_blockers outcome))"
    and "tl_leg_id inflow \<in> set (cb_unmatched_legs (mo_blockers outcome))"
  shows "\<not> tx_match out inflow \<and> \<not> amount_and_window_match out inflow (expected_inflow out) config"
  using assms by (rule match_legs_complete)

theorem matcher_overlooks_nothing_witness:
  "\<not> amount_and_window_match (demo_leg (CHR 0x01) Outflow 100 (Some 5) None 10) (demo_leg (CHR 0x02) Inflow 96 None None 30)
     (expected_inflow (demo_leg (CHR 0x01) Outflow 100 (Some 5) None 10)) demo_config"
proof -
  let ?out = "demo_leg (CHR 0x01) Outflow 100 (Some 5) None 10" and ?in = "demo_leg (CHR 0x02) Inflow 96 None None 30"
  let ?L = "demo_libs (\<lambda>_. hash_of_byte (CHR 0x00))"
  have "config_wf demo_config" by (simp add: config_wf_def demo_config_def)
  then obtain ch where ch: "config_hash ?L demo_config = Inr ch"
    using config_identity.hash_total [OF demo_libs_ok] by (simp add: config_hash_def)
  have run: "\<exists>ps. match_legs ?L [?out, ?in] demo_config = Inr \<lparr>mo_proposals = ps,
      mo_blockers = \<lparr>cb_unmatched_legs = sort [hash_of_byte (CHR 0x01), hash_of_byte (CHR 0x02)], cb_queued_decisions = []\<rparr>\<rparr>"
    unfolding match_legs_def ch
    by (simp add: demo_leg_def side_legs_def tier0_partner_def candidates_for_def amount_and_window_match_def
        expected_inflow_def checked_sub_def i128_ops i128_opt_def in_i128_def proposed_legs_def Let_def)
  then obtain ps where "match_legs ?L [?out, ?in] demo_config = Inr \<lparr>mo_proposals = ps,
      mo_blockers = \<lparr>cb_unmatched_legs = sort [hash_of_byte (CHR 0x01), hash_of_byte (CHR 0x02)], cb_queued_decisions = []\<rparr>\<rparr>" ..
  from matcher_overlooks_nothing [OF this, of ?out ?in] show ?thesis by (simp add: demo_leg_def)
qed

text \<open>C11: The close is permitted exactly when the run netted everything: reconciliation permits the close if
  and only if every proposal is an automatic net and the legs of the proposals are exactly the legs of
  the run, each occurring once.\<close>

theorem close_permitted_iff_all_netted:
  assumes "libs_ok L" and "match_legs L legs config = Inr outcome" and "distinct (map tl_leg_id legs)"
  shows "close_permitted (mo_blockers outcome) \<longleftrightarrow>
    list_all (\<lambda>p. mp_disposition p = AutoNet) (mo_proposals outcome) \<and>
    mset (legs_of (mo_proposals outcome)) = mset (map tl_leg_id legs)"
proof -
  let ?ps = "mo_proposals outcome"
  note sound = match_legs_sound [OF assms(2,3)]
  have "tl_leg_id ` set legs \<subseteq> proposed_legs ?ps \<longleftrightarrow> mset (legs_of ?ps) = mset (map tl_leg_id legs)"
    if "list_all (\<lambda>p. mp_disposition p = AutoNet) ?ps"
  proof -
    have "distinct (legs_of ?ps)"
      using sound sound_autonet_consuming [OF sound that] by (simp add: sound_outcome_def)
    moreover have "set (legs_of ?ps) \<subseteq> set (map tl_leg_id legs)" using sound_legs_known [OF sound] by (simp add: set_legs_of)
    ultimately show ?thesis using set_eq_iff_mset_eq_distinct [OF _ assms(3), of "legs_of ?ps"] by (auto simp: set_legs_of)
  qed
  then show ?thesis using match_legs_permitted [OF assms(1,2)] by blast
qed

theorem close_permitted_iff_all_netted_witness:
  "\<exists>outcome. match_legs (demo_libs (\<lambda>_. hash_of_byte (CHR 0x00))) demo_legs demo_config = Inr outcome \<and>
     mset (legs_of (mo_proposals outcome)) = mset (map tl_leg_id demo_legs)"
proof -
  obtain outcome where run: "match_legs (demo_libs (\<lambda>_. hash_of_byte (CHR 0x00))) demo_legs demo_config = Inr outcome"
    and permitted: "close_permitted (mo_blockers outcome)"
    using demo_match [of "\<lambda>_. hash_of_byte (CHR 0x00)"] by (auto simp: close_permitted_def)
  from close_permitted_iff_all_netted [OF demo_libs_ok run demo_legs_distinct] run permitted show ?thesis by blast
qed

text \<open>Replays agree: the outcome of a run does not depend on the order in which its legs are presented,
  and a run over the legs of one tenant always succeeds.\<close>

theorem matcher_replays:
  assumes "mset legs = mset legs'" and "distinct (map tl_leg_id legs)" and "libs_ok L" and "config_wf config"
    and "\<And>l m. l \<in> set legs \<Longrightarrow> m \<in> set legs \<Longrightarrow> tl_tenant l = tl_tenant m"
  shows "match_legs L legs config = match_legs L legs' config \<and> is_ok (match_legs L legs config)"
proof -
  obtain outcome where "match_legs L legs config = Inr outcome" using match_legs_total [OF assms(3-5)] by blast
  then show ?thesis using match_legs_perm [OF assms(1,2), of L config] by simp
qed

theorem matcher_replays_witness:
  "match_legs (demo_libs (\<lambda>_. hash_of_byte (CHR 0x00))) demo_legs demo_config =
   match_legs (demo_libs (\<lambda>_. hash_of_byte (CHR 0x00))) (rev demo_legs) demo_config"
proof -
  have same: "tl_tenant l = tl_tenant m" if "l \<in> set demo_legs" "m \<in> set demo_legs" for l m
    using that by (auto simp: demo_legs_def demo_leg_def)
  have "mset demo_legs = mset (rev demo_legs)" by simp
  from matcher_replays [OF this demo_legs_distinct demo_libs_ok _ same, of demo_config] show ?thesis
    by (simp add: config_wf_def demo_config_def)
qed

end
