(* ===== verification/Queues.thy ===== *)
theory Queues
  imports Matcher Dual_Control
begin

section \<open>Confirmation and designation (treasury-reconcile)\<close>

text \<open>
  Models \<open>crates/treasury-reconcile/src/\<close> \<open>queue.rs\<close>, \<open>designate.rs\<close> and \<open>book.rs\<close>: the confirmation
  queue for match proposals, which adds a pending state before the assertion, the designation queue
  for legs that are no internal transfers, and the event drafts that book automatic nets, resolved
  queue items and confirmed designations. Both queues are interpretations of the contract
  \<open>two_person\<close>.
\<close>

subsection \<open>Confirmation queue\<close>

datatype queue_state =
    Q_Pending
  | Q_Asserted actor_id
  | Q_Confirmed actor_id actor_id
  | Q_Rejected actor_id string

fun q_is_terminal :: "queue_state \<Rightarrow> bool" where
  "q_is_terminal (Q_Confirmed p a) = True"
| "q_is_terminal (Q_Rejected a r) = True"
| "q_is_terminal _ = False"

record confirmation_queue =
  cq_items :: "(content_hash, match_proposal \<times> queue_state) hashmap"

datatype queue_error =
    QueueUnknownItem content_hash
  | QueueInvalidTransition
  | QueueDualControlViolation
  | QueueCanon canon_error

definition cq_new :: confirmation_queue where
  "cq_new = \<lparr>cq_items = []\<rparr>"

definition cq_enqueue :: "libs \<Rightarrow> match_proposal \<Rightarrow> confirmation_queue
  \<Rightarrow> (queue_error, content_hash) result \<times> confirmation_queue" where
  "cq_enqueue L proposal q =
     (case decision_hash L proposal of
        Inl e \<Rightarrow> (Inl (QueueCanon e), q)
      | Inr iid \<Rightarrow> (Inr iid, q\<lparr>cq_items := hm_or_insert iid (proposal, Q_Pending) (cq_items q)\<rparr>))"

definition cq_assert_match :: "content_hash \<Rightarrow> actor_id \<Rightarrow> confirmation_queue
  \<Rightarrow> (queue_error, unit) result \<times> confirmation_queue" where
  "cq_assert_match iid preparer q =
     (case hm_get (cq_items q) iid of
        None \<Rightarrow> (Inl (QueueUnknownItem iid), q)
      | Some (proposal, state) \<Rightarrow>
          if state \<noteq> Q_Pending then (Inl QueueInvalidTransition, q)
          else (Inr (), q\<lparr>cq_items := hm_insert iid (proposal, Q_Asserted preparer) (cq_items q)\<rparr>))"

definition cq_confirm :: "content_hash \<Rightarrow> actor_id \<Rightarrow> confirmation_queue
  \<Rightarrow> (queue_error, unit) result \<times> confirmation_queue" where
  "cq_confirm iid approver q =
     (case hm_get (cq_items q) iid of
        None \<Rightarrow> (Inl (QueueUnknownItem iid), q)
      | Some (proposal, Q_Asserted preparer) \<Rightarrow>
          if preparer = approver then (Inl QueueDualControlViolation, q)
          else (Inr (), q\<lparr>cq_items := hm_insert iid (proposal, Q_Confirmed preparer approver) (cq_items q)\<rparr>)
      | Some _ \<Rightarrow> (Inl QueueInvalidTransition, q))"

definition cq_reject :: "content_hash \<Rightarrow> actor_id \<Rightarrow> string \<Rightarrow> confirmation_queue
  \<Rightarrow> (queue_error, unit) result \<times> confirmation_queue" where
  "cq_reject iid actor reason q =
     (case hm_get (cq_items q) iid of
        None \<Rightarrow> (Inl (QueueUnknownItem iid), q)
      | Some (proposal, state) \<Rightarrow>
          if q_is_terminal state then (Inl QueueInvalidTransition, q)
          else (Inr (), q\<lparr>cq_items := hm_insert iid (proposal, Q_Rejected actor reason) (cq_items q)\<rparr>))"

definition cq_state :: "confirmation_queue \<Rightarrow> content_hash \<Rightarrow> queue_state option" where
  "cq_state q iid = map_option snd (hm_get (cq_items q) iid)"

definition cq_open_items :: "confirmation_queue \<Rightarrow> content_hash list" where
  "cq_open_items q = sort (map fst (filter (\<lambda>(iid, _, state). \<not> q_is_terminal state) (cq_items q)))"

subsection \<open>Designation\<close>

datatype non_purchase_kind = StakingReward | Airdrop | ForkProceeds | MiningReward | OtherKind string

datatype leg_classification = Disposal | Acquisition | NonPurchaseAcquisition non_purchase_kind

record designation_proposal =
  dg_leg :: leg_id
  dg_classification :: leg_classification
  dg_policy_hash :: content_hash

datatype designate_error =
    VagueOther
  | DesignateUnknownItem content_hash
  | DesignateInvalidTransition
  | DesignateDualControlViolation
  | DesignateNotConfirmed
  | DesignateCanon canon_error

definition designation_schema :: string where
  "designation_schema = ''treasury-reconcile/designation/v1''"

fun kind_json :: "non_purchase_kind \<Rightarrow> json" where
  "kind_json StakingReward = json_object [(''kind'', JString ''staking_reward'')]"
| "kind_json Airdrop = json_object [(''kind'', JString ''airdrop'')]"
| "kind_json ForkProceeds = json_object [(''kind'', JString ''fork_proceeds'')]"
| "kind_json MiningReward = json_object [(''kind'', JString ''mining_reward'')]"
| "kind_json (OtherKind d) = json_object [(''kind'', JString ''other''), (''detail'', JString d)]"

fun classification_json :: "leg_classification \<Rightarrow> json" where
  "classification_json Disposal = json_object [(''class'', JString ''disposal'')]"
| "classification_json Acquisition = json_object [(''class'', JString ''acquisition'')]"
| "classification_json (NonPurchaseAcquisition k) =
     json_object [(''class'', JString ''non_purchase_acquisition''), (''detail'', kind_json k)]"

text \<open>
  \<open>trim().is_empty()\<close>: every character is Unicode white space. In the UTF-8 bytes of the string these
  are the six ASCII ones, U+0085 and U+00A0 (two bytes), and U+1680, U+2000 to U+200A, U+2028, U+2029,
  U+202F, U+205F and U+3000 (three bytes).
\<close>

definition ws1 :: "char \<Rightarrow> bool" where
  "ws1 c \<longleftrightarrow> (let n = (of_char c :: nat) in n = 32 \<or> 9 \<le> n \<and> n \<le> 13)"

definition ws2 :: "char \<Rightarrow> char \<Rightarrow> bool" where
  "ws2 c d \<longleftrightarrow> c = CHR 0xC2 \<and> (d = CHR 0x85 \<or> d = CHR 0xA0)"

definition ws3 :: "char \<Rightarrow> char \<Rightarrow> char \<Rightarrow> bool" where
  "ws3 c d e \<longleftrightarrow>
     (c = CHR 0xE1 \<and> d = CHR 0x9A \<and> e = CHR 0x80) \<or>
     (c = CHR 0xE2 \<and> d = CHR 0x80 \<and> (let n = (of_char e :: nat) in 128 \<le> n \<and> n \<le> 138 \<or> n = 168 \<or> n = 169 \<or> n = 175)) \<or>
     (c = CHR 0xE2 \<and> d = CHR 0x81 \<and> e = CHR 0x9F) \<or>
     (c = CHR 0xE3 \<and> d = CHR 0x80 \<and> e = CHR 0x80)"

fun blank :: "string \<Rightarrow> bool" where
  "blank [] = True"
| "blank [c] = ws1 c"
| "blank [c, d] = (if ws1 c then blank [d] else ws2 c d)"
| "blank (c # d # e # r) =
     (if ws1 c then blank (d # e # r) else if ws2 c d then blank (e # r) else ws3 c d e \<and> blank r)"

definition designation_env :: "libs \<Rightarrow> designation_proposal \<Rightarrow> json" where
  "designation_env L p = json_object [
     (''schema'', JString designation_schema),
     (''leg'', JString (to_hex L (dg_leg p))),
     (''classification'', classification_json (dg_classification p)),
     (''policy'', JString (to_hex L (dg_policy_hash p)))]"

definition proposal_hash :: "libs \<Rightarrow> designation_proposal \<Rightarrow> (designate_error, content_hash) result" where
  "proposal_hash L p =
     (if (case dg_classification p of NonPurchaseAcquisition (OtherKind d) \<Rightarrow> blank d | _ \<Rightarrow> False)
      then Inl VagueOther
      else map_err DesignateCanon (content_id L (designation_env L p)))"

datatype designation_state =
    DG_Asserted actor_id
  | DG_Confirmed actor_id actor_id
  | DG_Rejected actor_id string

fun dg_is_terminal :: "designation_state \<Rightarrow> bool" where
  "dg_is_terminal (DG_Asserted p) = False"
| "dg_is_terminal _ = True"

record designation_queue =
  dq_items :: "(content_hash, designation_proposal \<times> designation_state) hashmap"

definition dq_new :: designation_queue where
  "dq_new = \<lparr>dq_items = []\<rparr>"

definition dq_propose :: "libs \<Rightarrow> designation_proposal \<Rightarrow> actor_id \<Rightarrow> designation_queue
  \<Rightarrow> (designate_error, content_hash) result \<times> designation_queue" where
  "dq_propose L proposal preparer q =
     (case proposal_hash L proposal of
        Inl e \<Rightarrow> (Inl e, q)
      | Inr iid \<Rightarrow> (Inr iid, q\<lparr>dq_items := hm_or_insert iid (proposal, DG_Asserted preparer) (dq_items q)\<rparr>))"

definition dq_confirm :: "content_hash \<Rightarrow> actor_id \<Rightarrow> designation_queue
  \<Rightarrow> (designate_error, unit) result \<times> designation_queue" where
  "dq_confirm iid approver q =
     (case hm_get (dq_items q) iid of
        None \<Rightarrow> (Inl (DesignateUnknownItem iid), q)
      | Some (proposal, DG_Asserted preparer) \<Rightarrow>
          if preparer = approver then (Inl DesignateDualControlViolation, q)
          else (Inr (), q\<lparr>dq_items := hm_insert iid (proposal, DG_Confirmed preparer approver) (dq_items q)\<rparr>)
      | Some _ \<Rightarrow> (Inl DesignateInvalidTransition, q))"

definition dq_reject :: "content_hash \<Rightarrow> actor_id \<Rightarrow> string \<Rightarrow> designation_queue
  \<Rightarrow> (designate_error, unit) result \<times> designation_queue" where
  "dq_reject iid actor reason q =
     (case hm_get (dq_items q) iid of
        None \<Rightarrow> (Inl (DesignateUnknownItem iid), q)
      | Some (proposal, state) \<Rightarrow>
          if dg_is_terminal state then (Inl DesignateInvalidTransition, q)
          else (Inr (), q\<lparr>dq_items := hm_insert iid (proposal, DG_Rejected actor reason) (dq_items q)\<rparr>))"

definition dq_state :: "designation_queue \<Rightarrow> content_hash \<Rightarrow> designation_state option" where
  "dq_state q iid = map_option snd (hm_get (dq_items q) iid)"

definition designated_legs :: "designation_queue \<Rightarrow> leg_id list" where
  "designated_legs q = sort_dedup (List.map_filter (\<lambda>(_, proposal, state).
     case state of DG_Confirmed _ _ \<Rightarrow> Some (dg_leg proposal) | _ \<Rightarrow> None) (dq_items q))"

definition draft_designation :: "libs \<Rightarrow> designation_proposal \<Rightarrow> designation_state \<Rightarrow> tenant_id \<Rightarrow> timestamp_ns
  \<Rightarrow> (designate_error, event_draft) result" where
  "draft_designation L proposal state tenant event_time =
     (case state of
        DG_Confirmed preparer approver \<Rightarrow>
          and_then (proposal_hash L proposal) (\<lambda>iid. Inr
            \<lparr>ev_tenant = tenant, ev_layer = Judgment, ev_time = event_time, ev_supersedes = None,
             ev_provenance = ProvJudgment (dg_policy_hash proposal) [preparer, approver] [iid],
             ev_payload = json_object [
               (''schema'', JString designation_schema),
               (''booking'', JString ''leg_designation''),
               (''leg'', JString (to_hex L (dg_leg proposal))),
               (''classification'', classification_json (dg_classification proposal)),
               (''proposal'', JString (to_hex L iid))]\<rparr>)
      | _ \<Rightarrow> Inl DesignateNotConfirmed)"

subsection \<open>Booking\<close>

datatype book_error = NotAutoNet | NotTerminal | BookCanon canon_error

definition booking_schema :: string where
  "booking_schema = ''treasury-reconcile/booking/v1''"

definition draft_auto_net :: "libs \<Rightarrow> match_proposal \<Rightarrow> tenant_id \<Rightarrow> timestamp_ns \<Rightarrow> (book_error, event_draft) result" where
  "draft_auto_net L p tenant event_time =
     (if mp_disposition p \<noteq> AutoNet then Inl NotAutoNet
      else and_then (map_err BookCanon (decision_hash L p)) (\<lambda>decision. Inr
        \<lparr>ev_tenant = tenant, ev_layer = DerivedFact, ev_time = event_time, ev_supersedes = None,
         ev_provenance = ProvDerived (mp_config_hash p) [mp_out_leg p, mp_in_leg p],
         ev_payload = json_object [
           (''schema'', JString booking_schema),
           (''booking'', JString ''internal_transfer_net''),
           (''resolution'', JString ''auto''),
           (''out_leg'', JString (to_hex L (mp_out_leg p))),
           (''in_leg'', JString (to_hex L (mp_in_leg p))),
           (''tier'', tier_json (mp_tier p)),
           (''decision'', JString (to_hex L decision))]\<rparr>))"

definition draft_resolution :: "libs \<Rightarrow> match_proposal \<Rightarrow> queue_state \<Rightarrow> tenant_id \<Rightarrow> timestamp_ns
  \<Rightarrow> (book_error, event_draft) result" where
  "draft_resolution L p state tenant event_time =
     and_then (map_err BookCanon (decision_hash L p)) (\<lambda>decision.
       case state of
         Q_Confirmed preparer approver \<Rightarrow> Inr
           \<lparr>ev_tenant = tenant, ev_layer = Judgment, ev_time = event_time, ev_supersedes = None,
            ev_provenance = ProvJudgment (mp_config_hash p) [preparer, approver] [decision],
            ev_payload = json_object [
              (''schema'', JString booking_schema),
              (''booking'', JString ''internal_transfer_net''),
              (''resolution'', JString ''confirmed''),
              (''out_leg'', JString (to_hex L (mp_out_leg p))),
              (''in_leg'', JString (to_hex L (mp_in_leg p))),
              (''tier'', tier_json (mp_tier p)),
              (''decision'', JString (to_hex L decision))]\<rparr>
       | Q_Rejected actor reason \<Rightarrow> Inr
           \<lparr>ev_tenant = tenant, ev_layer = Judgment, ev_time = event_time, ev_supersedes = None,
            ev_provenance = ProvJudgment (mp_config_hash p) [actor] [decision],
            ev_payload = json_object [
              (''schema'', JString booking_schema),
              (''booking'', JString ''not_internal_transfer''),
              (''resolution'', JString ''rejected''),
              (''out_leg'', JString (to_hex L (mp_out_leg p))),
              (''in_leg'', JString (to_hex L (mp_in_leg p))),
              (''tier'', tier_json (mp_tier p)),
              (''decision'', JString (to_hex L decision)),
              (''reason'', JString reason)]\<rparr>
       | _ \<Rightarrow> Inl NotTerminal)"

subsection \<open>Identity of designations\<close>

lemma kind_json_ok [simp]: "json_ok (Suc k) (kind_json x)"
  by (cases x) simp_all

lemma classification_json_ok [simp]: "json_ok (Suc (Suc k)) (classification_json x)"
  by (cases x) simp_all

lemmas json_object_class = json_object_tag [of "''class''"]

lemma kind_json_inject [simp]: "kind_json x = kind_json y \<longleftrightarrow> x = y"
  by (cases x; cases y) (auto simp: json_object_inject dest!: json_object_kind)

lemma classification_json_inject [simp]: "classification_json x = classification_json y \<longleftrightarrow> x = y"
  by (cases x; cases y) (auto simp: json_object_inject dest!: json_object_class)

interpretation designation_identity: artifact designation_env "\<lambda>p. True"
proof
  fix x y :: designation_proposal and L
  show "json_ok max_depth (designation_env L x)" by (rule json_ok_shallow) (simp add: designation_env_def)
  show "libs_ok L \<Longrightarrow> designation_env L x = designation_env L y \<Longrightarrow> x = y"
    by (cases x; cases y) (simp add: designation_env_def json_object_inject)
qed

subsection \<open>The queues keep the two-person contract\<close>

inductive cq_step :: "libs \<Rightarrow> confirmation_queue \<Rightarrow> confirmation_queue \<Rightarrow> bool" for L where
  cq_step_enqueue: "cq_step L q (snd (cq_enqueue L proposal q))"
| cq_step_assert: "cq_step L q (snd (cq_assert_match iid preparer q))"
| cq_step_confirm: "cq_step L q (snd (cq_confirm iid approver q))"
| cq_step_reject: "cq_step L q (snd (cq_reject iid actor reason q))"

inductive dq_step :: "libs \<Rightarrow> designation_queue \<Rightarrow> designation_queue \<Rightarrow> bool" for L where
  dq_step_propose: "dq_step L q (snd (dq_propose L proposal preparer q))"
| dq_step_confirm: "dq_step L q (snd (dq_confirm iid approver q))"
| dq_step_reject: "dq_step L q (snd (dq_reject iid actor reason q))"

fun q_asserted_by :: "queue_state \<Rightarrow> actor_id option" where
  "q_asserted_by (Q_Asserted p) = Some p"
| "q_asserted_by _ = None"

fun q_confirmed_by :: "queue_state \<Rightarrow> (actor_id \<times> actor_id) option" where
  "q_confirmed_by (Q_Confirmed p a) = Some (p, a)"
| "q_confirmed_by _ = None"

fun dg_asserted_by :: "designation_state \<Rightarrow> actor_id option" where
  "dg_asserted_by (DG_Asserted p) = Some p"
| "dg_asserted_by _ = None"

fun dg_confirmed_by :: "designation_state \<Rightarrow> (actor_id \<times> actor_id) option" where
  "dg_confirmed_by (DG_Confirmed p a) = Some (p, a)"
| "dg_confirmed_by _ = None"

text \<open>One step changes an item along the documented edges or not at all.\<close>

lemma cq_step_state:
  assumes "cq_step L q q'"
  shows "cq_state q' i = cq_state q i \<or>
    (cq_state q i = None \<and> cq_state q' i = Some Q_Pending) \<or>
    (cq_state q i = Some Q_Pending \<and> (\<exists>p. cq_state q' i = Some (Q_Asserted p))) \<or>
    (\<exists>p a. cq_state q i = Some (Q_Asserted p) \<and> p \<noteq> a \<and> cq_state q' i = Some (Q_Confirmed p a)) \<or>
    (\<exists>s a r. cq_state q i = Some s \<and> \<not> q_is_terminal s \<and> cq_state q' i = Some (Q_Rejected a r))"
  using assms
  by cases (auto simp: cq_state_def cq_enqueue_def cq_assert_match_def cq_confirm_def cq_reject_def
      split: sum.splits option.splits queue_state.splits)

lemma dq_step_state:
  assumes "dq_step L q q'"
  shows "dq_state q' i = dq_state q i \<or>
    (dq_state q i = None \<and> (\<exists>p. dq_state q' i = Some (DG_Asserted p))) \<or>
    (\<exists>p a. dq_state q i = Some (DG_Asserted p) \<and> p \<noteq> a \<and> dq_state q' i = Some (DG_Confirmed p a)) \<or>
    (\<exists>s a r. dq_state q i = Some s \<and> \<not> dg_is_terminal s \<and> dq_state q' i = Some (DG_Rejected a r))"
  using assms
  by cases (auto simp: dq_state_def dq_propose_def dq_confirm_def dq_reject_def
      split: sum.splits option.splits designation_state.splits)

interpretation confirmation: two_person cq_state "cq_step L" cq_new q_asserted_by q_confirmed_by q_is_terminal for L
proof
  show "cq_state cq_new i = None" for i by (simp add: cq_state_def cq_new_def)
next
  fix q q' i s
  assume step: "cq_step L q q'" and s: "cq_state q i = Some s"
  show "q_is_terminal s \<Longrightarrow> cq_state q' i = Some s" using cq_step_state [OF step, of i] s by auto
  show "\<exists>s'. cq_state q' i = Some s'" using cq_step_state [OF step, of i] s by auto
next
  fix q q' i s' p a
  assume "cq_step L q q'" "cq_state q' i = Some s'" "q_confirmed_by s' = Some (p, a)"
  then show "cq_state q i = Some s' \<or> (\<exists>s. cq_state q i = Some s \<and> q_asserted_by s = Some p \<and> p \<noteq> a)"
    using cq_step_state [of L q q' i] by (cases s') auto
qed

interpretation designation: two_person dq_state "dq_step L" dq_new dg_asserted_by dg_confirmed_by dg_is_terminal for L
proof
  show "dq_state dq_new i = None" for i by (simp add: dq_state_def dq_new_def)
next
  fix q q' i s
  assume step: "dq_step L q q'" and s: "dq_state q i = Some s"
  show "dg_is_terminal s \<Longrightarrow> dq_state q' i = Some s" using dq_step_state [OF step, of i] s by auto
  show "\<exists>s'. dq_state q' i = Some s'" using dq_step_state [OF step, of i] s by auto
next
  fix q q' i s' p a
  assume "dq_step L q q'" "dq_state q' i = Some s'" "dg_confirmed_by s' = Some (p, a)"
  then show "dq_state q i = Some s' \<or> (\<exists>s. dq_state q i = Some s \<and> dg_asserted_by s = Some p \<and> p \<noteq> a)"
    using dq_step_state [of L q q' i] by (cases s') auto
qed

subsection \<open>Items sit under their own hashes\<close>

definition dq_inv :: "libs \<Rightarrow> designation_queue \<Rightarrow> bool" where
  "dq_inv L q \<longleftrightarrow> hm_wf (dq_items q) \<and>
     (\<forall>iid p s. hm_get (dq_items q) iid = Some (p, s) \<longrightarrow> proposal_hash L p = Inr iid)"

lemma dq_step_inv:
  assumes "dq_step L q q'" and "dq_inv L q"
  shows "dq_inv L q'"
  using assms(1)
proof cases
  case (dq_step_propose proposal preparer)
  then show ?thesis using assms(2) by (auto simp: dq_inv_def dq_propose_def split: sum.splits if_splits)
next
  case (dq_step_confirm iid approver)
  then show ?thesis using assms(2)
    by (auto simp: dq_inv_def dq_confirm_def split: option.splits designation_state.splits)
next
  case (dq_step_reject iid actor reason)
  then show ?thesis using assms(2) by (auto simp: dq_inv_def dq_reject_def split: option.splits)
qed

lemma dq_reach_inv: "(dq_step L)\<^sup>*\<^sup>* dq_new q \<Longrightarrow> dq_inv L q"
  by (induction rule: rtranclp_induct) (simp add: dq_inv_def dq_new_def, rule dq_step_inv)

text \<open>A classification that says what it means.\<close>

fun described :: "leg_classification \<Rightarrow> bool" where
  "described (NonPurchaseAcquisition (OtherKind d)) = (\<not> blank d)"
| "described _ = True"

lemma proposal_hash_described: "proposal_hash L p = Inr iid \<Longrightarrow> described (dg_classification p)"
  by (cases "dg_classification p" rule: described.cases) (auto simp: proposal_hash_def split: if_splits)

subsection \<open>Properties\<close>

text \<open>A leg counts as designated exactly on two people's word: in every reachable designation queue, the
  legs listed as designated are exactly those with a confirmed proposal; that proposal sits under its own
  hash, was confirmed by somebody other than its preparer, never describes an unlisted kind by blank
  text, and stays confirmed whatever happens next.\<close>

theorem designated_legs_confirmed:
  assumes "(dq_step L)\<^sup>*\<^sup>* dq_new q" and "(dq_step L)\<^sup>*\<^sup>* q q'"
  shows "leg \<in> set (designated_legs q) \<longleftrightarrow>
    (\<exists>iid proposal p a. hm_get (dq_items q) iid = Some (proposal, DG_Confirmed p a) \<and> dg_leg proposal = leg \<and>
      proposal_hash L proposal = Inr iid \<and> p \<noteq> a \<and>
      described (dg_classification proposal) \<and>
      dq_state q' iid = Some (DG_Confirmed p a))"
proof -
  have inv: "hm_wf (dq_items q)" "\<And>iid p s. hm_get (dq_items q) iid = Some (p, s) \<Longrightarrow> proposal_hash L p = Inr iid"
    using dq_reach_inv [OF assms(1)] by (auto simp: dq_inv_def)
  have listed: "leg \<in> set (designated_legs q) \<longleftrightarrow>
      (\<exists>iid proposal p a. hm_get (dq_items q) iid = Some (proposal, DG_Confirmed p a) \<and> dg_leg proposal = leg)"
    by (force simp: designated_legs_def in_set_map_filter hm_wf_get_iff [OF inv(1)] split: designation_state.splits)
  have two: "p \<noteq> a \<and> dq_state q' iid = Some (DG_Confirmed p a)"
    if "hm_get (dq_items q) iid = Some (proposal, DG_Confirmed p a)" for iid proposal p a
  proof -
    have "dq_state q iid = Some (DG_Confirmed p a)" using that by (simp add: dq_state_def)
    then show ?thesis
      using designation.confirmed_two_actors [OF assms(1)] designation.terminal_forever [OF assms(2)] by fastforce
  qed
  show ?thesis unfolding listed using two inv(2) proposal_hash_described by blast
qed

definition demo_designation :: designation_proposal where
  "demo_designation = \<lparr>dg_leg = hash_of_byte (CHR 0x04), dg_classification = NonPurchaseAcquisition Airdrop,
     dg_policy_hash = hash_of_byte (CHR 0x05)\<rparr>"

theorem designated_legs_confirmed_witness:
  "hash_of_byte (CHR 0x04) \<notin>
     set (designated_legs (snd (dq_propose (demo_libs (\<lambda>_. hash_of_byte (CHR 0x01))) demo_designation ''alice'' dq_new)))"
proof -
  let ?L = "demo_libs (\<lambda>_. hash_of_byte (CHR 0x01))"
  let ?q = "snd (dq_propose ?L demo_designation ''alice'' dq_new)"
  have reach: "(dq_step ?L)\<^sup>*\<^sup>* dq_new ?q" by (rule r_into_rtranclp) (rule dq_step_propose)
  have "proposal_hash ?L demo_designation = Inr (hash_of_byte (CHR 0x01))"
    by (simp add: proposal_hash_def demo_designation_def designation_identity.hash_total sha256_def)
  then have "dq_items ?q = [(hash_of_byte (CHR 0x01), (demo_designation, DG_Asserted ''alice''))]"
    by (simp add: dq_propose_def dq_new_def hm_or_insert_def hm_insert_def)
  then show ?thesis unfolding designated_legs_confirmed [OF reach rtranclp.rtrancl_refl] by (simp split: if_splits)
qed

text \<open>A queued match nets on two people's word: in every reachable confirmation queue, an item whose
  resolution can be booked as an internal transfer was asserted by one person and confirmed by another,
  the booked judgment names exactly these two, and the item never changes again.\<close>

theorem queued_match_two_actors:
  assumes "(cq_step L)\<^sup>*\<^sup>* cq_new q" and "(cq_step L)\<^sup>*\<^sup>* q q'" and "cq_state q iid = Some s"
    and "draft_resolution L p s tenant t = Inr d" and "ev_provenance d = ProvJudgment ph [x, y] ev"
  shows "s = Q_Confirmed x y \<and> x \<noteq> y \<and> cq_state q' iid = Some (Q_Confirmed x y)"
proof -
  have s: "s = Q_Confirmed x y"
    using assms(4,5) by (cases s) (auto simp: draft_resolution_def result_simps)
  then show ?thesis
    using confirmation.confirmed_two_actors [OF assms(1,3)] confirmation.terminal_forever [OF assms(2,3)] by simp
qed

definition demo_proposal :: match_proposal where
  "demo_proposal = \<lparr>mp_out_leg = hash_of_byte (CHR 0x02), mp_in_leg = hash_of_byte (CHR 0x03), mp_tier = Probabilistic,
     mp_disposition = Queue, mp_config_hash = hash_of_byte (CHR 0x06)\<rparr>"

definition demo_confirmed :: confirmation_queue where
  "demo_confirmed = \<lparr>cq_items = [(hash_of_byte (CHR 0x01), (demo_proposal, Q_Confirmed ''alice'' ''bob''))]\<rparr>"

theorem queued_match_two_actors_witness:
  "cq_state (snd (cq_reject (hash_of_byte (CHR 0x01)) ''carol'' ''no'' demo_confirmed)) (hash_of_byte (CHR 0x01)) =
     Some (Q_Confirmed ''alice'' ''bob'')"
proof -
  let ?L = "demo_libs (\<lambda>_. hash_of_byte (CHR 0x01))" and ?i = "hash_of_byte (CHR 0x01)"
  let ?q1 = "snd (cq_enqueue ?L demo_proposal cq_new)"
  let ?q2 = "snd (cq_assert_match ?i ''alice'' ?q1)"
  let ?q3 = "snd (cq_confirm ?i ''bob'' ?q2)"
  have hash: "decision_hash ?L demo_proposal = Inr ?i"
    by (simp add: decision_hash_def decision_identity.hash_total sha256_def)
  have "cq_step ?L cq_new ?q1" "cq_step ?L ?q1 ?q2" "cq_step ?L ?q2 ?q3"
    by (rule cq_step_enqueue, rule cq_step_assert, rule cq_step_confirm)
  then have "(cq_step ?L)\<^sup>*\<^sup>* cq_new ?q3" by (meson rtranclp.rtrancl_into_rtrancl rtranclp.rtrancl_refl)
  moreover have "?q3 = demo_confirmed"
    by (simp add: cq_enqueue_def hash cq_new_def hm_or_insert_def hm_insert_def cq_assert_match_def cq_confirm_def demo_confirmed_def)
  ultimately have reach: "(cq_step ?L)\<^sup>*\<^sup>* cq_new demo_confirmed" by simp
  have later: "(cq_step ?L)\<^sup>*\<^sup>* demo_confirmed (snd (cq_reject ?i ''carol'' ''no'' demo_confirmed))"
    by (rule r_into_rtranclp) (rule cq_step_reject)
  have state: "cq_state demo_confirmed ?i = Some (Q_Confirmed ''alice'' ''bob'')"
    by (simp add: cq_state_def demo_confirmed_def)
  obtain d where d: "draft_resolution ?L demo_proposal (Q_Confirmed ''alice'' ''bob'') ''acme'' 7 = Inr d"
    "ev_provenance d = ProvJudgment (hash_of_byte (CHR 0x06)) [''alice'', ''bob''] [?i]"
    by (simp add: draft_resolution_def hash) (simp add: demo_proposal_def)
  from queued_match_two_actors [OF reach later state d] show ?thesis by blast
qed

end
