(* ===== verification/Chainsource.thy ===== *)
theory Chainsource
  imports Event
begin

section \<open>Chain sources (treasury-chainsource)\<close>

text \<open>
  Models \<open>crates/treasury-chainsource/src/\<close> \<open>history.rs\<close>, \<open>finality.rs\<close>, \<open>source.rs\<close>, \<open>reconcile.rs\<close> and
  \<open>book.rs\<close>: normalized address histories with their hash over the settled movements, finality
  policies, the two-source comparison, the reproducibility gate and the observation draft. A source
  answers from the state of the outside world, which a query may change, so two queries of one source
  can differ; the fixture source answers from its own table. The lemmas show what agreement of two
  sources means, that movements above the settled height never influence it, and when equal
  movements are enough to agree.
\<close>

datatype chain = Bitcoin | Ethereum

datatype chain_direction = ChainInflow | ChainOutflow

record chain_movement =
  cm_tx_ref :: string
  cm_direction :: chain_direction
  cm_amount :: asset_amount
  cm_block_height :: u64

record address_history =
  ah_chain :: chain
  ah_address :: string
  ah_settled_to_height :: u64
  ah_movements :: "chain_movement list"

datatype history_error = HistoryCanon canon_error

definition history_schema :: string where
  "history_schema = ''treasury-chainsource/address-history/v1''"

text \<open>The derived \<open>Ord\<close> of the direction puts inflows first.\<close>

fun direction_rank :: "chain_direction \<Rightarrow> nat" where
  "direction_rank ChainInflow = 0"
| "direction_rank ChainOutflow = 1"

definition movement_key :: "chain_movement \<Rightarrow> u64 \<times> string \<times> nat" where
  "movement_key m = (cm_block_height m, cm_tx_ref m, direction_rank (cm_direction m))"

definition ordered_movements :: "address_history \<Rightarrow> chain_movement list" where
  "ordered_movements h = sort_key movement_key (ah_movements h)"

fun chain_json :: "chain \<Rightarrow> json" where
  "chain_json Bitcoin = JString ''bitcoin''"
| "chain_json Ethereum = JString ''ethereum''"

fun direction_json :: "chain_direction \<Rightarrow> json" where
  "direction_json ChainInflow = JString ''inflow''"
| "direction_json ChainOutflow = JString ''outflow''"

definition movement_json :: "chain_movement \<Rightarrow> json" where
  "movement_json m = json_object [
     (''tx_ref'', JString (cm_tx_ref m)),
     (''direction'', direction_json (cm_direction m)),
     (''amount'', amount_json (cm_amount m)),
     (''block_height'', JString (show_nat (unat (cm_block_height m))))]"

definition settled_movements :: "address_history \<Rightarrow> chain_movement list" where
  "settled_movements h = filter (\<lambda>m. \<not> cm_block_height m > ah_settled_to_height h) (ordered_movements h)"

definition history_env :: "libs \<Rightarrow> address_history \<Rightarrow> json" where
  "history_env L h = json_object [
     (''schema'', JString history_schema),
     (''chain'', chain_json (ah_chain h)),
     (''address'', JString (ah_address h)),
     (''settled_to_height'', JString (show_nat (unat (ah_settled_to_height h)))),
     (''movements'', JArray (map movement_json (settled_movements h)))]"

definition history_hash :: "libs \<Rightarrow> address_history \<Rightarrow> (history_error, content_hash) result" where
  "history_hash L h = map_err HistoryCanon (content_id L (history_env L h))"

subsection \<open>Finality\<close>

datatype finality_rule = ConfirmationDepth u64 | ExternalFinalized

record finality_policy =
  fp_chain :: chain
  fp_rule :: finality_rule

definition finality_schema :: string where
  "finality_schema = ''treasury-chainsource/finality-policy/v1''"

fun rule_json :: "finality_rule \<Rightarrow> json" where
  "rule_json (ConfirmationDepth depth) =
     json_object [(''kind'', JString ''confirmation_depth''), (''depth'', JNumber (PosInt depth))]"
| "rule_json ExternalFinalized = json_object [(''kind'', JString ''external_finalized'')]"

definition finality_env :: "libs \<Rightarrow> finality_policy \<Rightarrow> json" where
  "finality_env L p = json_object [
     (''schema'', JString finality_schema),
     (''chain'', chain_json (fp_chain p)),
     (''rule'', rule_json (fp_rule p))]"

definition finality_policy_hash :: "libs \<Rightarrow> finality_policy \<Rightarrow> (canon_error, content_hash) result" where
  "finality_policy_hash L p = content_id L (finality_env L p)"

definition settled_height :: "finality_policy \<Rightarrow> u64 \<Rightarrow> u64" where
  "settled_height p observed =
     (case fp_rule p of
        ConfirmationDepth depth \<Rightarrow> u64_saturating_sub observed depth
      | ExternalFinalized \<Rightarrow> observed)"

subsection \<open>Sources\<close>

datatype source_error = SourceTransport string | SourceChainMismatch

record 'w chain_source =
  cs_chain :: chain
  cs_source_id :: string
  cs_address_history :: "string \<Rightarrow> u64 \<Rightarrow> 'w \<Rightarrow> (source_error, address_history) result \<times> 'w"

record fixture_source =
  fx_chain :: chain
  fx_source_id :: string
  fx_histories :: "(string, address_history) hashmap"

definition fx_new :: "chain \<Rightarrow> string \<Rightarrow> fixture_source" where
  "fx_new c sid = \<lparr>fx_chain = c, fx_source_id = sid, fx_histories = []\<rparr>"

definition fx_with_history :: "address_history \<Rightarrow> fixture_source \<Rightarrow> fixture_source" where
  "fx_with_history h s = s\<lparr>fx_histories := hm_insert (ah_address h) h (fx_histories s)\<rparr>"

definition fx_address_history :: "fixture_source \<Rightarrow> string \<Rightarrow> u64 \<Rightarrow> (source_error, address_history) result" where
  "fx_address_history s address observed_height =
     (case hm_get (fx_histories s) address of
        None \<Rightarrow> Inr \<lparr>ah_chain = fx_chain s, ah_address = address, ah_settled_to_height = observed_height, ah_movements = []\<rparr>
      | Some h \<Rightarrow> Inr h)"

definition fixture_chain_source :: "fixture_source \<Rightarrow> 'w chain_source" where
  "fixture_chain_source s = \<lparr>cs_chain = fx_chain s, cs_source_id = fx_source_id s,
     cs_address_history = (\<lambda>address h w. (fx_address_history s address h, w))\<rparr>"

subsection \<open>Reconciliation\<close>

datatype reconciliation =
    Agreed address_history content_hash
  | Diverged "string \<times> content_hash" "string \<times> content_hash" u64

fun recon_agreed :: "reconciliation \<Rightarrow> bool" where
  "recon_agreed (Agreed h hash) = True"
| "recon_agreed (Diverged a b height) = False"

datatype reconcile_error = ReconcileChainMismatch | ReconcileSource source_error | ReconcileHistory history_error

datatype repro_error =
    NotReproducible string content_hash content_hash
  | ReproSource source_error
  | ReproHistory history_error

definition settled_view :: "'w chain_source \<Rightarrow> string \<Rightarrow> u64 \<Rightarrow> u64 \<Rightarrow> 'w
  \<Rightarrow> (source_error, address_history) result \<times> 'w" where
  "settled_view source address observed_height settled_to_height w =
     and_then_st (cs_address_history source address observed_height w)
       (\<lambda>h w. (Inr (h\<lparr>ah_settled_to_height := settled_to_height\<rparr>), w))"

definition reconcile_sources :: "libs \<Rightarrow> 'a chain_source \<Rightarrow> 'b chain_source \<Rightarrow> finality_policy \<Rightarrow> string \<Rightarrow> u64
  \<Rightarrow> 'a \<Rightarrow> 'b \<Rightarrow> (reconcile_error, reconciliation) result" where
  "reconcile_sources L source_a source_b policy address observed_height wa wb =
     (if cs_chain source_a \<noteq> fp_chain policy \<or> cs_chain source_b \<noteq> fp_chain policy \<or> cs_chain source_a \<noteq> cs_chain source_b
      then Inl ReconcileChainMismatch
      else let settled_to_height = settled_height policy observed_height in
        and_then (map_err ReconcileSource (fst (settled_view source_a address observed_height settled_to_height wa))) (\<lambda>history_a.
        and_then (map_err ReconcileSource (fst (settled_view source_b address observed_height settled_to_height wb))) (\<lambda>history_b.
        and_then (map_err ReconcileHistory (history_hash L history_a)) (\<lambda>hash_a.
        and_then (map_err ReconcileHistory (history_hash L history_b)) (\<lambda>hash_b.
          Inr (if hash_a = hash_b then Agreed history_a hash_a
               else Diverged (cs_source_id source_a, hash_a) (cs_source_id source_b, hash_b) settled_to_height))))))"

definition reproducibility_gate :: "libs \<Rightarrow> 'w chain_source \<Rightarrow> finality_policy \<Rightarrow> string \<Rightarrow> u64 \<Rightarrow> 'w
  \<Rightarrow> (repro_error, content_hash) result \<times> 'w" where
  "reproducibility_gate L source policy address observed_height w =
     (if cs_chain source \<noteq> fp_chain policy then (Inl (ReproSource SourceChainMismatch), w)
      else let settled_to_height = settled_height policy observed_height;
               query = (\<lambda>w. case settled_view source address observed_height settled_to_height w of
                  (Inl e, w) \<Rightarrow> (Inl (ReproSource e), w)
                | (Inr h, w) \<Rightarrow> (map_err ReproHistory (history_hash L h), w)) in
        and_then_st (query w) (\<lambda>first w.
        and_then_st (query w) (\<lambda>second w.
          (if first = second then Inr first else Inl (NotReproducible (cs_source_id source) first second), w))))"

subsection \<open>Booking\<close>

datatype observation_error = ObservationDiverged

definition observation_schema :: string where
  "observation_schema = ''treasury-chainsource/observation/v1''"

definition draft_history_observation :: "libs \<Rightarrow> reconciliation \<Rightarrow> tenant_id \<Rightarrow> source_id \<Rightarrow> content_hash \<Rightarrow> timestamp_ns
  \<Rightarrow> (observation_error, event_draft) result" where
  "draft_history_observation L r tenant source raw_evidence observed_at =
     (case r of
        Agreed history h \<Rightarrow> Inr
          \<lparr>ev_tenant = tenant, ev_layer = Observation, ev_time = observed_at, ev_supersedes = None,
           ev_provenance = ProvObservation source raw_evidence,
           ev_payload = json_object [
             (''schema'', JString observation_schema),
             (''booking'', JString ''chain_address_history''),
             (''chain'', chain_json (ah_chain history)),
             (''address'', JString (ah_address history)),
             (''settled_to_height'', JString (show_nat (unat (ah_settled_to_height history)))),
             (''history'', JString (to_hex L h)),
             (''movement_count'', JString (show_nat (min (length (ah_movements history)) (2 ^ 64 - 1))))]\<rparr>
      | Diverged a b height \<Rightarrow> Inl ObservationDiverged)"

subsection \<open>Identity\<close>

lemma chain_json_simps [simp]: "json_ok k (chain_json c)" "chain_json c = chain_json d \<longleftrightarrow> c = d"
  by (cases c; simp) (cases c; cases d; simp)

lemma direction_json_simps [simp]: "json_ok k (direction_json c)" "direction_json c = direction_json d \<longleftrightarrow> c = d"
  by (cases c; simp) (cases c; cases d; simp)

lemma show_nat_inject [simp]: "show_nat m = show_nat n \<longleftrightarrow> m = n"
  by (metis option.inject parse_digits_show_nat)

lemma movement_json_simps [simp]:
  "json_ok (Suc (Suc k)) (movement_json m)" "movement_json m = movement_json n \<longleftrightarrow> m = n"
  by (simp add: movement_json_def)
    (cases m; cases n; simp add: movement_json_def json_object_inject word_unat_eq_iff)

lemma movement_list_inject: "map movement_json xs = map movement_json ys \<longleftrightarrow> xs = ys"
  by (simp add: inj_map_eq_map inj_def)

text \<open>What the hash sees of a history: everything but the order and the unsettled movements.\<close>

definition history_view :: "address_history \<Rightarrow> address_history" where
  "history_view h = h\<lparr>ah_movements := settled_movements h\<rparr>"

lemma settled_movements_mset:
  "mset (settled_movements h) = filter_mset (\<lambda>m. cm_block_height m \<le> ah_settled_to_height h) (mset (ah_movements h))"
  by (simp add: settled_movements_def ordered_movements_def not_less mset_filter)

lemma settled_movements_sorted [simp]: "sorted (map movement_key (settled_movements h))"
  by (simp add: settled_movements_def ordered_movements_def sorted_filter)

lemma history_view_settled [simp]:
  "settled_movements (history_view h) = settled_movements h"
proof -
  have "sort_key movement_key (settled_movements h) = settled_movements h"
    by (rule sort_key_id_if_sorted) simp
  then show ?thesis
    by (auto simp: history_view_def settled_movements_def ordered_movements_def intro: filter_True)
qed

lemma history_env_view: "history_env L (history_view h) = history_env L h"
  by (simp add: history_env_def) (simp add: history_view_def)

definition history_canonical :: "address_history \<Rightarrow> bool" where
  "history_canonical h \<longleftrightarrow> history_view h = h"

lemma history_view_canonical [simp]: "history_canonical (history_view h)"
  by (simp add: history_canonical_def history_view_def [of "history_view h"]) (simp add: history_view_def)

interpretation history_identity: artifact history_env history_canonical
proof
  fix x y :: address_history and L
  show "json_ok max_depth (history_env L x)" by (rule json_ok_shallow) (simp add: history_env_def)
  assume can: "history_canonical x" "history_canonical y" and eq: "history_env L x = history_env L y"
  have "settled_movements x = ah_movements x" "settled_movements y = ah_movements y"
    using can by (metis address_history.surjective address_history.update_convs(4) address_history.ext_inject
      history_canonical_def history_view_def)+
  with eq show "x = y"
    by (cases x; cases y) (simp add: history_env_def json_object_inject movement_list_inject word_unat_eq_iff)
qed

lemma rule_json_simps [simp]: "json_ok (Suc (Suc k)) (rule_json r)" "rule_json r = rule_json s \<longleftrightarrow> r = s"
  by (cases r; simp) (cases r; cases s; auto simp: json_object_inject dest!: json_object_kind)

interpretation finality_identity: artifact finality_env "\<lambda>p. True"
proof
  fix x y :: finality_policy and L
  show "json_ok max_depth (finality_env L x)" by (rule json_ok_shallow) (simp add: finality_env_def)
  show "libs_ok L \<Longrightarrow> finality_env L x = finality_env L y \<Longrightarrow> x = y"
    by (cases x; cases y) (simp add: finality_env_def json_object_inject)
qed

subsection \<open>Comparing two answers\<close>

definition settled_at :: "u64 \<Rightarrow> address_history \<Rightarrow> chain_movement multiset" where
  "settled_at height h = filter_mset (\<lambda>m. cm_block_height m \<le> height) (mset (ah_movements h))"

abbreviation clamp :: "u64 \<Rightarrow> address_history \<Rightarrow> address_history" where
  "clamp height h \<equiv> h\<lparr>ah_settled_to_height := height\<rparr>"

lemma settled_movements_sort:
  "settled_movements (clamp n h) = sort_key movement_key (filter (\<lambda>m. cm_block_height m \<le> n) (ah_movements h))"
  by (simp add: settled_movements_def ordered_movements_def not_less filter_sort)

lemma settled_movements_clamp: "mset (settled_movements (clamp height h)) = settled_at height h"
  by (simp add: settled_movements_mset settled_at_def)

lemma history_hash_total:
  assumes "libs_ok L"
  shows "history_hash L h = Inr (sha256 L (preimage L (history_env L h)))"
  using history_identity.hash_total [OF assms, of "history_view h"]
  by (simp add: history_hash_def history_env_view)

lemma history_env_eq_iff:
  "history_env L h = history_env L k \<longleftrightarrow>
     ah_chain h = ah_chain k \<and> ah_address h = ah_address k \<and>
     ah_settled_to_height h = ah_settled_to_height k \<and> settled_movements h = settled_movements k"
  by (auto simp: history_env_def json_object_inject movement_list_inject word_unat_eq_iff)

lemma history_hash_eq_iff:
  assumes "libs_ok L" and "no_collision L {preimage L (history_env L h), preimage L (history_env L k)}"
  shows "history_hash L h = history_hash L k \<longleftrightarrow> history_env L h = history_env L k"
proof
  assume "history_hash L h = history_hash L k"
  then have "content_id L (history_env L (history_view h)) = Inr (sha256 L (preimage L (history_env L k)))"
    "content_id L (history_env L (history_view k)) = Inr (sha256 L (preimage L (history_env L k)))"
    using history_hash_total [OF assms(1)] by (auto simp: history_hash_def history_env_view map_err_Inr)
  then have "history_view h = history_view k"
    by (rule history_identity.hash_determines [OF assms(1) history_view_canonical history_view_canonical])
      (simp add: history_env_view assms(2))
  then show "history_env L h = history_env L k" by (metis history_env_view)
qed (simp add: history_hash_def)

text \<open>With distinct sort keys the canonical order of the settled movements depends only on which
  movements they are.\<close>

lemma settled_movements_unique:
  assumes "settled_at height h = settled_at height k" and "distinct (map movement_key (settled_movements (clamp height h)))"
  shows "settled_movements (clamp height h) = settled_movements (clamp height k)"
proof -
  have "sort_key movement_key (settled_movements (clamp height h)) = settled_movements (clamp height k)"
    by (rule sort_key_inj_key_eq)
      (use assms in \<open>simp_all add: settled_movements_clamp distinct_map\<close>)
  then show ?thesis by (simp add: sort_key_id_if_sorted)
qed

lemma settled_distinct:
  assumes "distinct (map movement_key (filter (\<lambda>m. cm_block_height m \<le> ah_settled_to_height h) (ah_movements h)))"
  shows "distinct (map movement_key (settled_movements h))"
proof -
  have "mset (settled_movements h) = mset (filter (\<lambda>m. cm_block_height m \<le> ah_settled_to_height h) (ah_movements h))"
    by (simp add: settled_movements_mset)
  then have "mset (map movement_key (settled_movements h)) =
      mset (map movement_key (filter (\<lambda>m. cm_block_height m \<le> ah_settled_to_height h) (ah_movements h)))"
    by (simp only: mset_map)
  then show ?thesis using assms mset_eq_imp_distinct_iff by blast
qed

lemma settled_view_answer:
  "fst (cs_address_history s address height w) = Inr h \<Longrightarrow> fst (settled_view s address height n w) = Inr (clamp n h)"
  by (cases "cs_address_history s address height w") (simp add: settled_view_def)

lemma reconcile_answers:
  assumes "libs_ok L" and "cs_chain a = fp_chain p" and "cs_chain b = fp_chain p"
    and "fst (cs_address_history a address height wa) = Inr ha"
    and "fst (cs_address_history b address height wb) = Inr hb"
    and "no_collision L {preimage L (history_env L (clamp (settled_height p height) ha)),
      preimage L (history_env L (clamp (settled_height p height) hb))}"
  shows "\<exists>r. reconcile_sources L a b p address height wa wb = Inr r \<and>
    (recon_agreed r \<longleftrightarrow> ah_chain ha = ah_chain hb \<and> ah_address ha = ah_address hb \<and>
      settled_movements (clamp (settled_height p height) ha) = settled_movements (clamp (settled_height p height) hb)) \<and>
    (recon_agreed r \<longrightarrow> (\<exists>h. r = Agreed (clamp (settled_height p height) ha) h))"
  using history_hash_eq_iff [OF assms(1,6)] assms(2,3) settled_view_answer [OF assms(4)] settled_view_answer [OF assms(5)]
  by (simp add: reconcile_sources_def Let_def history_hash_total [OF assms(1)] history_env_eq_iff)

text \<open>A source that passes the gate gave the same settled history twice; the fixture source, whose
  answers do not depend on the world, always passes.\<close>

lemma gate_means_reproduced:
  assumes "libs_ok L" and "reproducibility_gate L s p address height w = (Inr h, w')"
  shows "\<exists>h1 w1 h2 w2. cs_address_history s address height w = (Inr h1, w1) \<and>
    cs_address_history s address height w1 = (Inr h2, w2) \<and>
    history_hash L (clamp (settled_height p height) h1) = Inr h \<and>
    history_hash L (clamp (settled_height p height) h2) = Inr h"
  using assms(2)
  by (auto simp: reproducibility_gate_def settled_view_def Let_def result_simps and_then_st_Inr
      history_hash_total [OF assms(1)] split: if_splits prod.splits sum.splits)

text \<open>
  The contract of a chain source: its answers do not depend on when it is asked, they are about one address on one
  chain, and the movements settled at a height are the same in every answer taken at that height or above.
\<close>

locale steady_source =
  fixes S :: "'w chain_source"
    and answer :: "string \<Rightarrow> u64 \<Rightarrow> address_history"
  assumes answers: "fst (cs_address_history S address height w) = Inr (answer address height)"
    and one_address: "ah_chain (answer address low) = ah_chain (answer address high)"
      "ah_address (answer address low) = ah_address (answer address high)"
    and settles: "n \<le> low \<Longrightarrow> n \<le> high \<Longrightarrow>
      settled_movements (clamp n (answer address low)) = settled_movements (clamp n (answer address high))"
begin

lemma answered: "\<exists>w'. cs_address_history S address height w = (Inr (answer address height), w')"
  using answers [of address height w] by (cases "cs_address_history S address height w") simp

lemma gate_passes:
  assumes "libs_ok L" and "cs_chain S = fp_chain p"
  shows "\<exists>w'. reproducibility_gate L S p address height w =
    (Inr (sha256 L (preimage L (history_env L (clamp (settled_height p height) (answer address height))))), w')"
proof -
  obtain w1 where w1: "cs_address_history S address height w = (Inr (answer address height), w1)" using answered by blast
  obtain w2 where "cs_address_history S address height w1 = (Inr (answer address height), w2)" using answered by blast
  with w1 show ?thesis
    using assms by (simp add: reproducibility_gate_def settled_view_def Let_def history_hash_total)
qed

lemma settled_hash:
  assumes "libs_ok L" and "n \<le> low" and "n \<le> high"
  shows "history_hash L (clamp n (answer address low)) = history_hash L (clamp n (answer address high))"
proof -
  have "history_env L (clamp n (answer address low)) = history_env L (clamp n (answer address high))"
    using one_address settles [OF assms(2,3)] by (simp add: history_env_eq_iff)
  then show ?thesis by (simp add: history_hash_total [OF assms(1)])
qed

end

text \<open>A source whose answers never grow, such as a fixture, shows the same settled movements at any two tips.\<close>

locale frozen_source = steady_source +
  assumes frozen: "settled_movements (clamp n (answer address low)) = settled_movements (clamp n (answer address high))"
begin

lemma frozen_hash:
  assumes "libs_ok L"
  shows "history_hash L (clamp n (answer address low)) = history_hash L (clamp n (answer address high))"
proof -
  have "history_env L (clamp n (answer address low)) = history_env L (clamp n (answer address high))"
    using one_address frozen by (simp add: history_env_eq_iff)
  then show ?thesis by (simp add: history_hash_total [OF assms])
qed

end

definition fx_answer :: "fixture_source \<Rightarrow> string \<Rightarrow> u64 \<Rightarrow> address_history" where
  "fx_answer s address height =
     (case hm_get (fx_histories s) address of
        None \<Rightarrow> \<lparr>ah_chain = fx_chain s, ah_address = address, ah_settled_to_height = height, ah_movements = []\<rparr>
      | Some h \<Rightarrow> h)"

interpretation fixture_src: frozen_source "fixture_chain_source s" "fx_answer s" for s
  by unfold_locales
    (auto simp: fixture_chain_source_def fx_address_history_def fx_answer_def settled_movements_def split: option.splits)

subsection \<open>Properties\<close>

definition demo_movement :: "string \<Rightarrow> int \<Rightarrow> u64 \<Rightarrow> chain_movement" where
  "demo_movement tx n height = \<lparr>cm_tx_ref = tx, cm_direction = ChainInflow, cm_amount = amount_new ''BTC'' n, cm_block_height = height\<rparr>"

definition demo_history :: "chain_movement list \<Rightarrow> address_history" where
  "demo_history ms = \<lparr>ah_chain = Bitcoin, ah_address = ''bc1q'', ah_settled_to_height = 0, ah_movements = ms\<rparr>"

definition demo_source :: "string \<Rightarrow> chain_movement list \<Rightarrow> unit chain_source" where
  "demo_source sid ms = fixture_chain_source (fx_with_history (demo_history ms) (fx_new Bitcoin sid))"

lemma demo_source_answer [simp]:
  "cs_chain (demo_source sid ms) = Bitcoin" "fst (cs_address_history (demo_source sid ms) ''bc1q'' height w) = Inr (demo_history ms)"
  by (simp_all add: demo_source_def fixture_chain_source_def fx_with_history_def fx_new_def fx_address_history_def demo_history_def)

definition demo_finality :: finality_policy where
  "demo_finality = \<lparr>fp_chain = Bitcoin, fp_rule = ConfirmationDepth 6\<rparr>"

lemma demo_finality_chain [simp]: "fp_chain demo_finality = Bitcoin"
  by (simp add: demo_finality_def)

text \<open>C18: Two sources on the policy's chain that both answer are always compared, and they agree exactly when
  their answers name the same chain and address and, at or below the settled height, list the same movements
  once sorted by height, transaction and direction, whatever they report above it. The sort is stable: movements
  that tie on all three keep the order of their source and have to come in the same order. When no two settled
  movements of the first answer tie, the order of the sources does not matter, and they agree exactly when the settled movements are
  the same collection. The agreed history is the first source's, clamped to the settled height. SHA-256 is assumed not
  to collide on the two envelopes.\<close>

theorem reconcile_agrees_iff:
  assumes "libs_ok L" and "cs_chain a = fp_chain p" and "cs_chain b = fp_chain p"
    and "fst (cs_address_history a address height wa) = Inr ha"
    and "fst (cs_address_history b address height wb) = Inr hb"
    and "no_collision L {preimage L (history_env L (clamp (settled_height p height) ha)),
      preimage L (history_env L (clamp (settled_height p height) hb))}"
  shows "\<exists>r. reconcile_sources L a b p address height wa wb = Inr r \<and>
    (recon_agreed r \<longleftrightarrow> ah_chain ha = ah_chain hb \<and> ah_address ha = ah_address hb \<and>
      sort_key movement_key (filter (\<lambda>m. cm_block_height m \<le> settled_height p height) (ah_movements ha)) =
      sort_key movement_key (filter (\<lambda>m. cm_block_height m \<le> settled_height p height) (ah_movements hb))) \<and>
    (distinct (map movement_key (filter (\<lambda>m. cm_block_height m \<le> settled_height p height) (ah_movements ha))) \<longrightarrow>
      (recon_agreed r \<longleftrightarrow> ah_chain ha = ah_chain hb \<and> ah_address ha = ah_address hb \<and>
        settled_at (settled_height p height) ha = settled_at (settled_height p height) hb)) \<and>
    (recon_agreed r \<longleftrightarrow> (\<exists>h. r = Agreed (clamp (settled_height p height) ha) h))"
proof -
  let ?s = "settled_height p height"
  have "settled_movements (clamp ?s ha) = settled_movements (clamp ?s hb) \<longleftrightarrow> settled_at ?s ha = settled_at ?s hb"
    if "distinct (map movement_key (filter (\<lambda>m. cm_block_height m \<le> ?s) (ah_movements ha)))"
  proof -
    have "distinct (map movement_key (settled_movements (clamp ?s ha)))"
      by (rule settled_distinct) (simp add: that)
    then show ?thesis
      using settled_movements_unique [of ?s ha hb] settled_movements_clamp [of ?s ha] settled_movements_clamp [of ?s hb]
      by auto
  qed
  with reconcile_answers [OF assms] show ?thesis by (auto simp: settled_movements_sort)
qed

theorem reconcile_agrees_iff_witness:
  "\<exists>r. reconcile_sources (demo_libs (\<lambda>_. hash_of_byte (CHR 0x07)))
     (demo_source ''core'' [demo_movement ''t1'' 5 90, demo_movement ''t2'' 7 80, demo_movement ''t3'' 1 99])
     (demo_source ''fulcrum'' [demo_movement ''t2'' 7 80, demo_movement ''t1'' 5 90])
     demo_finality ''bc1q'' 100 () () = Inr r \<and> recon_agreed r"
proof -
  let ?L = "demo_libs (\<lambda>_. hash_of_byte (CHR 0x07))" and ?a = "demo_history [demo_movement ''t1'' 5 90, demo_movement ''t2'' 7 80, demo_movement ''t3'' 1 99]"
    and ?b = "demo_history [demo_movement ''t2'' 7 80, demo_movement ''t1'' 5 90]"
  have s: "settled_height demo_finality 100 = 94" by (simp add: settled_height_def demo_finality_def u64_saturating_sub_def)
  have env: "history_env ?L (clamp 94 ?a) = history_env ?L (clamp 94 ?b)"
    by (simp add: history_env_eq_iff demo_history_def settled_movements_def ordered_movements_def demo_movement_def movement_key_def)
  have "\<exists>r. reconcile_sources ?L (demo_source ''core'' (ah_movements ?a)) (demo_source ''fulcrum'' (ah_movements ?b))
      demo_finality ''bc1q'' 100 () () = Inr r \<and>
    (recon_agreed r \<longleftrightarrow> ah_chain ?a = ah_chain ?b \<and> ah_address ?a = ah_address ?b \<and>
      sort_key movement_key (filter (\<lambda>m. cm_block_height m \<le> settled_height demo_finality 100) (ah_movements ?a)) =
      sort_key movement_key (filter (\<lambda>m. cm_block_height m \<le> settled_height demo_finality 100) (ah_movements ?b))) \<and>
    (distinct (map movement_key (filter (\<lambda>m. cm_block_height m \<le> settled_height demo_finality 100) (ah_movements ?a))) \<longrightarrow>
      (recon_agreed r \<longleftrightarrow> ah_chain ?a = ah_chain ?b \<and> ah_address ?a = ah_address ?b \<and>
        settled_at (settled_height demo_finality 100) ?a = settled_at (settled_height demo_finality 100) ?b)) \<and>
    (recon_agreed r \<longleftrightarrow> (\<exists>h. r = Agreed (clamp (settled_height demo_finality 100) ?a) h))"
    by (rule reconcile_agrees_iff)
      (simp_all add: s env no_collision_def demo_source_answer, simp_all add: demo_history_def)
  then show ?thesis
    by (auto simp: s settled_at_def demo_history_def demo_movement_def movement_key_def add_mset_commute)
qed

text \<open>Two settled movements that share height, transaction and direction but differ (a transaction
  paying the same address twice) keep the order in which the source listed them, so two sources that
  list the same movements in opposite order diverge.\<close>

theorem tied_movements_diverge:
  assumes "libs_ok L" and "movement_key m = movement_key n" and "m \<noteq> n"
    and "cm_block_height m \<le> settled_height p height"
    and "cs_chain a = fp_chain p" and "cs_chain b = fp_chain p"
    and "fst (cs_address_history a address height wa) = Inr (h\<lparr>ah_movements := [m, n]\<rparr>)"
    and "fst (cs_address_history b address height wb) = Inr (h\<lparr>ah_movements := [n, m]\<rparr>)"
    and "no_collision L {preimage L (history_env L (clamp (settled_height p height) (h\<lparr>ah_movements := [m, n]\<rparr>))),
      preimage L (history_env L (clamp (settled_height p height) (h\<lparr>ah_movements := [n, m]\<rparr>)))}"
  shows "\<exists>r. reconcile_sources L a b p address height wa wb = Inr r \<and> \<not> recon_agreed r"
proof -
  have "cm_block_height n = cm_block_height m" using assms(2) by (simp add: movement_key_def)
  then have "settled_movements (clamp (settled_height p height) (h\<lparr>ah_movements := [m, n]\<rparr>)) = [m, n]"
    "settled_movements (clamp (settled_height p height) (h\<lparr>ah_movements := [n, m]\<rparr>)) = [n, m]"
    using assms(2,4) by (simp_all add: settled_movements_def ordered_movements_def not_less)
  with reconcile_answers [OF assms(1,5-9)] assms(3) show ?thesis by auto
qed

theorem tied_movements_diverge_witness:
  "\<exists>L r. reconcile_sources L (demo_source ''core'' [demo_movement ''t1'' 5 90, demo_movement ''t1'' 7 90])
     (demo_source ''fulcrum'' [demo_movement ''t1'' 7 90, demo_movement ''t1'' 5 90])
     demo_finality ''bc1q'' 100 () () = Inr r \<and> \<not> recon_agreed r"
proof -
  let ?m = "demo_movement ''t1'' 5 90" and ?n = "demo_movement ''t1'' 7 90"
  let ?h = "\<lambda>ms. clamp (settled_height demo_finality 100) ((demo_history [])\<lparr>ah_movements := ms\<rparr>)"
  let ?L = "telling_libs (history_env (demo_libs (\<lambda>_. hash_of_byte (CHR 0x00))) (?h [?m, ?n]))"
  have "\<exists>r. reconcile_sources ?L (demo_source ''core'' [?m, ?n]) (demo_source ''fulcrum'' [?n, ?m])
      demo_finality ''bc1q'' 100 () () = Inr r \<and> \<not> recon_agreed r"
  proof (rule tied_movements_diverge [where m = ?m and n = ?n and h = "demo_history []"])
    show "no_collision ?L {preimage ?L (history_env ?L (?h [?m, ?n])), preimage ?L (history_env ?L (?h [?n, ?m]))}"
      using telling_libs_no_collision by (simp add: history_env_def)
  qed (simp_all add: demo_history_def,
    simp_all add: demo_movement_def movement_key_def settled_height_def demo_finality_def u64_saturating_sub_def)
  then show ?thesis by blast
qed

end
