(* ===== verification/Ingest.thy ===== *)
theory Ingest
  imports Event "HOL-Library.Sublist"
begin

section \<open>Read-only ingestion (treasury-ingest)\<close>

text \<open>
  Models \<open>crates/treasury-ingest/src/allowlist.rs\<close> and \<open>scope.rs\<close>: sealed egress allowlists with
  their content hash and the deny-by-default decision, and the validation of key scopes. Strings are
  UTF-8 byte sequences, on which \<open>starts_with\<close> is the prefix relation. The lemmas show which
  allowlists can be sealed, that a request leaves exactly through the first matching entry, that
  a method that is not read-only leaves only with a written justification, that the artifact hash
  determines the allowlist, and that scope validation accepts non-empty lists of reads only.
\<close>

subsection \<open>Allowlists\<close>

datatype http_method = Get | Head | Post

fun is_read :: "http_method \<Rightarrow> bool" where
  "is_read Get = True"
| "is_read Head = True"
| "is_read Post = False"

datatype path_pattern = Exact string | Prefix string

fun pattern_matches :: "path_pattern \<Rightarrow> string \<Rightarrow> bool" where
  "pattern_matches (Exact p) pth = (pth = p)"
| "pattern_matches (Prefix p) pth = prefix p pth"

record allowlist_entry =
  ae_venue :: venue_id
  ae_method :: http_method
  ae_pattern :: path_pattern
  ae_justification :: "string option"

record egress_allowlist =
  ea_entries :: "allowlist_entry list"
  ea_approvers :: "actor_id list"
  ea_allowlist_hash :: content_hash

datatype egress_decision = Allow nat | Deny

datatype allowlist_error = AllowlistNoApprovers | UnjustifiedNonReadMethod nat | AllowlistCanon canon_error

definition allowlist_schema :: string where
  "allowlist_schema = ''treasury-ingest/allowlist/v1''"

fun http_method_json :: "http_method \<Rightarrow> json" where
  "http_method_json Get = JString ''GET''"
| "http_method_json Head = JString ''HEAD''"
| "http_method_json Post = JString ''POST''"

fun pattern_json :: "path_pattern \<Rightarrow> json" where
  "pattern_json (Exact p) = json_object [(''match'', JString ''exact''), (''path'', JString p)]"
| "pattern_json (Prefix p) = json_object [(''match'', JString ''prefix''), (''path'', JString p)]"

definition egress_entry_json :: "allowlist_entry \<Rightarrow> json" where
  "egress_entry_json e = json_object [
     (''venue'', JString (ae_venue e)),
     (''method'', http_method_json (ae_method e)),
     (''pattern'', pattern_json (ae_pattern e)),
     (''justification'', json_option JString (ae_justification e))]"

definition allowlist_env :: "libs \<Rightarrow> allowlist_entry list \<times> actor_id list \<Rightarrow> json" where
  "allowlist_env L x = json_object [
     (''schema'', JString allowlist_schema),
     (''entries'', JArray (map egress_entry_json (fst x))),
     (''approvers'', JArray (map JString (snd x)))]"

definition justified :: "allowlist_entry \<Rightarrow> bool" where
  "justified e = (case ae_justification e of None \<Rightarrow> False | Some j \<Rightarrow> j \<noteq> [])"

text \<open>The loop over the enumerated entries, from index \<open>i\<close> on.\<close>

fun check_entries :: "nat \<Rightarrow> allowlist_entry list \<Rightarrow> (allowlist_error, unit) result" where
  "check_entries i [] = Inr ()"
| "check_entries i (e # es) =
     (if \<not> is_read (ae_method e) \<and> \<not> justified e then Inl (UnjustifiedNonReadMethod i)
      else check_entries (i + 1) es)"

definition ea_seal :: "libs \<Rightarrow> allowlist_entry list \<Rightarrow> actor_id list \<Rightarrow> (allowlist_error, egress_allowlist) result" where
  "ea_seal L entries approvers =
     (if approvers = [] then Inl AllowlistNoApprovers
      else and_then (check_entries 0 entries) (\<lambda>_.
        and_then (map_err AllowlistCanon (content_id L (allowlist_env L (entries, approvers)))) (\<lambda>h.
          Inr \<lparr>ea_entries = entries, ea_approvers = approvers, ea_allowlist_hash = h\<rparr>)))"

definition entry_matches :: "venue_id \<Rightarrow> http_method \<Rightarrow> string \<Rightarrow> allowlist_entry \<Rightarrow> bool" where
  "entry_matches venue meth pth e \<longleftrightarrow>
     ae_venue e = venue \<and> ae_method e = meth \<and> pattern_matches (ae_pattern e) pth"

fun decide_from :: "nat \<Rightarrow> allowlist_entry list \<Rightarrow> venue_id \<Rightarrow> http_method \<Rightarrow> string \<Rightarrow> egress_decision" where
  "decide_from i [] venue meth pth = Deny"
| "decide_from i (e # es) venue meth pth =
     (if entry_matches venue meth pth e then Allow i else decide_from (i + 1) es venue meth pth)"

definition ea_decide :: "egress_allowlist \<Rightarrow> venue_id \<Rightarrow> http_method \<Rightarrow> string \<Rightarrow> egress_decision" where
  "ea_decide a venue meth pth = decide_from 0 (ea_entries a) venue meth pth"

subsection \<open>Key scopes\<close>

datatype scope_claim = ReadScope | TradeScope | WithdrawScope | TransferScope | UnknownScope string

record scope_violation =
  sv_venue :: venue_id
  sv_claim :: scope_claim

datatype scope_decision = Accept | Reject "scope_violation list"

definition validate_scopes :: "venue_id \<Rightarrow> scope_claim list \<Rightarrow> scope_decision" where
  "validate_scopes venue claims =
     (if claims = [] then Reject [\<lparr>sv_venue = venue, sv_claim = UnknownScope ''empty scope report''\<rparr>]
      else
        let violations = map (\<lambda>c. \<lparr>sv_venue = venue, sv_claim = c\<rparr>) (filter (\<lambda>c. c \<noteq> ReadScope) claims) in
        if violations = [] then Accept else Reject violations)"

subsection \<open>Identity\<close>

lemma method_json_simps [simp]: "json_ok k (http_method_json m)" "http_method_json m = http_method_json n \<longleftrightarrow> m = n"
  by (cases m; simp) (cases m; cases n; simp)

lemma pattern_json_simps [simp]: "json_ok (Suc k) (pattern_json m)" "pattern_json m = pattern_json n \<longleftrightarrow> m = n"
  by (cases m; simp) (cases m; cases n; simp add: json_object_inject)

lemma egress_entry_json_simps [simp]:
  "json_ok (Suc (Suc k)) (egress_entry_json e)" "egress_entry_json e = egress_entry_json f \<longleftrightarrow> e = f"
  by (simp add: egress_entry_json_def) (cases e; cases f; simp add: egress_entry_json_def json_object_inject)

lemma entry_list_inject: "map egress_entry_json xs = map egress_entry_json ys \<longleftrightarrow> xs = ys"
  by (simp add: inj_map_eq_map inj_def)

interpretation allowlist_identity: artifact allowlist_env "\<lambda>x. True"
proof
  fix x y :: "allowlist_entry list \<times> actor_id list" and L
  show "json_ok max_depth (allowlist_env L x)" by (rule json_ok_shallow) (simp add: allowlist_env_def)
  show "libs_ok L \<Longrightarrow> allowlist_env L x = allowlist_env L y \<Longrightarrow> x = y"
    by (cases x; cases y) (simp add: allowlist_env_def json_object_inject entry_list_inject JString_list_inject)
qed

subsection \<open>Sealing and deciding\<close>

lemma check_entries_Inr:
  "check_entries i es = Inr u \<longleftrightarrow> list_all (\<lambda>e. is_read (ae_method e) \<or> justified e) es"
  by (induction i es rule: check_entries.induct) auto

lemma check_entries_first:
  "check_entries i es = Inl e \<Longrightarrow>
     \<exists>k < length es. e = UnjustifiedNonReadMethod (i + k) \<and> \<not> is_read (ae_method (es ! k)) \<and> \<not> justified (es ! k) \<and>
       list_all (\<lambda>e. is_read (ae_method e) \<or> justified e) (take k es)"
proof (induction i es rule: check_entries.induct)
  case (2 i x xs)
  show ?case
  proof (cases "\<not> is_read (ae_method x) \<and> \<not> justified x")
    case True
    with 2 show ?thesis by (intro exI [of _ 0]) simp
  next
    case False
    with 2 obtain k where k: "k < length xs" "e = UnjustifiedNonReadMethod (i + 1 + k)"
      "\<not> is_read (ae_method (xs ! k))" "\<not> justified (xs ! k)"
      "list_all (\<lambda>e. is_read (ae_method e) \<or> justified e) (take k xs)" by auto
    with False show ?thesis by (intro exI [of _ "Suc k"]) auto
  qed
qed simp

lemma ea_seal_Inr:
  assumes "libs_ok L"
  shows "ea_seal L entries approvers = Inr a \<longleftrightarrow>
    approvers \<noteq> [] \<and> list_all (\<lambda>e. is_read (ae_method e) \<or> justified e) entries \<and>
    a = \<lparr>ea_entries = entries, ea_approvers = approvers,
      ea_allowlist_hash = sha256 L (preimage L (allowlist_env L (entries, approvers)))\<rparr>"
  using allowlist_identity.hash_total [OF assms, of "(entries, approvers)"]
  by (auto simp: ea_seal_def result_simps check_entries_Inr)

lemma decide_from_Allow:
  "decide_from i es venue meth pth = Allow n \<longleftrightarrow>
     (\<exists>k < length es. n = i + k \<and> entry_matches venue meth pth (es ! k) \<and>
        list_all (\<lambda>e. \<not> entry_matches venue meth pth e) (take k es))"
  by (induction i es venue meth pth rule: decide_from.induct) (auto simp: less_Suc_eq_0_disj)

lemma decide_from_Deny:
  "decide_from i es venue meth pth = Deny \<longleftrightarrow> list_all (\<lambda>e. \<not> entry_matches venue meth pth e) es"
  by (induction i es venue meth pth rule: decide_from.induct) auto

lemma validate_scopes_Accept:
  "validate_scopes venue claims = Accept \<longleftrightarrow> claims \<noteq> [] \<and> set claims \<subseteq> {ReadScope}"
  by (auto simp: validate_scopes_def Let_def filter_empty_conv)

lemma violations_iff:
  "vs = map (\<lambda>c. \<lparr>sv_venue = venue, sv_claim = c\<rparr>) cs \<longleftrightarrow>
     map sv_claim vs = cs \<and> list_all (\<lambda>v. sv_venue v = venue) vs" (is "_ = map ?mk _ \<longleftrightarrow> _")
proof
  assume "map sv_claim vs = cs \<and> list_all (\<lambda>v. sv_venue v = venue) vs"
  moreover from this have "map (\<lambda>v. ?mk (sv_claim v)) vs = vs" by (intro map_idI) (auto simp: list_all_iff)
  ultimately show "vs = map ?mk cs" by (auto simp: comp_def)
qed (auto simp: list_all_iff comp_def)

lemma validate_scopes_Reject:
  "validate_scopes venue claims = Reject vs \<longleftrightarrow>
     vs = map (\<lambda>c. \<lparr>sv_venue = venue, sv_claim = c\<rparr>)
       (if claims = [] then [UnknownScope ''empty scope report''] else filter (\<lambda>c. c \<noteq> ReadScope) claims) \<and> vs \<noteq> []"
  by (auto simp: validate_scopes_def Let_def filter_empty_conv)

subsection \<open>Properties\<close>

definition demo_entries :: "allowlist_entry list" where
  "demo_entries = [
     \<lparr>ae_venue = ''kraken'', ae_method = Get, ae_pattern = Prefix ''/0/public/'', ae_justification = None\<rparr>,
     \<lparr>ae_venue = ''kraken'', ae_method = Post, ae_pattern = Exact ''/0/private/Ledgers'',
      ae_justification = Some ''authenticated history is served over POST''\<rparr>]"

text \<open>C29: Egress is denied by default: an allowlist seals exactly when somebody approved it and every entry
  with a method that is not read-only carries a justification; a request leaves exactly through the
  first entry that matches it, and a POST only through a justified entry; and two sealed allowlists with
  the same hash are the same allowlist, unless SHA-256 collides on their envelopes.\<close>

theorem egress_denied_by_default:
  assumes "libs_ok L" and "ea_seal L entries approvers = Inr a" and "ea_seal L entries' approvers' = Inr a'"
    and "no_collision L {preimage L (allowlist_env L (entries, approvers)), preimage L (allowlist_env L (entries', approvers'))}"
  shows "approvers \<noteq> [] \<and>
    (ea_decide a venue meth pth = Deny \<longleftrightarrow> list_all (\<lambda>e. \<not> entry_matches venue meth pth e) entries) \<and>
    (ea_decide a venue meth pth = Allow i \<longleftrightarrow>
       i < length entries \<and> entry_matches venue meth pth (entries ! i) \<and>
       list_all (\<lambda>e. \<not> entry_matches venue meth pth e) (take i entries)) \<and>
    (ea_decide a venue Post pth = Allow j \<longrightarrow> (\<exists>why. ae_justification (entries ! j) = Some why \<and> why \<noteq> [])) \<and>
    (ea_allowlist_hash a = ea_allowlist_hash a' \<longrightarrow> a = a')"
proof -
  note seal = ea_seal_Inr [OF assms(1), THEN iffD1, OF assms(2)]
    and seal' = ea_seal_Inr [OF assms(1), THEN iffD1, OF assms(3)]
  have entries: "ea_entries a = entries" using seal by simp
  have post: "\<exists>why. ae_justification (entries ! j) = Some why \<and> why \<noteq> []" if "ea_decide a venue Post pth = Allow j"
  proof -
    from that have "j < length entries" "ae_method (entries ! j) = Post"
      by (auto simp: ea_decide_def entries decide_from_Allow entry_matches_def)
    with seal have "justified (entries ! j)" by (auto simp: list_all_length)
    then show ?thesis by (auto simp: justified_def split: option.splits)
  qed
  have "a = a'" if "ea_allowlist_hash a = ea_allowlist_hash a'"
  proof -
    have "(entries, approvers) = (entries', approvers')"
      by (rule allowlist_identity.hash_determines [OF assms(1) _ _ _ _ assms(4), of "ea_allowlist_hash a"])
        (use seal seal' that in \<open>simp_all add: allowlist_identity.hash_total [OF assms(1)]\<close>)
    with seal seal' show ?thesis by simp
  qed
  with seal post show ?thesis by (auto simp: ea_decide_def entries decide_from_Deny decide_from_Allow)
qed

theorem egress_denied_by_default_witness:
  "\<exists>a. ea_seal (demo_libs (\<lambda>_. hash_of_byte (CHR 0x07))) demo_entries [''cfo''] = Inr a \<and>
     ea_decide a ''kraken'' Post ''/0/private/Ledgers'' = Allow 1 \<and>
     ea_decide a ''kraken'' Post ''/0/private/Withdraw'' = Deny"
proof -
  let ?L = "demo_libs (\<lambda>_. hash_of_byte (CHR 0x07))"
  obtain a where a: "ea_seal ?L demo_entries [''cfo''] = Inr a"
    by (simp add: ea_seal_Inr demo_entries_def justified_def)
  have same: "no_collision ?L {preimage ?L (allowlist_env ?L (demo_entries, [''cfo''])),
      preimage ?L (allowlist_env ?L (demo_entries, [''cfo'']))}"
    by (simp add: no_collision_def)
  note rule = egress_denied_by_default [OF demo_libs_ok a a same]
  have "ea_decide a ''kraken'' Post ''/0/private/Ledgers'' = Allow 1"
    using rule [of "''kraken''" Post "''/0/private/Ledgers''" 1] by (simp add: demo_entries_def entry_matches_def)
  moreover have "ea_decide a ''kraken'' Post ''/0/private/Withdraw'' = Deny"
    using rule [of "''kraken''" Post "''/0/private/Withdraw''"] by (simp add: demo_entries_def entry_matches_def)
  ultimately show ?thesis using a by blast
qed

text \<open>Scope validation fails closed: a key is accepted exactly when the venue reported at least one
  scope and every one of them is a read; a rejection names the venue with every claim that is not a
  read, in the order reported, and never an empty list.\<close>

theorem scopes_fail_closed:
  "(validate_scopes venue claims = Accept \<longleftrightarrow> claims \<noteq> [] \<and> set claims = {ReadScope}) \<and>
   (validate_scopes venue claims = Reject vs \<longleftrightarrow>
      map sv_claim vs = (if claims = [] then [UnknownScope ''empty scope report''] else filter (\<lambda>c. c \<noteq> ReadScope) claims) \<and>
      list_all (\<lambda>v. sv_venue v = venue) vs \<and> vs \<noteq> [])"
  unfolding validate_scopes_Reject violations_iff validate_scopes_Accept
  by (cases claims) auto

end
