(* ===== verification/Corpus.thy ===== *)
theory Corpus
  imports Matcher
begin

section \<open>Labelled corpora and service levels (treasury-reconcile)\<close>

text \<open>
  Models \<open>crates/treasury-reconcile/src/corpus.rs\<close> and \<open>synthetic.rs\<close>: content-addressed corpora of
  labelled cases, their evaluation under a matcher configuration with saturating 64-bit counters,
  exact ratios compared by cross-multiplication, the service-level check, and the synthetic baseline.
  A \<open>BTreeSet\<close> is a set where it is only searched and the sorted list of its elements where it is
  iterated. The lemmas show that every counter is the exact count cut off at the top of its
  range, that the counts of a case add up to its labelled pairs, and what the service levels mean of
  the netted pairs.
\<close>

subsection \<open>Corpora\<close>

record expected_net =
  en_out_leg :: leg_id
  en_in_leg :: leg_id

record labeled_case =
  lc_name :: string
  lc_legs :: "transfer_leg list"
  lc_expected_nets :: "expected_net list"

record corpus =
  co_cases :: "labeled_case list"

definition corpus_schema :: string where
  "corpus_schema = ''treasury-reconcile/corpus/v1''"

definition report_schema :: string where
  "report_schema = ''treasury-reconcile/slo-report/v1''"

fun leg_direction_json :: "direction \<Rightarrow> json" where
  "leg_direction_json Outflow = JString ''outflow''"
| "leg_direction_json Inflow = JString ''inflow''"

definition leg_json :: "libs \<Rightarrow> transfer_leg \<Rightarrow> json" where
  "leg_json L l = json_object [
     (''leg_id'', hash_json L (tl_leg_id l)),
     (''tenant'', JString (tl_tenant l)),
     (''venue'', JString (tl_venue l)),
     (''direction'', leg_direction_json (tl_direction l)),
     (''amount'', amount_json (tl_amount l)),
     (''fee'', json_option amount_json (tl_fee l)),
     (''tx_hash'', json_option JString (tl_tx_hash l)),
     (''address'', json_option JString (tl_address l)),
     (''event_time'', time_json (tl_event_time l))]"

definition net_json :: "libs \<Rightarrow> expected_net \<Rightarrow> json" where
  "net_json L e = json_object [(''out_leg'', hash_json L (en_out_leg e)), (''in_leg'', hash_json L (en_in_leg e))]"

definition case_json :: "libs \<Rightarrow> labeled_case \<Rightarrow> json" where
  "case_json L c = json_object [
     (''name'', JString (lc_name c)),
     (''legs'', JArray (map (leg_json L) (lc_legs c))),
     (''expected_nets'', JArray (map (net_json L) (lc_expected_nets c)))]"

definition corpus_env :: "libs \<Rightarrow> corpus \<Rightarrow> json" where
  "corpus_env L c = json_object [
     (''schema'', JString corpus_schema),
     (''cases'', JArray (map (case_json L) (co_cases c)))]"

definition corpus_hash :: "libs \<Rightarrow> corpus \<Rightarrow> (match_error, content_hash) result" where
  "corpus_hash L c = map_err MatchCanon (content_id L (corpus_env L c))"

subsection \<open>Ratios and reports\<close>

record ratio =
  ra_numerator :: u64
  ra_denominator :: u64

text \<open>The products of two 64-bit numbers, in saturating 128-bit arithmetic.\<close>

definition u128_saturating_mul :: "nat \<Rightarrow> nat \<Rightarrow> nat" where
  "u128_saturating_mul a b = min (a * b) (2 ^ 128 - 1)"

definition at_least :: "ratio \<Rightarrow> ratio \<Rightarrow> bool" where
  "at_least r other =
     (let left = u128_saturating_mul (unat (ra_numerator r)) (unat (ra_denominator other));
          right = u128_saturating_mul (unat (ra_numerator other)) (unat (ra_denominator r)) in
      right \<le> left)"

record case_result =
  cr_name :: string
  cr_auto_tp :: u64
  cr_auto_fp :: u64
  cr_queued_expected :: u64
  cr_queued_unexpected :: u64
  cr_missed :: u64

record corpus_report =
  rp_corpus_hash :: content_hash
  rp_config_hash :: content_hash
  rp_per_case :: "case_result list"
  rp_auto_tp :: u64
  rp_auto_fp :: u64
  rp_queued_expected :: u64
  rp_queued_unexpected :: u64
  rp_missed :: u64

definition auto_precision :: "corpus_report \<Rightarrow> ratio" where
  "auto_precision r =
     (let denominator = u64_saturating_add (rp_auto_tp r) (rp_auto_fp r) in
      if denominator = 0 then \<lparr>ra_numerator = 1, ra_denominator = 1\<rparr>
      else \<lparr>ra_numerator = rp_auto_tp r, ra_denominator = denominator\<rparr>)"

definition found_recall :: "corpus_report \<Rightarrow> ratio" where
  "found_recall r =
     (let found = u64_saturating_add (rp_auto_tp r) (rp_queued_expected r);
          all = u64_saturating_add found (rp_missed r) in
      if all = 0 then \<lparr>ra_numerator = 1, ra_denominator = 1\<rparr>
      else \<lparr>ra_numerator = found, ra_denominator = all\<rparr>)"

abbreviation count_json :: "u64 \<Rightarrow> json" where
  "count_json n \<equiv> JNumber (PosInt n)"

definition result_json :: "case_result \<Rightarrow> json" where
  "result_json r = json_object [
     (''name'', JString (cr_name r)),
     (''auto_tp'', count_json (cr_auto_tp r)),
     (''auto_fp'', count_json (cr_auto_fp r)),
     (''queued_expected'', count_json (cr_queued_expected r)),
     (''queued_unexpected'', count_json (cr_queued_unexpected r)),
     (''missed'', count_json (cr_missed r))]"

definition report_json :: "libs \<Rightarrow> corpus_report \<Rightarrow> json" where
  "report_json L r = json_object [
     (''corpus_hash'', hash_json L (rp_corpus_hash r)),
     (''config_hash'', hash_json L (rp_config_hash r)),
     (''per_case'', JArray (map result_json (rp_per_case r))),
     (''auto_tp'', count_json (rp_auto_tp r)),
     (''auto_fp'', count_json (rp_auto_fp r)),
     (''queued_expected'', count_json (rp_queued_expected r)),
     (''queued_unexpected'', count_json (rp_queued_unexpected r)),
     (''missed'', count_json (rp_missed r))]"

definition report_env :: "libs \<Rightarrow> corpus_report \<Rightarrow> json" where
  "report_env L r = json_object [(''schema'', JString report_schema), (''report'', report_json L r)]"

definition report_hash :: "libs \<Rightarrow> corpus_report \<Rightarrow> (match_error, content_hash) result" where
  "report_hash L r = map_err MatchCanon (content_id L (report_env L r))"

subsection \<open>Service levels\<close>

record slo_targets =
  st_min_auto_precision :: ratio
  st_min_found_recall :: ratio
  st_max_missed :: u64

datatype slo_violation = SloAutoPrecision ratio | SloFoundRecall ratio | SloMissed u64

definition slo_check :: "corpus_report \<Rightarrow> slo_targets \<Rightarrow> slo_violation list" where
  "slo_check report targets =
     (if \<not> at_least (auto_precision report) (st_min_auto_precision targets) then [SloAutoPrecision (auto_precision report)] else []) @
     (if \<not> at_least (found_recall report) (st_min_found_recall targets) then [SloFoundRecall (found_recall report)] else []) @
     (if rp_missed report > st_max_missed targets then [SloMissed (rp_missed report)] else [])"

subsection \<open>Evaluation\<close>

definition zero_result :: "string \<Rightarrow> case_result" where
  "zero_result name = \<lparr>cr_name = name, cr_auto_tp = 0, cr_auto_fp = 0, cr_queued_expected = 0,
     cr_queued_unexpected = 0, cr_missed = 0\<rparr>"

definition count_proposal :: "(leg_id \<times> leg_id) set \<Rightarrow> match_proposal \<Rightarrow> case_result \<Rightarrow> case_result" where
  "count_proposal expected proposal r =
     (let is_expected = (mp_out_leg proposal, mp_in_leg proposal) \<in> expected in
      case (mp_disposition proposal, is_expected) of
        (AutoNet, True) \<Rightarrow> r\<lparr>cr_auto_tp := u64_saturating_add (cr_auto_tp r) 1\<rparr>
      | (AutoNet, False) \<Rightarrow> r\<lparr>cr_auto_fp := u64_saturating_add (cr_auto_fp r) 1\<rparr>
      | (Queue, True) \<Rightarrow> r\<lparr>cr_queued_expected := u64_saturating_add (cr_queued_expected r) 1\<rparr>
      | (Queue, False) \<Rightarrow> r\<lparr>cr_queued_unexpected := u64_saturating_add (cr_queued_unexpected r) 1\<rparr>)"

definition count_missed :: "(leg_id \<times> leg_id) set \<Rightarrow> (leg_id \<times> leg_id) \<Rightarrow> case_result \<Rightarrow> case_result" where
  "count_missed surfaced pair r =
     (if pair \<notin> surfaced then r\<lparr>cr_missed := u64_saturating_add (cr_missed r) 1\<rparr> else r)"

definition expected_pairs :: "labeled_case \<Rightarrow> (leg_id \<times> leg_id) list" where
  "expected_pairs c = remdups (sort (map (\<lambda>e. (en_out_leg e, en_in_leg e)) (lc_expected_nets c)))"

definition case_counts :: "labeled_case \<Rightarrow> match_proposal list \<Rightarrow> case_result" where
  "case_counts c proposals =
     fold (count_missed (set (map (\<lambda>p. (mp_out_leg p, mp_in_leg p)) proposals))) (expected_pairs c)
       (fold (count_proposal (set (expected_pairs c))) proposals (zero_result (lc_name c)))"

definition add_totals :: "case_result \<Rightarrow> case_result \<Rightarrow> case_result" where
  "add_totals totals r = totals\<lparr>
     cr_auto_tp := u64_saturating_add (cr_auto_tp totals) (cr_auto_tp r),
     cr_auto_fp := u64_saturating_add (cr_auto_fp totals) (cr_auto_fp r),
     cr_queued_expected := u64_saturating_add (cr_queued_expected totals) (cr_queued_expected r),
     cr_queued_unexpected := u64_saturating_add (cr_queued_unexpected totals) (cr_queued_unexpected r),
     cr_missed := u64_saturating_add (cr_missed totals) (cr_missed r)\<rparr>"

fun evaluate_cases :: "libs \<Rightarrow> matcher_config \<Rightarrow> labeled_case list \<Rightarrow> case_result list \<times> case_result
  \<Rightarrow> (match_error, case_result list \<times> case_result) result" where
  "evaluate_cases L config [] acc = Inr acc"
| "evaluate_cases L config (c # cs) (per_case, totals) =
     and_then (match_legs L (lc_legs c) config) (\<lambda>outcome.
       let r = case_counts c (mo_proposals outcome) in
       evaluate_cases L config cs (per_case @ [r], add_totals totals r))"

definition evaluate :: "libs \<Rightarrow> corpus \<Rightarrow> matcher_config \<Rightarrow> (match_error, corpus_report) result" where
  "evaluate L c config =
     and_then (corpus_hash L c) (\<lambda>ch.
     and_then (map_err MatchCanon (config_hash L config)) (\<lambda>cfh.
     and_then (evaluate_cases L config (co_cases c) ([], zero_result [])) (\<lambda>(per_case, totals). Inr
       \<lparr>rp_corpus_hash = ch, rp_config_hash = cfh, rp_per_case = per_case,
        rp_auto_tp = cr_auto_tp totals, rp_auto_fp = cr_auto_fp totals,
        rp_queued_expected = cr_queued_expected totals, rp_queued_unexpected = cr_queued_unexpected totals,
        rp_missed = cr_missed totals\<rparr>)))"

subsection \<open>The synthetic baseline\<close>

definition btc :: "int \<Rightarrow> asset_amount" where
  "btc atoms = amount_new ''BTC'' atoms"

definition syn_leg :: "nat \<Rightarrow> direction \<Rightarrow> int \<Rightarrow> timestamp_ns \<Rightarrow> transfer_leg" where
  "syn_leg i dir atoms time = \<lparr>tl_leg_id = hash_of_byte (char_of i), tl_tenant = ''corpus-tenant'', tl_venue = ''venue'',
     tl_direction = dir, tl_amount = btc atoms, tl_fee = None, tl_tx_hash = None, tl_address = None, tl_event_time = time\<rparr>"

definition syn_pair :: "nat \<Rightarrow> nat \<Rightarrow> expected_net" where
  "syn_pair out inn = \<lparr>en_out_leg = hash_of_byte (char_of out), en_in_leg = hash_of_byte (char_of inn)\<rparr>"

definition synthetic_baseline :: corpus where
  "synthetic_baseline = \<lparr>co_cases = [
     \<lparr>lc_name = ''clean_tier0'',
      lc_legs = [(syn_leg 1 Outflow 50000 10)\<lparr>tl_tx_hash := Some ''tx-clean''\<rparr>,
                 (syn_leg 2 Inflow 49900 30)\<lparr>tl_tx_hash := Some ''tx-clean''\<rparr>],
      lc_expected_nets = [syn_pair 1 2]\<rparr>,
     \<lparr>lc_name = ''fee_on_transfer'',
      lc_legs = [(syn_leg 3 Outflow 50000 10)\<lparr>tl_fee := Some (btc 500), tl_address := Some ''bc1q-dest''\<rparr>,
                 (syn_leg 4 Inflow 49500 400)\<lparr>tl_address := Some ''bc1q-dest''\<rparr>],
      lc_expected_nets = [syn_pair 3 4]\<rparr>,
     \<lparr>lc_name = ''material_transfer_queues'',
      lc_legs = [(syn_leg 5 Outflow 5000000 10)\<lparr>tl_address := Some ''bc1q-big''\<rparr>,
                 (syn_leg 6 Inflow 5000000 400)\<lparr>tl_address := Some ''bc1q-big''\<rparr>],
      lc_expected_nets = [syn_pair 5 6]\<rparr>,
     \<lparr>lc_name = ''batched_withdrawal_known_miss'',
      lc_legs = [syn_leg 7 Outflow 1000000 10, syn_leg 8 Inflow 600000 200, syn_leg 9 Inflow 400000 220],
      lc_expected_nets = [syn_pair 7 8, syn_pair 7 9]\<rparr>,
     \<lparr>lc_name = ''exchange_internal_queues'',
      lc_legs = [syn_leg 10 Outflow 75000 10, syn_leg 11 Inflow 75000 300],
      lc_expected_nets = [syn_pair 10 11]\<rparr>,
     \<lparr>lc_name = ''decoy_same_amount'',
      lc_legs = [syn_leg 12 Outflow 33000 10, syn_leg 13 Inflow 33000 200],
      lc_expected_nets = []\<rparr>,
     \<lparr>lc_name = ''ambiguous_twins_queue'',
      lc_legs = [(syn_leg 14 Outflow 20000 10)\<lparr>tl_address := Some ''bc1q-amb''\<rparr>,
                 (syn_leg 15 Inflow 20000 100)\<lparr>tl_address := Some ''bc1q-amb''\<rparr>,
                 (syn_leg 16 Inflow 20000 150)\<lparr>tl_address := Some ''bc1q-amb''\<rparr>],
      lc_expected_nets = [syn_pair 14 15]\<rparr>]\<rparr>"

subsection \<open>Identity\<close>

lemma leg_direction_json_simps [simp]:
  "json_ok k (leg_direction_json d)" "leg_direction_json d = leg_direction_json e \<longleftrightarrow> d = e"
  by (cases d; simp) (cases d; cases e; simp)

lemma leg_json_ok [simp]: "json_ok (Suc (Suc k)) (leg_json L l)"
  by (simp add: leg_json_def json_option_def split: option.split)

lemma net_json_ok [simp]: "json_ok (Suc k) (net_json L e)"
  by (simp add: net_json_def)

lemma case_json_ok [simp]: "json_ok (Suc (Suc (Suc (Suc k)))) (case_json L c)"
  by (simp add: case_json_def)

lemma amount_json_not_null [simp]: "amount_json a \<noteq> JNull"
  by (simp add: amount_json_def Let_def json_object_def)

lemma leg_json_inject [simp]: "libs_ok L \<Longrightarrow> leg_json L l = leg_json L m \<longleftrightarrow> l = m"
  by (cases l; cases m)
    (simp add: leg_json_def json_object_inject)

lemma net_json_inject [simp]: "libs_ok L \<Longrightarrow> net_json L e = net_json L f \<longleftrightarrow> e = f"
  by (cases e; cases f) (simp add: net_json_def json_object_inject)

lemma case_json_inject [simp]: "libs_ok L \<Longrightarrow> case_json L c = case_json L d \<longleftrightarrow> c = d"
  by (cases c; cases d) (simp add: case_json_def json_object_inject inj_map_eq_map inj_def)

interpretation corpus_identity: artifact corpus_env "\<lambda>c. True"
proof
  fix x y :: corpus and L
  show "json_ok max_depth (corpus_env L x)" by (rule json_ok_shallow) (simp add: corpus_env_def)
  show "libs_ok L \<Longrightarrow> corpus_env L x = corpus_env L y \<Longrightarrow> x = y"
    by (cases x; cases y) (simp add: corpus_env_def json_object_inject inj_map_eq_map inj_def)
qed

lemma result_json_simps [simp]: "json_ok (Suc k) (result_json r)" "result_json r = result_json s \<longleftrightarrow> r = s"
  by (simp add: result_json_def) (cases r; cases s; simp add: result_json_def json_object_inject)

lemma report_json_simps [simp]:
  "json_ok (Suc (Suc (Suc k))) (report_json L r)" "libs_ok L \<Longrightarrow> report_json L r = report_json L s \<longleftrightarrow> r = s"
  by (simp add: report_json_def)
    (cases r; cases s; simp add: report_json_def json_object_inject inj_map_eq_map inj_def)

interpretation report_identity: artifact report_env "\<lambda>r. True"
proof
  fix x y :: corpus_report and L
  show "json_ok max_depth (report_env L x)" by (rule json_ok_shallow) (simp add: report_env_def)
  show "libs_ok L \<Longrightarrow> report_env L x = report_env L y \<Longrightarrow> x = y"
    by (simp add: report_env_def json_object_inject)
qed

subsection \<open>Counting\<close>

text \<open>The largest count a 64-bit counter can show.\<close>

definition sat :: "nat \<Rightarrow> nat" where
  "sat n = min n (2 ^ 64 - 1)"

lemma sat_add [simp]: "sat (sat a + b) = sat (a + b)" "sat (a + sat b) = sat (a + b)"
  by (simp_all add: sat_def min_def)

lemma sat_0 [simp]: "sat 0 = 0" "sat n = 0 \<longleftrightarrow> n = 0"
  by (simp_all add: sat_def min_def)

lemma sat_small: "n < 2 ^ 64 \<Longrightarrow> sat n = n"
  by (simp add: sat_def)

lemma sat_lt: "sat n < 2 ^ 64"
  by (simp add: sat_def)

lemma unat_sat_add: "unat (u64_saturating_add a b) = sat (unat a + unat b)"
  by (simp add: unat_u64_saturating_add sat_def)

lemma sat_unat [simp]: "sat (unat (a :: u64)) = unat a"
  using unsigned_less [of a, where ?'a = nat] by (intro sat_small) simp

definition class_count :: "disposition \<Rightarrow> bool \<Rightarrow> (leg_id \<times> leg_id) set \<Rightarrow> match_proposal list \<Rightarrow> nat" where
  "class_count d b E ps = length (filter (\<lambda>p. mp_disposition p = d \<and> (pair_of p \<in> E) = b) ps)"

lemma class_count_simps [simp]:
  "class_count d b E [] = 0"
  "class_count d b E (p # ps) = (if mp_disposition p = d \<and> (pair_of p \<in> E) = b then Suc (class_count d b E ps) else class_count d b E ps)"
  by (simp_all add: class_count_def)

lemma not_autonet: "d \<noteq> AutoNet \<longleftrightarrow> d = Queue"
  by (cases d) simp_all

lemma count_proposal_eq:
  "count_proposal E p r =
     (if mp_disposition p = AutoNet
      then if pair_of p \<in> E then r\<lparr>cr_auto_tp := u64_saturating_add (cr_auto_tp r) 1\<rparr>
           else r\<lparr>cr_auto_fp := u64_saturating_add (cr_auto_fp r) 1\<rparr>
      else if pair_of p \<in> E then r\<lparr>cr_queued_expected := u64_saturating_add (cr_queued_expected r) 1\<rparr>
           else r\<lparr>cr_queued_unexpected := u64_saturating_add (cr_queued_unexpected r) 1\<rparr>)"
  by (cases "mp_disposition p") (simp_all add: count_proposal_def pair_of_def)

lemma fold_count_proposal:
  "unat (cr_auto_tp (fold (count_proposal E) ps r)) = sat (unat (cr_auto_tp r) + class_count AutoNet True E ps)"
  "unat (cr_auto_fp (fold (count_proposal E) ps r)) = sat (unat (cr_auto_fp r) + class_count AutoNet False E ps)"
  "unat (cr_queued_expected (fold (count_proposal E) ps r)) = sat (unat (cr_queued_expected r) + class_count Queue True E ps)"
  "unat (cr_queued_unexpected (fold (count_proposal E) ps r)) = sat (unat (cr_queued_unexpected r) + class_count Queue False E ps)"
  "cr_missed (fold (count_proposal E) ps r) = cr_missed r"
  "cr_name (fold (count_proposal E) ps r) = cr_name r"
  by (induction ps arbitrary: r) (auto simp: count_proposal_eq unat_sat_add not_autonet)

lemma fold_count_missed:
  "unat (cr_missed (fold (count_missed S) ps r)) = sat (unat (cr_missed r) + length (filter (\<lambda>p. p \<notin> S) ps))"
  "cr_auto_tp (fold (count_missed S) ps r) = cr_auto_tp r"
  "cr_auto_fp (fold (count_missed S) ps r) = cr_auto_fp r"
  "cr_queued_expected (fold (count_missed S) ps r) = cr_queued_expected r"
  "cr_queued_unexpected (fold (count_missed S) ps r) = cr_queued_unexpected r"
  by (induction ps arbitrary: r) (auto simp: count_missed_def unat_sat_add)

definition missed_count :: "labeled_case \<Rightarrow> match_proposal list \<Rightarrow> nat" where
  "missed_count c ps = card (set (expected_pairs c) - pair_of ` set ps)"

lemma distinct_expected [simp]: "distinct (expected_pairs c)"
  by (simp add: expected_pairs_def)

lemma case_counts_exact:
  "unat (cr_auto_tp (case_counts c ps)) = sat (class_count AutoNet True (set (expected_pairs c)) ps)"
  "unat (cr_auto_fp (case_counts c ps)) = sat (class_count AutoNet False (set (expected_pairs c)) ps)"
  "unat (cr_queued_expected (case_counts c ps)) = sat (class_count Queue True (set (expected_pairs c)) ps)"
  "unat (cr_queued_unexpected (case_counts c ps)) = sat (class_count Queue False (set (expected_pairs c)) ps)"
  "unat (cr_missed (case_counts c ps)) = sat (missed_count c ps)"
proof -
  let ?S = "set (map (\<lambda>p. (mp_out_leg p, mp_in_leg p)) ps)"
  have S: "?S = pair_of ` set ps" by (auto simp: pair_of_def)
  have "length (filter (\<lambda>p. p \<notin> ?S) (expected_pairs c)) = card (set (filter (\<lambda>p. p \<notin> ?S) (expected_pairs c)))"
    by (simp only: distinct_card distinct_filter distinct_expected)
  also have "\<dots> = missed_count c ps" unfolding missed_count_def S [symmetric] by (rule arg_cong [of _ _ card]) auto
  finally show "unat (cr_missed (case_counts c ps)) = sat (missed_count c ps)"
    by (simp add: case_counts_def fold_count_missed fold_count_proposal zero_result_def)
qed (simp_all add: case_counts_def fold_count_missed fold_count_proposal zero_result_def)

text \<open>A case whose legs have distinct ids accounts for each labelled pair exactly once.\<close>

lemma case_accounts:
  assumes "distinct (map pair_of ps)"
  shows "class_count AutoNet True (set (expected_pairs c)) ps + class_count Queue True (set (expected_pairs c)) ps +
    missed_count c ps = card (set (expected_pairs c))"
proof -
  let ?E = "set (expected_pairs c)"
  have "class_count AutoNet True E ps + class_count Queue True E ps = length (filter (\<lambda>p. pair_of p \<in> E) ps)" for E
    by (induction ps) (auto simp: not_autonet)
  also have "length (filter (\<lambda>p. pair_of p \<in> ?E) ps) = card (pair_of ` set (filter (\<lambda>p. pair_of p \<in> ?E) ps))"
    using assms by (metis (no_types, lifting) distinct_card distinct_map_filter length_map set_map)
  also have "pair_of ` set (filter (\<lambda>p. pair_of p \<in> ?E) ps) = ?E \<inter> pair_of ` set ps" by auto
  finally show ?thesis
    using card_mono [of ?E "?E \<inter> pair_of ` set ps"] unfolding missed_count_def by (simp add: card_Diff_subset_Int)
qed

subsection \<open>Evaluations\<close>

lemma evaluate_cases_Inr:
  assumes "evaluate_cases L config cs (pc, t) = Inr (pc', t')"
  shows "\<exists>outs. list_all2 (\<lambda>c out. match_legs L (lc_legs c) config = Inr out) cs outs \<and>
    pc' = pc @ map2 (\<lambda>c out. case_counts c (mo_proposals out)) cs outs \<and>
    t' = foldl add_totals t (map2 (\<lambda>c out. case_counts c (mo_proposals out)) cs outs)"
  using assms
proof (induction cs arbitrary: pc t)
  case (Cons c cs)
  then obtain out where out: "match_legs L (lc_legs c) config = Inr out"
    and rest: "evaluate_cases L config cs (pc @ [case_counts c (mo_proposals out)],
      add_totals t (case_counts c (mo_proposals out))) = Inr (pc', t')"
    by (auto simp: result_simps Let_def)
  from Cons.IH [OF rest] obtain outs where "list_all2 (\<lambda>c out. match_legs L (lc_legs c) config = Inr out) cs outs \<and>
    pc' = (pc @ [case_counts c (mo_proposals out)]) @ map2 (\<lambda>c out. case_counts c (mo_proposals out)) cs outs \<and>
    t' = foldl add_totals (add_totals t (case_counts c (mo_proposals out)))
      (map2 (\<lambda>c out. case_counts c (mo_proposals out)) cs outs)" ..
  with out show ?case by (intro exI [of _ "out # outs"]) simp
qed simp

lemma foldl_add_totals:
  "unat (cr_auto_tp (foldl add_totals t rs)) = sat (unat (cr_auto_tp t) + (\<Sum>r \<leftarrow> rs. unat (cr_auto_tp r)))"
  "unat (cr_auto_fp (foldl add_totals t rs)) = sat (unat (cr_auto_fp t) + (\<Sum>r \<leftarrow> rs. unat (cr_auto_fp r)))"
  "unat (cr_queued_expected (foldl add_totals t rs)) = sat (unat (cr_queued_expected t) + (\<Sum>r \<leftarrow> rs. unat (cr_queued_expected r)))"
  "unat (cr_queued_unexpected (foldl add_totals t rs)) = sat (unat (cr_queued_unexpected t) + (\<Sum>r \<leftarrow> rs. unat (cr_queued_unexpected r)))"
  "unat (cr_missed (foldl add_totals t rs)) = sat (unat (cr_missed t) + (\<Sum>r \<leftarrow> rs. unat (cr_missed r)))"
  by (induction rs arbitrary: t) (simp_all add: add_totals_def unat_sat_add add.assoc)

lemma sat_sum_sat: "sat (\<Sum>x \<leftarrow> xs. sat (f x)) = sat (\<Sum>x \<leftarrow> xs. f x)"
proof (induction xs)
  case (Cons x xs)
  have "sat (sat (f x) + (\<Sum>x \<leftarrow> xs. sat (f x))) = sat (f x + sat (\<Sum>x \<leftarrow> xs. sat (f x)))" by simp
  also have "\<dots> = sat (f x + (\<Sum>x \<leftarrow> xs. f x))" unfolding Cons.IH by simp
  finally show ?case by simp
qed simp

text \<open>A run: the labelled cases with what the matcher proposed for them.\<close>

definition is_run :: "libs \<Rightarrow> matcher_config \<Rightarrow> corpus \<Rightarrow> (labeled_case \<times> match_outcome) list \<Rightarrow> bool" where
  "is_run L config c run \<longleftrightarrow> map fst run = co_cases c \<and>
     list_all (\<lambda>(k, out). match_legs L (lc_legs k) config = Inr out) run"

definition run_count :: "disposition \<Rightarrow> bool \<Rightarrow> (labeled_case \<times> match_outcome) list \<Rightarrow> nat" where
  "run_count d b run = (\<Sum>(k, out) \<leftarrow> run. class_count d b (set (expected_pairs k)) (mo_proposals out))"

definition run_missed :: "(labeled_case \<times> match_outcome) list \<Rightarrow> nat" where
  "run_missed run = (\<Sum>(k, out) \<leftarrow> run. missed_count k (mo_proposals out))"

lemma evaluate_counts:
  assumes "evaluate L c config = Inr r"
  obtains run where "is_run L config c run"
    "rp_per_case r = map (\<lambda>(k, out). case_counts k (mo_proposals out)) run"
    "unat (rp_auto_tp r) = sat (run_count AutoNet True run)"
    "unat (rp_auto_fp r) = sat (run_count AutoNet False run)"
    "unat (rp_queued_expected r) = sat (run_count Queue True run)"
    "unat (rp_queued_unexpected r) = sat (run_count Queue False run)"
    "unat (rp_missed r) = sat (run_missed run)"
proof -
  from assms obtain pc t where cases: "evaluate_cases L config (co_cases c) ([], zero_result []) = Inr (pc, t)"
    and r: "rp_per_case r = pc" "rp_auto_tp r = cr_auto_tp t" "rp_auto_fp r = cr_auto_fp t"
      "rp_queued_expected r = cr_queued_expected t" "rp_queued_unexpected r = cr_queued_unexpected t" "rp_missed r = cr_missed t"
    by (auto simp: evaluate_def result_simps)
  then obtain outs where outs: "list_all2 (\<lambda>c out. match_legs L (lc_legs c) config = Inr out) (co_cases c) outs"
    and pc: "pc = map2 (\<lambda>c out. case_counts c (mo_proposals out)) (co_cases c) outs"
    and t: "t = foldl add_totals (zero_result []) pc"
    using evaluate_cases_Inr [OF cases] by auto
  let ?run = "zip (co_cases c) outs"
  have "is_run L config c ?run"
    using outs by (auto simp: is_run_def list_all2_conv_all_nth list_all_length)
  then show thesis
    by (rule that) (simp_all add: r t foldl_add_totals zero_result_def pc comp_def case_prod_unfold case_counts_exact
      sat_sum_sat run_count_def run_missed_def)
qed

lemma run_accounts:
  assumes "is_run L config c run" and "list_all (\<lambda>k. distinct (map tl_leg_id (lc_legs k))) (co_cases c)"
  shows "run_count AutoNet True run + run_count Queue True run + run_missed run =
    (\<Sum>k \<leftarrow> co_cases c. card (set (expected_pairs k)))"
proof -
  have each: "class_count AutoNet True (set (expected_pairs k)) (mo_proposals out) +
      class_count Queue True (set (expected_pairs k)) (mo_proposals out) + missed_count k (mo_proposals out) =
      card (set (expected_pairs k))" if "(k, out) \<in> set run" for k out
  proof -
    have "k \<in> set (co_cases c)" using assms(1) that unfolding is_run_def by (metis fst_conv image_eqI list.set_map)
    then have "distinct (map tl_leg_id (lc_legs k))" using assms(2) by (auto simp: list_all_iff)
    moreover have "match_legs L (lc_legs k) config = Inr out" using assms(1) that by (auto simp: is_run_def list_all_iff)
    ultimately show ?thesis by (intro case_accounts match_legs_pairs_distinct)
  qed
  have "(\<Sum>k \<leftarrow> co_cases c. card (set (expected_pairs k))) = (\<Sum>(k, out) \<leftarrow> run. card (set (expected_pairs k)))"
    using assms(1) unfolding is_run_def by (metis (no_types, lifting) case_prod_unfold comp_apply map_eq_conv map_map)
  also have "\<dots> = (\<Sum>(k, out) \<leftarrow> run. class_count AutoNet True (set (expected_pairs k)) (mo_proposals out) +
      class_count Queue True (set (expected_pairs k)) (mo_proposals out) + missed_count k (mo_proposals out))"
    by (rule arg_cong [of _ _ sum_list], rule map_cong) (use each in auto)
  finally show ?thesis
    by (simp add: run_count_def run_missed_def case_prod_unfold sum_list_addf)
qed

text \<open>The 128-bit products never saturate: the comparison is the exact one.\<close>

lemma at_least_exact:
  "at_least r s \<longleftrightarrow> unat (ra_numerator s) * unat (ra_denominator r) \<le> unat (ra_numerator r) * unat (ra_denominator s)"
proof -
  have small: "unat (a :: u64) * unat (b :: u64) \<le> 2 ^ 128 - 1" for a b
  proof -
    have "unat a \<le> 2 ^ 64 - 1" "unat b \<le> 2 ^ 64 - 1"
      using unsigned_less [of a, where ?'a = nat] unsigned_less [of b, where ?'a = nat] by simp_all
    then have "unat a * unat b \<le> (2 ^ 64 - 1) * (2 ^ 64 - 1)" by (rule mult_le_mono)
    then show ?thesis by simp
  qed
  show ?thesis
    unfolding at_least_def Let_def u128_saturating_mul_def
    by (simp only: min_absorb1 [OF small] mult.commute [of "unat (ra_denominator _)"])
qed

subsection \<open>The baseline, evaluated\<close>

definition baseline_config :: matcher_config where
  "baseline_config = \<lparr>mc_time_window_ns = 1000, mc_materiality_atoms = [(''BTC'', 1000000)]\<rparr>"

lemma baseline_config_wf: "config_wf baseline_config"
  by (simp add: config_wf_def baseline_config_def)

lemmas matcher_eval = side_legs_def leg_key_def tier0_partner_def candidates_for_def amount_and_window_match_def
  expected_inflow_def checked_sub_def i128_ops i128_opt_def in_i128_def i64_sub_def in_i64_def
  addresses_corroborate_def tier1_disposition_def threshold_for_def

lemmas case_eval = case_counts_def expected_pairs_def count_proposal_def count_missed_def zero_result_def u64_saturating_add_def

lemma match_legs_proposals:
  assumes "libs_ok L" and "config_hash L config = Inr ch"
    and "\<And>l. l \<in> set legs \<Longrightarrow> tl_tenant l = tenant"
    and "tier0 ch (side_legs Inflow legs) {} (side_legs Outflow legs) = (ps0, used0)"
    and "tier12 config ch (side_legs Inflow legs) used0 (side_legs Outflow legs) = (ps12, used12)"
  shows "\<exists>b. match_legs L legs config = Inr \<lparr>mo_proposals = ps0 @ ps12, mo_blockers = b\<rparr>"
proof -
  have one: "\<not> (\<exists>l \<in> set legs. \<exists>m \<in> set legs. tl_tenant l \<noteq> tl_tenant m)" by (simp add: assms(3))
  show ?thesis
    unfolding match_legs_def mixed_tenants_iff using one
    by (simp add: assms(2,4,5) queued_hashes_Inr [OF assms(1)] Let_def del: ball_simps bex_simps)
qed

definition proposals_for :: "content_hash \<Rightarrow> matcher_config \<Rightarrow> transfer_leg list \<Rightarrow> match_proposal list" where
  "proposals_for ch config legs =
     (let (ps0, used0) = tier0 ch (side_legs Inflow legs) {} (side_legs Outflow legs);
          (ps12, used12) = tier12 config ch (side_legs Inflow legs) used0 (side_legs Outflow legs) in ps0 @ ps12)"

lemma evaluate_cases_total:
  assumes "libs_ok L" and "config_hash L config = Inr ch"
    and "list_all (\<lambda>c. list_all (\<lambda>l. tl_tenant l = tenant) (lc_legs c)) cs"
  shows "evaluate_cases L config cs (pc, t) =
    (let rs = map (\<lambda>c. case_counts c (proposals_for ch config (lc_legs c))) cs in Inr (pc @ rs, foldl add_totals t rs))"
  using assms(3)
proof (induction cs arbitrary: pc t)
  case (Cons c cs)
  obtain ps0 u0 where t0: "tier0 ch (side_legs Inflow (lc_legs c)) {} (side_legs Outflow (lc_legs c)) = (ps0, u0)" by fastforce
  obtain ps12 u12 where t12: "tier12 config ch (side_legs Inflow (lc_legs c)) u0 (side_legs Outflow (lc_legs c)) = (ps12, u12)" by fastforce
  have ps: "proposals_for ch config (lc_legs c) = ps0 @ ps12" by (simp add: proposals_for_def t0 t12)
  obtain b where "match_legs L (lc_legs c) config = Inr \<lparr>mo_proposals = proposals_for ch config (lc_legs c), mo_blockers = b\<rparr>"
    using match_legs_proposals [OF assms(1,2) _ t0 t12, of tenant] Cons.prems by (auto simp: list_all_iff ps)
  then show ?case using Cons by (simp add: Let_def)
qed simp

lemma baseline_results:
  "map (\<lambda>c. case_counts c (proposals_for ch baseline_config (lc_legs c))) (co_cases synthetic_baseline) =
   [\<lparr>cr_name = ''clean_tier0'', cr_auto_tp = 1, cr_auto_fp = 0, cr_queued_expected = 0, cr_queued_unexpected = 0, cr_missed = 0\<rparr>,
    \<lparr>cr_name = ''fee_on_transfer'', cr_auto_tp = 1, cr_auto_fp = 0, cr_queued_expected = 0, cr_queued_unexpected = 0, cr_missed = 0\<rparr>,
    \<lparr>cr_name = ''material_transfer_queues'', cr_auto_tp = 0, cr_auto_fp = 0, cr_queued_expected = 1, cr_queued_unexpected = 0, cr_missed = 0\<rparr>,
    \<lparr>cr_name = ''batched_withdrawal_known_miss'', cr_auto_tp = 0, cr_auto_fp = 0, cr_queued_expected = 0, cr_queued_unexpected = 0, cr_missed = 2\<rparr>,
    \<lparr>cr_name = ''exchange_internal_queues'', cr_auto_tp = 0, cr_auto_fp = 0, cr_queued_expected = 1, cr_queued_unexpected = 0, cr_missed = 0\<rparr>,
    \<lparr>cr_name = ''decoy_same_amount'', cr_auto_tp = 0, cr_auto_fp = 0, cr_queued_expected = 0, cr_queued_unexpected = 1, cr_missed = 0\<rparr>,
    \<lparr>cr_name = ''ambiguous_twins_queue'', cr_auto_tp = 0, cr_auto_fp = 0, cr_queued_expected = 1, cr_queued_unexpected = 1, cr_missed = 0\<rparr>]"
  by (simp add: synthetic_baseline_def syn_leg_def syn_pair_def btc_def baseline_config_def proposals_for_def matcher_eval case_eval
      Let_def) force

lemma baseline_report:
  assumes "libs_ok L"
  obtains r where "evaluate L synthetic_baseline baseline_config = Inr r" "rp_auto_tp r = 2" "rp_auto_fp r = 0"
    "rp_queued_expected r = 3" "rp_queued_unexpected r = 2" "rp_missed r = 2"
proof -
  obtain cfh where cfh: "config_hash L baseline_config = Inr cfh"
    using config_identity.hash_total [OF assms baseline_config_wf] by (simp add: config_hash_def)
  obtain ch where ch: "corpus_hash L synthetic_baseline = Inr ch"
    using corpus_identity.hash_total [OF assms] by (simp add: corpus_hash_def)
  have "list_all (\<lambda>c. list_all (\<lambda>l. tl_tenant l = ''corpus-tenant'') (lc_legs c)) (co_cases synthetic_baseline)"
    by (simp add: synthetic_baseline_def syn_leg_def)
  note run = evaluate_cases_total [OF assms cfh this, of "[]" "zero_result []", unfolded baseline_results]
  show thesis
    by (rule that [OF evaluate_def [of L synthetic_baseline baseline_config, unfolded cfh ch run, simplified]])
      (simp_all add: add_totals_def zero_result_def u64_saturating_add_def)
qed

subsection \<open>Properties\<close>

text \<open>The report counts exactly: over the outcomes of the matcher on the cases, each total is the number
  of proposals of its class, or the top of the 64-bit range if that is smaller; and when the legs of
  every case have distinct ids, pairs netted, pairs queued and pairs missed add up to the labelled pairs, so that
  the recall is found pairs over labelled pairs.\<close>

theorem corpus_report_exact:
  assumes "evaluate L c config = Inr r" and "list_all (\<lambda>k. distinct (map tl_leg_id (lc_legs k))) (co_cases c)"
  shows "\<exists>run. is_run L config c run \<and>
    unat (rp_auto_tp r) = min (run_count AutoNet True run) (2 ^ 64 - 1) \<and>
    unat (rp_auto_fp r) = min (run_count AutoNet False run) (2 ^ 64 - 1) \<and>
    unat (rp_queued_expected r) = min (run_count Queue True run) (2 ^ 64 - 1) \<and>
    unat (rp_queued_unexpected r) = min (run_count Queue False run) (2 ^ 64 - 1) \<and>
    unat (rp_missed r) = min (run_missed run) (2 ^ 64 - 1) \<and>
    run_count AutoNet True run + run_count Queue True run + run_missed run = (\<Sum>k \<leftarrow> co_cases c. card (set (expected_pairs k)))"
  using evaluate_counts [OF assms(1)] run_accounts [OF _ assms(2)] by (metis sat_def)

theorem corpus_report_exact_witness:
  "\<exists>r run. evaluate (demo_libs (\<lambda>_. hash_of_byte (CHR 0x00))) synthetic_baseline baseline_config = Inr r \<and>
     is_run (demo_libs (\<lambda>_. hash_of_byte (CHR 0x00))) baseline_config synthetic_baseline run \<and>
     rp_missed r = 2 \<and> run_missed run = 2"
proof -
  let ?L = "demo_libs (\<lambda>_. hash_of_byte (CHR 0x00))"
  obtain r where r: "evaluate ?L synthetic_baseline baseline_config = Inr r" "rp_missed r = 2"
    by (rule baseline_report [OF demo_libs_ok])
  have "list_all (\<lambda>k. distinct (map tl_leg_id (lc_legs k))) (co_cases synthetic_baseline)"
    by (simp add: synthetic_baseline_def syn_leg_def)
  from corpus_report_exact [OF r(1) this] obtain run where
    "is_run ?L baseline_config synthetic_baseline run" "unat (rp_missed r) = min (run_missed run) (2 ^ 64 - 1)" by blast
  with r show ?thesis by (auto simp: min_def split: if_splits)
qed

text \<open>A perfect precision target means no phantom nets: when the service levels hold with a minimum precision
  of one and the two counters did not reach the top of their range, every pair the matcher netted
  automatically in a case of the corpus is labelled there as a transfer.\<close>

theorem slo_excludes_phantom_nets:
  assumes "evaluate L c config = Inr r" and "slo_check r targets = []"
    and "st_min_auto_precision targets = \<lparr>ra_numerator = 1, ra_denominator = 1\<rparr>"
    and "unat (rp_auto_tp r) + unat (rp_auto_fp r) < 2 ^ 64"
    and "k \<in> set (co_cases c)" and "match_legs L (lc_legs k) config = Inr out"
    and "p \<in> set (mo_proposals out)" and "mp_disposition p = AutoNet"
  shows "\<exists>e \<in> set (lc_expected_nets k). en_out_leg e = mp_out_leg p \<and> en_in_leg e = mp_in_leg p"
proof -
  obtain run where run: "is_run L config c run" and fp: "unat (rp_auto_fp r) = sat (run_count AutoNet False run)"
    by (rule evaluate_counts [OF assms(1)])
  have "at_least (auto_precision r) \<lparr>ra_numerator = 1, ra_denominator = 1\<rparr>"
    using assms(2,3) by (auto simp: slo_check_def split: if_splits)
  moreover have "u64_saturating_add (rp_auto_tp r) (rp_auto_fp r) = 0 \<longleftrightarrow> unat (rp_auto_tp r) + unat (rp_auto_fp r) = 0"
    unfolding unat_eq_0 [symmetric] unat_sat_add sat_0 ..
  ultimately have "unat (rp_auto_fp r) = 0"
    using assms(4) by (auto simp: auto_precision_def Let_def at_least_exact unat_sat_add sat_small split: if_splits)
  then have none: "run_count AutoNet False run = 0" by (simp add: fp)
  have "(k, out) \<in> set run"
  proof -
    from assms(5) have "k \<in> fst ` set run" using run by (metis is_run_def list.set_map)
    then obtain out' where "(k, out') \<in> set run" by auto
    then show ?thesis using run assms(6) by (auto simp: is_run_def list_all_iff)
  qed
  then have "class_count AutoNet False (set (expected_pairs k)) (mo_proposals out) = 0"
    using none by (force simp: run_count_def)
  then have "pair_of p \<in> set (expected_pairs k)"
    using assms(7,8) by (auto simp: class_count_def filter_empty_conv)
  then show ?thesis by (auto simp: expected_pairs_def pair_of_def)
qed

theorem slo_excludes_phantom_nets_witness:
  "\<exists>r. evaluate (demo_libs (\<lambda>_. hash_of_byte (CHR 0x00))) synthetic_baseline baseline_config = Inr r \<and>
     slo_check r \<lparr>st_min_auto_precision = \<lparr>ra_numerator = 1, ra_denominator = 1\<rparr>,
       st_min_found_recall = \<lparr>ra_numerator = 2, ra_denominator = 3\<rparr>, st_max_missed = 2\<rparr> = [] \<and>
     (\<forall>out. match_legs (demo_libs (\<lambda>_. hash_of_byte (CHR 0x00))) (lc_legs (hd (co_cases synthetic_baseline))) baseline_config = Inr out \<longrightarrow>
        (\<forall>p \<in> set (mo_proposals out). mp_disposition p = AutoNet \<longrightarrow>
          mp_out_leg p = hash_of_byte (char_of (1 :: nat)) \<and> mp_in_leg p = hash_of_byte (char_of (2 :: nat))))"
proof -
  let ?L = "demo_libs (\<lambda>_. hash_of_byte (CHR 0x00))" and ?k = "hd (co_cases synthetic_baseline)"
  let ?t = "\<lparr>st_min_auto_precision = \<lparr>ra_numerator = 1, ra_denominator = 1\<rparr>,
    st_min_found_recall = \<lparr>ra_numerator = 2, ra_denominator = 3\<rparr>, st_max_missed = 2\<rparr>"
  obtain r where r: "evaluate ?L synthetic_baseline baseline_config = Inr r" "rp_auto_tp r = 2" "rp_auto_fp r = 0"
    "rp_queued_expected r = 3" "rp_missed r = 2"
    by (rule baseline_report [OF demo_libs_ok])
  have slo: "slo_check r ?t = []"
    by (simp add: slo_check_def at_least_exact auto_precision_def found_recall_def Let_def r u64_saturating_add_def)
  have k: "?k \<in> set (co_cases synthetic_baseline)" by (simp add: synthetic_baseline_def)
  have "mp_out_leg p = hash_of_byte (char_of (1 :: nat)) \<and> mp_in_leg p = hash_of_byte (char_of (2 :: nat))"
    if "match_legs ?L (lc_legs ?k) baseline_config = Inr out" "p \<in> set (mo_proposals out)" "mp_disposition p = AutoNet" for out p
    using slo_excludes_phantom_nets [OF r(1) slo _ _ k that] by (simp add: r synthetic_baseline_def syn_pair_def)
  with r(1) slo show ?thesis by blast
qed

text \<open>The synthetic baseline meets the zero-phantom target under the documented configuration, whatever
  digest is used: two true nets, no false one, three true pairs and two decoys queued, and the two pairs
  of the batched withdrawal missed.\<close>

theorem baseline_counts:
  assumes "libs_ok L"
  shows "\<exists>r. evaluate L synthetic_baseline baseline_config = Inr r \<and> rp_auto_tp r = 2 \<and> rp_auto_fp r = 0 \<and>
    rp_queued_expected r = 3 \<and> rp_queued_unexpected r = 2 \<and> rp_missed r = 2"
  using baseline_report [OF assms] by metis

theorem baseline_counts_witness:
  "\<exists>r. evaluate (demo_libs (\<lambda>_. hash_of_byte (CHR 0x00))) synthetic_baseline baseline_config = Inr r \<and> rp_auto_fp r = 0"
  using baseline_counts [OF demo_libs_ok] by blast

end
