(* ===== verification/Conformance.thy ===== *)
theory Conformance
  imports Chainsource Gl Anchor
begin

section \<open>Conformance suites (treasury-conformance)\<close>

text \<open>
  Models \<open>crates/treasury-conformance/src/\<close> \<open>lib.rs\<close>, \<open>chain_source.rs\<close>, \<open>gl_adapter.rs\<close> and
  \<open>anchor_submitter.rs\<close>: the checks a live chain source, general-ledger adapter or wallet has to pass.
  An implementor is a record of functions over the state of the outside world, as in the theories
  \<open>Chainsource\<close> and \<open>Gl\<close>; \<open>submitter\<close> is the wallet seam of the anchoring crate. Library errors enter
  a violation by their \<open>Display\<close> text. The lemmas show that the fixtures of the repository pass,
  what a pass says of any implementor, and a double posting that passes.
\<close>

subsection \<open>Violations and error texts\<close>

datatype contract_violation =
    WrongChain chain chain
  | EmptySourceId
  | CvNotReproducible content_hash content_hash
  | SettledHistoryRewritten u64 content_hash content_hash
  | SourcesDisagree
  | HeightWentBackwards u64 u64
  | AnchorNeverConfirmed u64 "32 word"
  | ReceiptCountMismatch nat nat
  | NotPosted
  | ReadbackMismatch "content_hash list" "content_hash list"
  | NotIdempotent string string
  | Underlying string

fun source_error_text :: "source_error \<Rightarrow> string" where
  "source_error_text (SourceTransport s) = ''source transport error: '' @ s"
| "source_error_text SourceChainMismatch = ''chain mismatch''"

fun history_error_text :: "history_error \<Rightarrow> string" where
  "history_error_text (HistoryCanon e) = canon_error_text e"

fun reconcile_error_text :: "reconcile_error \<Rightarrow> string" where
  "reconcile_error_text ReconcileChainMismatch = ''chain mismatch between sources and policy''"
| "reconcile_error_text (ReconcileSource e) = source_error_text e"
| "reconcile_error_text (ReconcileHistory e) = history_error_text e"

fun repro_error_text :: "libs \<Rightarrow> repro_error \<Rightarrow> string" where
  "repro_error_text L (NotReproducible sid first second) =
     ''source '' @ sid @ '' not reproducible: '' @ to_hex L first @ '' != '' @ to_hex L second"
| "repro_error_text L (ReproSource e) = source_error_text e"
| "repro_error_text L (ReproHistory e) = history_error_text e"

fun gl_error_text :: "gl_error \<Rightarrow> string" where
  "gl_error_text (GlTransport s) = ''gl transport error: '' @ s"
| "gl_error_text (GlAuth s) = ''gl auth error: '' @ s"
| "gl_error_text (GlRejected s) = ''gl rejected the batch: '' @ s"

fun dual_control_error_text :: "libs \<Rightarrow> dual_control_error \<Rightarrow> string" where
  "dual_control_error_text L (DC_UnknownItem i) = ''unknown dual-control item: '' @ to_hex L i"
| "dual_control_error_text L DC_InvalidTransition = ''invalid state transition''"
| "dual_control_error_text L DC_Violation = ''dual-control violation: approver must differ from preparer''"

fun posting_error_text :: "libs \<Rightarrow> posting_error \<Rightarrow> string" where
  "posting_error_text L (UnknownBatch h) = ''unknown batch: '' @ to_hex L h"
| "posting_error_text L InvalidTransition = ''invalid posting transition''"
| "posting_error_text L (DualControl e) = dual_control_error_text L e"
| "posting_error_text L (PostingCanon e) = canon_error_text e"

fun drive_error_text :: "libs \<Rightarrow> drive_error \<Rightarrow> string" where
  "drive_error_text L (DriveProtocol e) = posting_error_text L e"
| "drive_error_text L (DriveGl e) = gl_error_text e"
| "drive_error_text L DriveUnexpected = ''unexpected protocol state after drive''"

fun pipeline_error_text :: "pipeline_error \<Rightarrow> string" where
  "pipeline_error_text NothingToAnchor = ''nothing to anchor''"
| "pipeline_error_text PlInvalidTransition = ''invalid anchoring transition''"
| "pipeline_error_text HeightUnderflow = ''current height below block height''"
| "pipeline_error_text (InsufficientDepth depth required) =
     ''insufficient depth: '' @ show_nat (unat depth) @ '' < required '' @ show_nat (unat required)"
| "pipeline_error_text (PlReceipt s) = ''receipt hashing failed: '' @ s"

fun submitter_error_text :: "submitter_error \<Rightarrow> string" where
  "submitter_error_text (SubTransport s) = ''submitter transport error: '' @ s"
| "submitter_error_text NotBroadcast = ''transaction not broadcast''"
| "submitter_error_text NotConfirmed = ''transaction not yet confirmed''"

text \<open>A call whose error is wrapped by its text.\<close>

definition wrapped :: "('e \<Rightarrow> string) \<Rightarrow> ('e, 'a) result \<times> 's \<Rightarrow> (contract_violation, 'a) result \<times> 's" where
  "wrapped t rs = (map_err (\<lambda>e. Underlying (t e)) (fst rs), snd rs)"

subsection \<open>Chain sources\<close>

definition verify_identity :: "'w chain_source \<Rightarrow> chain \<Rightarrow> (contract_violation, unit) result" where
  "verify_identity source expected =
     (if cs_chain source \<noteq> expected then Inl (WrongChain expected (cs_chain source))
      else if cs_source_id source = [] then Inl EmptySourceId
      else Inr ())"

definition verify_reproducible :: "libs \<Rightarrow> 'w chain_source \<Rightarrow> finality_policy \<Rightarrow> string \<Rightarrow> u64 \<Rightarrow> 'w
  \<Rightarrow> (contract_violation, content_hash) result \<times> 'w" where
  "verify_reproducible L source policy address observed_height w =
     (case reproducibility_gate L source policy address observed_height w of
        (Inr h, w) \<Rightarrow> (Inr h, w)
      | (Inl (NotReproducible sid first second), w) \<Rightarrow> (Inl (CvNotReproducible first second), w)
      | (Inl other, w) \<Rightarrow> (Inl (Underlying (repro_error_text L other)), w))"

definition verify_settled_history_stable :: "libs \<Rightarrow> 'w chain_source \<Rightarrow> finality_policy \<Rightarrow> string \<Rightarrow> u64 \<Rightarrow> u64 \<Rightarrow> 'w
  \<Rightarrow> (contract_violation, unit) result \<times> 'w" where
  "verify_settled_history_stable L source policy address low_tip high_tip w =
     (let settled = settled_height policy low_tip in
      and_then_st (wrapped source_error_text (cs_address_history source address low_tip w)) (\<lambda>at_low w.
      and_then_st (wrapped source_error_text (cs_address_history source address high_tip w)) (\<lambda>at_high w.
      and_then_st (wrapped history_error_text (history_hash L (clamp settled at_low), w)) (\<lambda>low w.
      and_then_st (wrapped history_error_text (history_hash L (clamp settled at_high), w)) (\<lambda>high w.
        (if low \<noteq> high then Inl (SettledHistoryRewritten settled low high) else Inr (), w))))))"

definition verify_sources_agree :: "libs \<Rightarrow> 'a chain_source \<Rightarrow> 'b chain_source \<Rightarrow> finality_policy \<Rightarrow> string \<Rightarrow> u64
  \<Rightarrow> 'a \<Rightarrow> 'b \<Rightarrow> (contract_violation, content_hash) result" where
  "verify_sources_agree L source_a source_b policy address observed_height wa wb =
     (case reconcile_sources L source_a source_b policy address observed_height wa wb of
        Inr (Agreed h hash) \<Rightarrow> Inr hash
      | Inr (Diverged a b height) \<Rightarrow> Inl SourcesDisagree
      | Inl e \<Rightarrow> Inl (Underlying (reconcile_error_text e)))"

definition verify_chain_source_contract :: "libs \<Rightarrow> 'w chain_source \<Rightarrow> chain \<Rightarrow> finality_policy \<Rightarrow> string \<Rightarrow> u64 \<Rightarrow> u64 \<Rightarrow> 'w
  \<Rightarrow> (contract_violation, unit) result \<times> 'w" where
  "verify_chain_source_contract L source expected policy address low_tip high_tip w =
     and_then_st (verify_identity source expected, w) (\<lambda>_ w.
     and_then_st (verify_reproducible L source policy address high_tip w) (\<lambda>_ w.
     and_then_st (verify_settled_history_stable L source policy address low_tip high_tip w) (\<lambda>_ w. (Inr (), w))))"

subsection \<open>General-ledger adapters\<close>

definition missing_from :: "content_hash list \<Rightarrow> content_hash list \<Rightarrow> content_hash list" where
  "missing_from left right = filter (\<lambda>hash. hash \<notin> set right) left"

definition verify_drive_verifies :: "libs \<Rightarrow> 'g gl_adapter \<Rightarrow> posting_batch \<Rightarrow> actor_id \<Rightarrow> actor_id \<Rightarrow> 'g
  \<Rightarrow> (contract_violation, unit) result \<times> 'g" where
  "verify_drive_verifies L A batch preparer approver g =
     (case post_batch L A batch preparer approver (pp_new, g) of
        (Inr (DriveVerified gl_ref), P, g) \<Rightarrow> (Inr (), g)
      | (Inr (DriveVerificationFailed missing unexpected), P, g) \<Rightarrow> (Inl (ReadbackMismatch missing unexpected), g)
      | (Inr RetryableNotPosted, P, g) \<Rightarrow> (Inl NotPosted, g)
      | (Inl e, P, g) \<Rightarrow> (Inl (Underlying (drive_error_text L e)), g))"

definition verify_readback_fidelity :: "libs \<Rightarrow> 'g gl_adapter \<Rightarrow> posting_batch \<Rightarrow> 'g
  \<Rightarrow> (contract_violation, unit) result \<times> 'g" where
  "verify_readback_fidelity L A batch g =
     and_then_st (wrapped canon_error_text (batch_id L batch, g)) (\<lambda>key g.
     and_then_st (wrapped canon_error_text (entry_fingerprint L batch, g)) (\<lambda>fingerprint g.
     and_then_st (wrapped gl_error_text (gl_submit A batch key g)) (\<lambda>_ g.
     and_then_st (wrapped gl_error_text (gl_read_back A key g)) (\<lambda>readback g.
       if rb_gl_ref readback = None then (Inl NotPosted, g)
       else
         let missing = missing_from fingerprint (rb_entry_hashes readback);
             unexpected = missing_from (rb_entry_hashes readback) fingerprint in
         (if missing \<noteq> [] \<or> unexpected \<noteq> [] then Inl (ReadbackMismatch missing unexpected) else Inr (), g)))))"

definition verify_idempotent_submit :: "libs \<Rightarrow> 'g gl_adapter \<Rightarrow> posting_batch \<Rightarrow> 'g
  \<Rightarrow> (contract_violation, unit) result \<times> 'g" where
  "verify_idempotent_submit L A batch g =
     and_then_st (wrapped canon_error_text (batch_id L batch, g)) (\<lambda>key g.
     and_then_st (wrapped gl_error_text (gl_submit A batch key g)) (\<lambda>first g.
     and_then_st (wrapped gl_error_text (gl_submit A batch key g)) (\<lambda>second g.
       let read = and_then_st (wrapped gl_error_text (gl_read_back A key g)) (\<lambda>readback g.
             (if rb_gl_ref readback = None then Inl NotPosted else Inr (), g)) in
       case (first, second) of
         (Acknowledged a ra, Acknowledged b rb) \<Rightarrow> if a \<noteq> b then (Inl (NotIdempotent a b), g) else read
       | _ \<Rightarrow> read)))"

definition verify_gl_adapter_contract :: "libs \<Rightarrow> 'g gl_adapter \<Rightarrow> posting_batch \<Rightarrow> actor_id \<Rightarrow> actor_id \<Rightarrow> 'g
  \<Rightarrow> (contract_violation, unit) result \<times> 'g" where
  "verify_gl_adapter_contract L A batch preparer approver g =
     and_then_st (verify_drive_verifies L A batch preparer approver g) (\<lambda>_ g.
     and_then_st (verify_readback_fidelity L A batch g) (\<lambda>_ g.
     and_then_st (verify_idempotent_submit L A batch g) (\<lambda>_ g. (Inr (), g))))"

subsection \<open>Wallets\<close>

record 's submitter =
  sb_broadcast :: "content_hash \<Rightarrow> 's \<Rightarrow> (submitter_error, broadcast) result \<times> 's"
  sb_poll :: "string \<Rightarrow> 's \<Rightarrow> (submitter_error, confirmation) result \<times> 's"
  sb_calendar_proof :: "string \<Rightarrow> 's \<Rightarrow> (submitter_error, content_hash) result \<times> 's"

definition fixture_wallet :: "libs \<Rightarrow> fixture_submitter submitter" where
  "fixture_wallet L = \<lparr>sb_broadcast = fs_broadcast, sb_poll = fs_poll,
     sb_calendar_proof = (\<lambda>tx_ref s. (fs_calendar_proof L tx_ref s, s))\<rparr>"

definition verify_receipt_coverage :: "nat \<Rightarrow> anchor_receipt list \<Rightarrow> (contract_violation, unit) result" where
  "verify_receipt_coverage expected receipts =
     (if length receipts \<noteq> expected then Inl (ReceiptCountMismatch expected (length receipts)) else Inr ())"

text \<open>The polling loop: whether the required depth was reached, on the pair of the pipeline and the wallet.\<close>

fun poll_loop :: "'s submitter \<Rightarrow> string \<Rightarrow> u64 \<Rightarrow> nat \<Rightarrow> u64 \<Rightarrow> anchor_pipeline \<times> 's
  \<Rightarrow> (contract_violation, bool) result \<times> anchor_pipeline \<times> 's" where
  "poll_loop S tx_ref required_depth 0 last_height ps = (Inr False, ps)"
| "poll_loop S tx_ref required_depth (Suc n) last_height (p, s) =
     (case sb_poll S tx_ref s of
        (Inl e, s) \<Rightarrow> (Inl (Underlying (submitter_error_text e)), p, s)
      | (Inr c, s) \<Rightarrow>
          if cf_current_height c < last_height
          then (Inl (HeightWentBackwards last_height (cf_current_height c)), p, s)
          else case cf_included_at c of
            None \<Rightarrow> poll_loop S tx_ref required_depth n (cf_current_height c) (p, s)
          | Some included \<Rightarrow>
              (case pl_confirmed included (cf_current_height c) p of
                 (Inl e, p) \<Rightarrow> (Inl (Underlying (pipeline_error_text e)), p, s)
               | (Inr _, p) \<Rightarrow>
                   if (case pl_state p of PlConfirmed _ _ depth \<Rightarrow> depth \<ge> required_depth | _ \<Rightarrow> False)
                   then (Inr True, p, s)
                   else poll_loop S tx_ref required_depth n (cf_current_height c) (p, s)))"

definition verify_anchor_submitter_contract :: "libs \<Rightarrow> 's submitter \<Rightarrow> anchor_target list \<Rightarrow> u64 \<Rightarrow> 32 word \<Rightarrow> timestamp_ns
  \<Rightarrow> 's \<Rightarrow> (contract_violation, anchor_receipt list) result \<times> 's" where
  "verify_anchor_submitter_contract L S targets required_depth poll_budget anchored_at s =
     and_then_st (wrapped pipeline_error_text (pl_start L targets, s)) (\<lambda>p s.
     and_then_st (wrapped submitter_error_text (sb_broadcast S (pl_root p) s)) (\<lambda>b s.
       if bc_tx_ref b = [] then (Inl (Underlying ''broadcast returned an empty tx_ref''), s)
       else case pl_submitted (bc_tx_ref b) (bc_submitted_height b) p of
         (Inl e, p) \<Rightarrow> (Inl (Underlying (pipeline_error_text e)), s)
       | (Inr _, p) \<Rightarrow>
           (case poll_loop S (bc_tx_ref b) required_depth (unat poll_budget) (bc_submitted_height b) (p, s) of
              (Inl e, p, s) \<Rightarrow> (Inl e, s)
            | (Inr reached_depth, p, s) \<Rightarrow>
                if \<not> reached_depth then (Inl (AnchorNeverConfirmed required_depth poll_budget), s)
                else
                  and_then_st (wrapped submitter_error_text (sb_calendar_proof S (bc_tx_ref b) s)) (\<lambda>evidence s.
                    (and_then (map_err (\<lambda>e. Underlying (pipeline_error_text e))
                         (fst (pl_finalize L (anchor_policy_new required_depth) evidence anchored_at p))) (\<lambda>receipts.
                     and_then (verify_receipt_coverage (length targets) receipts) (\<lambda>_. Inr receipts)), s)))))"

subsection \<open>Chain sources that pass\<close>

lemma wrapped_simps [simp]: "wrapped t (Inr x, s) = (Inr x, s)" "wrapped t (Inl e, s) = (Inl (Underlying (t e)), s)"
  by (simp_all add: wrapped_def)

lemma wrapped_Inr [result_simps]: "wrapped t rs = (Inr x, s) \<longleftrightarrow> rs = (Inr x, s)"
  by (cases rs) (auto simp: wrapped_def result_simps)

lemma verify_reproducible_Inr:
  "verify_reproducible L source policy address height w = (Inr h, w') \<longleftrightarrow>
     reproducibility_gate L source policy address height w = (Inr h, w')"
  by (auto simp: verify_reproducible_def split: prod.splits sum.splits repro_error.splits)

lemma verify_identity_Inr: "verify_identity source expected = Inr () \<longleftrightarrow> cs_chain source = expected \<and> cs_source_id source \<noteq> []"
  by (simp add: verify_identity_def)

lemma settled_stable_Inr:
  assumes "libs_ok L" and "verify_settled_history_stable L source policy address low high w = (Inr (), w')"
  shows "\<exists>at_low w1 at_high. cs_address_history source address low w = (Inr at_low, w1) \<and>
    cs_address_history source address high w1 = (Inr at_high, w') \<and>
    history_hash L (clamp (settled_height policy low) at_low) = history_hash L (clamp (settled_height policy low) at_high)"
  using assms(2) by (auto simp: verify_settled_history_stable_def Let_def result_simps split: if_splits)

lemma settled_height_le: "settled_height policy height \<le> height"
  by (simp add: settled_height_def word_le_nat_alt unat_u64_saturating_sub split: finality_rule.splits)

context steady_source
begin

lemma passes_if_settled:
  assumes "libs_ok L" and "cs_chain S = fp_chain policy" and "cs_source_id S \<noteq> []"
    and "history_hash L (clamp (settled_height policy low) (answer address low)) =
      history_hash L (clamp (settled_height policy low) (answer address high))"
  shows "fst (verify_chain_source_contract L S (cs_chain S) policy address low high w) = Inr ()"
proof -
  obtain h w1 where gate: "reproducibility_gate L S policy address high w = (Inr h, w1)"
    using gate_passes [OF assms(1,2)] by blast
  obtain w2 where w2: "cs_address_history S address low w1 = (Inr (answer address low), w2)" using answered by blast
  obtain w3 where w3: "cs_address_history S address high w2 = (Inr (answer address high), w3)" using answered by blast
  have "verify_settled_history_stable L S policy address low high w1 = (Inr (), w3)"
    using assms(4) w2 w3 by (simp add: verify_settled_history_stable_def Let_def history_hash_total [OF assms(1)])
  then show ?thesis
    using gate assms(3) by (simp add: verify_chain_source_contract_def verify_identity_def verify_reproducible_def)
qed

text \<open>Every source that keeps the contract passes the checks at tips in order.\<close>

lemma contract_source_passes:
  assumes "libs_ok L" and "cs_chain S = fp_chain policy" and "cs_source_id S \<noteq> []" and "low \<le> high"
  shows "fst (verify_chain_source_contract L S (cs_chain S) policy address low high w) = Inr ()"
  using settled_hash [OF assms(1) settled_height_le order_trans [OF settled_height_le assms(4)]]
  by (intro passes_if_settled [OF assms(1-3)])

end

lemma fixture_source_passes:
  assumes "libs_ok L" and "fx_chain s = fp_chain policy" and "fx_source_id s \<noteq> []"
  shows "fst (verify_chain_source_contract L (fixture_chain_source s) (fx_chain s) policy address low high w) = Inr ()"
  using fixture_src.passes_if_settled [OF assms(1) _ _ fixture_src.frozen_hash [OF assms(1)], of s policy address low high w] assms
  by (simp add: fixture_chain_source_def)

subsection \<open>Adapters that pass\<close>

lemma missing_from_Nil: "missing_from xs ys = [] \<longleftrightarrow> set xs \<subseteq> set ys"
  by (auto simp: missing_from_def filter_empty_conv)

lemma readback_fidelity_Inr:
  assumes "libs_ok L" and "verify_readback_fidelity L A batch g = (Inr (), g')"
  shows "\<exists>key out g1 rb. batch_id L batch = Inr key \<and> gl_submit A batch key g = (Inr out, g1) \<and>
    gl_read_back A key g1 = (Inr rb, g') \<and> rb_gl_ref rb \<noteq> None \<and>
    set (rb_entry_hashes rb) = set (map (entry_digest L) (pb_entries batch))"
proof -
  from assms(2) obtain key fingerprint out g1 rb where run: "batch_id L batch = Inr key"
    "entry_fingerprint L batch = Inr fingerprint" "gl_submit A batch key g = (Inr out, g1)"
    "gl_read_back A key g1 = (Inr rb, g')" "rb_gl_ref rb \<noteq> None"
    "missing_from fingerprint (rb_entry_hashes rb) = []" "missing_from (rb_entry_hashes rb) fingerprint = []"
    unfolding verify_readback_fidelity_def and_then_st_Inr wrapped_Inr Let_def by (fastforce split: if_splits)
  moreover from run(2) have "set fingerprint = set (map (entry_digest L) (pb_entries batch))"
    unfolding entry_fingerprint_Inr [OF assms(1)] by (metis set_sort_dedup sum.inject(2))
  moreover from run(6,7) have "set (rb_entry_hashes rb) = set fingerprint" unfolding missing_from_Nil by (rule equalityI [rotated])
  ultimately show ?thesis by metis
qed

lemma verify_drive_fresh:
  assumes "libs_ok L" and "batch_id L b = Inr bid" and "preparer \<noteq> approver"
    and "fresh_outcome L A b bid g = Inr (DriveVerified r)"
  obtains s' where "post_batch L A b preparer approver (pp_new, g) = (Inr (DriveVerified r), s')"
    "verify_drive_verifies L A b preparer approver g = (Inr (), snd s')"
proof -
  have "fst (post_batch L A b preparer approver (pp_new, g)) = Inr (DriveVerified r)"
    using post_batch_fresh [OF assms(1) pp_inv_new assms(2) _ assms(3), of A g] assms(4) by (simp add: pp_new_def pp_state_def)
  then obtain s' where "post_batch L A b preparer approver (pp_new, g) = (Inr (DriveVerified r), s')" by (metis prod.collapse)
  then show thesis by (cases s') (auto simp: verify_drive_verifies_def intro: that)
qed

lemma fixture_gl_conforms:
  assumes "libs_ok L" and "preparer \<noteq> approver"
  shows "fst (verify_gl_adapter_contract L (fixture_adapter L) b preparer approver fg_new) = Inr ()"
proof -
  obtain bid where bid: "batch_id L b = Inr bid" using batch_id_Inr [OF assms(1)] by blast
  let ?xs = "sort_dedup (map (entry_digest L) (pb_entries b))" and ?g = "snd (fg_submit L b bid fg_new)"
  have g: "?g = fg_new\<lparr>fg_seq := 1, fg_posted := hm_insert bid \<lparr>po_gl_ref = ''JE-'' @ show_nat 1, po_entry_hashes = ?xs,
      po_readback_drop_one = False, po_readback_extra = None\<rparr> []\<rparr>"
    by (simp add: fg_submit_def fg_record_def fg_new_def Let_def fg_fingerprint_def entry_fingerprint_Inr [OF assms(1)]
        u64_saturating_add_def)
  have out: "fresh_outcome L (fixture_adapter L) b bid fg_new = Inr (DriveVerified (''JE-'' @ show_nat 1))"
    by (simp add: fixture_fresh_outcome [OF assms(1)] fg_new_def fixture_outcome_def u64_saturating_add_def)
  obtain s' where s': "post_batch L (fixture_adapter L) b preparer approver (pp_new, fg_new) =
      (Inr (DriveVerified (''JE-'' @ show_nat 1)), s')"
    and drive: "verify_drive_verifies L (fixture_adapter L) b preparer approver fg_new = (Inr (), snd s')"
    by (rule verify_drive_fresh [OF assms(1) bid assms(2) out])
  have world: "snd s' = ?g" using fixture.post_batch_world [OF s'] bid by auto
  have sub: "fg_submit L b bid ?g = (Inr (Acknowledged (''JE-'' @ show_nat 1) ''fixture-ack''), ?g)"
    unfolding g by (simp add: fg_submit_def fg_record_def fg_new_def Let_def)
  have rb: "fg_read_back bid ?g = (Inr \<lparr>rb_gl_ref = Some (''JE-'' @ show_nat 1), rb_entry_hashes = ?xs,
      rb_raw_payload = ''fixture-readback''\<rparr>, ?g)"
    unfolding g by (simp add: fg_read_back_def)
  show ?thesis
    by (simp add: verify_gl_adapter_contract_def drive world verify_readback_fidelity_def verify_idempotent_submit_def bid
        entry_fingerprint_Inr [OF assms(1)] sub rb Let_def missing_from_Nil)
qed

text \<open>A ledger that books the entries of a batch again on every submission, under one reference.\<close>

definition doubling_adapter :: "libs \<Rightarrow> content_hash list gl_adapter" where
  "doubling_adapter L = \<lparr>
     gl_submit = (\<lambda>b key g. (Inr (Acknowledged ''JE'' ''ack''), g @ map (entry_digest L) (pb_entries b))),
     gl_read_back = (\<lambda>key g. (Inr \<lparr>rb_gl_ref = Some ''JE'', rb_entry_hashes = g, rb_raw_payload = ''raw''\<rparr>, g))\<rparr>"

lemma doubling_simps [simp]:
  "gl_submit (doubling_adapter L) b key g = (Inr (Acknowledged ''JE'' ''ack''), g @ map (entry_digest L) (pb_entries b))"
  "gl_read_back (doubling_adapter L) key g = (Inr \<lparr>rb_gl_ref = Some ''JE'', rb_entry_hashes = g, rb_raw_payload = ''raw''\<rparr>, g)"
  by (simp_all add: doubling_adapter_def)

lemma doubling_world:
  assumes "post_batch L (doubling_adapter L) b p a s = (Inr out, s')"
  shows "snd s' = snd s @ map (entry_digest L) (pb_entries b)"
  using assms
proof (cases rule: post_batch_steps)
  case (1 bid s1 s2 s3 o' s4)
  then show ?thesis by (auto simp: drive_settle_def drive_verify_def drive_Inr)
qed

lemma doubling_conforms:
  assumes "libs_ok L" and "preparer \<noteq> approver"
  shows "verify_gl_adapter_contract L (doubling_adapter L) b preparer approver [] =
    (Inr (), concat (replicate 4 (map (entry_digest L) (pb_entries b))))"
proof -
  obtain bid where bid: "batch_id L b = Inr bid" using batch_id_Inr [OF assms(1)] by blast
  have out: "fresh_outcome L (doubling_adapter L) b bid [] = Inr (DriveVerified ''JE'')"
    by (simp add: fresh_outcome_def readback_outcome_def)
  obtain s' where s': "post_batch L (doubling_adapter L) b preparer approver (pp_new, []) = (Inr (DriveVerified ''JE''), s')"
    and drive: "verify_drive_verifies L (doubling_adapter L) b preparer approver [] = (Inr (), snd s')"
    by (rule verify_drive_fresh [OF assms(1) bid assms(2) out])
  show ?thesis
    by (simp add: verify_gl_adapter_contract_def drive doubling_world [OF s'] verify_readback_fidelity_def
        verify_idempotent_submit_def bid entry_fingerprint_Inr [OF assms(1)] Let_def missing_from_Nil eval_nat_numeral)
qed

subsection \<open>Wallets that pass\<close>

text \<open>The transaction a pipeline is waiting for.\<close>

definition awaits :: "anchor_pipeline \<Rightarrow> string \<Rightarrow> bool" where
  "awaits p tx \<longleftrightarrow> (\<exists>h. pl_state p = PlSubmitted tx h) \<or> (\<exists>b d. pl_state p = PlConfirmed tx b d)"

lemma awaits_confirmed:
  assumes "awaits p tx" and "pl_confirmed b c p = (Inr u, p')"
  shows "unat b \<le> unat c \<and> p' = p\<lparr>pl_state := PlConfirmed tx b (u64_saturating_add (c - b) 1)\<rparr>"
  using assms by (auto simp: awaits_def pl_confirmed_def u64_checked_sub_Some split: option.splits)

lemma awaits_update [simp]: "awaits (p\<lparr>pl_state := PlConfirmed tx b d\<rparr>) tx"
  by (simp add: awaits_def)

text \<open>A poll that shows the transaction at least \<open>required\<close> deep.\<close>

definition deep_poll :: "'s submitter \<Rightarrow> string \<Rightarrow> u64 \<Rightarrow> bool" where
  "deep_poll S tx required \<longleftrightarrow> (\<exists>s c s' b. sb_poll S tx s = (Inr c, s') \<and> cf_included_at c = Some b \<and>
     unat b \<le> unat (cf_current_height c) \<and> unat required \<le> unat (cf_current_height c) - unat b + 1)"

lemma poll_loop_reached:
  assumes "poll_loop S tx required n h (p, s) = (Inr True, p', s')" and "awaits p tx"
  shows "pl_targets p' = pl_targets p \<and> (\<exists>b d. pl_state p' = PlConfirmed tx b d \<and> required \<le> d) \<and> deep_poll S tx required"
  using assms
proof (induction n arbitrary: h p s)
  case (Suc n)
  obtain c s1 where poll: "sb_poll S tx s = (Inr c, s1)"
    using Suc.prems(1) by (cases "sb_poll S tx s"; cases "fst (sb_poll S tx s)") auto
  have mono: "\<not> cf_current_height c < h" using Suc.prems(1) poll by (auto split: if_splits)
  show ?case
  proof (cases "cf_included_at c")
    case None
    then show ?thesis using Suc poll mono by simp
  next
    case (Some b)
    obtain p1 where conf: "pl_confirmed b (cf_current_height c) p = (Inr (), p1)"
      using Suc.prems(1) poll mono Some
      by (cases "pl_confirmed b (cf_current_height c) p"; cases "fst (pl_confirmed b (cf_current_height c) p)") auto
    note p1 = awaits_confirmed [OF Suc.prems(2) conf]
    let ?d = "u64_saturating_add (cf_current_height c - b) 1"
    show ?thesis
    proof (cases "required \<le> ?d")
      case True
      have "unat required \<le> unat (cf_current_height c) - unat b + 1"
        using True p1 by (simp add: word_le_nat_alt unat_u64_saturating_add unat_sub)
      with True show ?thesis using Suc.prems(1) poll mono Some conf p1 by (auto simp: deep_poll_def)
    next
      case False
      then have "poll_loop S tx required n (cf_current_height c) (p1, s1) = (Inr True, p', s')"
        using Suc.prems(1) poll mono Some conf p1 by simp
      from Suc.IH [OF this] p1 show ?thesis by simp
    qed
  qed
qed simp

lemma fixture_wallet_simps [simp]:
  "sb_broadcast (fixture_wallet L) = fs_broadcast" "sb_poll (fixture_wallet L) = fs_poll"
  "sb_calendar_proof (fixture_wallet L) tx s = (fs_calendar_proof L tx s, s)"
  by (simp_all add: fixture_wallet_def)

text \<open>
  What makes a wallet live: a broadcast from an idle state is taken under a reference that is not empty and will be
  included at block \<open>i\<close>; from then on every poll reports a higher tip and, once the tip has reached \<open>i\<close>, the
  inclusion, and a proof can be had as soon as the tip is there.
\<close>

locale live_wallet =
  fixes S :: "'s submitter"
    and tip :: "'s \<Rightarrow> u64"
    and idle :: "u64 \<Rightarrow> 's \<Rightarrow> bool"
    and sent :: "string \<Rightarrow> u64 \<Rightarrow> 's \<Rightarrow> bool"
  assumes broadcast_sent: "idle i s \<Longrightarrow> \<exists>tx s'. sb_broadcast S root s = (Inr \<lparr>bc_tx_ref = tx, bc_submitted_height = tip s\<rparr>, s') \<and>
      tx \<noteq> [] \<and> sent tx i s' \<and> tip s' = tip s"
    and poll_advances: "sent tx i s \<Longrightarrow> unat (tip s) + 1 < 2 ^ 64 \<Longrightarrow>
      \<exists>s'. sb_poll S tx s = (Inr \<lparr>cf_current_height = tip s', cf_included_at = (if i \<le> tip s' then Some i else None)\<rparr>, s') \<and>
        sent tx i s' \<and> tip s < tip s'"
    and proof_ready: "sent tx i s \<Longrightarrow> i \<le> tip s \<Longrightarrow> is_ok (fst (sb_calendar_proof S tx s))"
begin

text \<open>A budget that covers the blocks to inclusion and the required depth is enough.\<close>

lemma poll_loop_deep:
  assumes "sent tx i s" and "awaits p tx" and "h \<le> tip s" and "unat (tip s) + 1 < 2 ^ 64" and "0 < n"
    and "unat i \<le> unat (tip s) + n" and "unat i + unat required \<le> unat (tip s) + n + 1" and "unat i + unat required \<le> 2 ^ 64"
  shows "\<exists>p' s'. poll_loop S tx required n h (p, s) = (Inr True, p', s') \<and> sent tx i s' \<and> i \<le> tip s'"
  using assms
proof (induction n arbitrary: h p s)
  case (Suc n)
  obtain s' where poll: "sb_poll S tx s = (Inr \<lparr>cf_current_height = tip s', cf_included_at = (if i \<le> tip s' then Some i else None)\<rparr>, s')"
    and sent: "sent tx i s'" and higher: "tip s < tip s'"
    using poll_advances [OF Suc.prems(1,4)] by blast
  let ?t = "tip s'"
  have t: "unat (tip s) < unat ?t" using higher by (simp add: word_less_nat_alt)
  have mono: "\<not> ?t < h" using Suc.prems(3) higher by simp
  have below: "unat ?t < 2 ^ 64" using unsigned_less [of ?t, where ?'a = nat] by simp
  show ?case
  proof (cases "i \<le> ?t")
    case False
    then have i: "unat ?t < unat i" by (simp add: word_le_nat_alt)
    then have "unat ?t + 1 < 2 ^ 64" using unsigned_less [of i, where ?'a = nat] by simp
    moreover have "0 < n" "unat i \<le> unat ?t + n" "unat i + unat required \<le> unat ?t + n + 1" using i t Suc.prems(6,7) by simp_all
    ultimately show ?thesis
      using Suc.IH [OF sent Suc.prems(2) order_refl] Suc.prems(8) False by (simp add: poll mono)
  next
    case True
    let ?d = "u64_saturating_add (?t - i) 1" and ?p = "p\<lparr>pl_state := PlConfirmed tx i (u64_saturating_add (?t - i) 1)\<rparr>"
    have conf: "pl_confirmed i ?t p = (Inr (), ?p)"
      using Suc.prems(2) True by (auto simp: awaits_def pl_confirmed_def u64_checked_sub_def)
    show ?thesis
    proof (cases "required \<le> ?d")
      case deep: True
      then show ?thesis using True sent by (simp add: poll mono conf)
    next
      case shallow: False
      have "unat ?d < unat required" using shallow by (simp add: word_le_nat_alt)
      then have d: "unat ?t + 1 < unat i + unat required"
        using True below unsigned_less [of required, where ?'a = nat]
        by (auto simp: unat_u64_saturating_add unat_sub word_le_nat_alt min_def split: if_splits)
      then have "unat ?t + 1 < 2 ^ 64" "0 < n" "unat i \<le> unat ?t + n" "unat i + unat required \<le> unat ?t + n + 1"
        using Suc.prems(7,8) t True by (simp_all add: word_le_nat_alt)
      moreover have "awaits ?p tx" by (simp add: awaits_def)
      ultimately show ?thesis
        using Suc.IH [OF sent _ order_refl, of ?p] Suc.prems(8) True shallow by (simp add: poll mono conf)
    qed
  qed
qed simp

end

lemma unat_Suc_tip: "unat t + 1 < 2 ^ 64 \<Longrightarrow> unat (t + 1 :: u64) = unat t + 1"
  by (simp add: unat_word_ariths)

definition fs_idle :: "u64 \<Rightarrow> fixture_submitter \<Rightarrow> bool" where
  "fs_idle i s \<longleftrightarrow> \<not> fs_never_confirms s \<and> i = u64_saturating_add (fs_tip s) (fs_blocks_to_inclusion s)"

definition fs_sent :: "string \<Rightarrow> u64 \<Rightarrow> fixture_submitter \<Rightarrow> bool" where
  "fs_sent tx i s \<longleftrightarrow> fs_broadcast_height s \<noteq> None \<and> fs_included_height s = Some i"

interpretation fixture_live: live_wallet "fixture_wallet L" fs_tip fs_idle fs_sent for L
proof
  fix i s root
  assume "fs_idle i s"
  then show "\<exists>tx s'. sb_broadcast (fixture_wallet L) root s = (Inr \<lparr>bc_tx_ref = tx, bc_submitted_height = fs_tip s\<rparr>, s') \<and>
      tx \<noteq> [] \<and> fs_sent tx i s' \<and> fs_tip s' = fs_tip s"
    by (simp add: fs_idle_def fs_sent_def fs_broadcast_def Let_def)
next
  fix tx i s
  assume s: "fs_sent tx i s" "unat (fs_tip s) + 1 < 2 ^ 64"
  have "unat (fs_tip s + 1) = unat (fs_tip s) + 1" by (rule unat_Suc_tip [OF s(2)])
  then have "fs_tip s < fs_tip s + 1" by (simp add: word_less_nat_alt)
  then show "\<exists>s'. sb_poll (fixture_wallet L) tx s = (Inr \<lparr>cf_current_height = fs_tip s', cf_included_at =
      (if i \<le> fs_tip s' then Some i else None)\<rparr>, s') \<and> fs_sent tx i s' \<and> fs_tip s < fs_tip s'"
    using s by (auto simp: fs_sent_def fs_poll_def Let_def u64_saturating_add_def)
next
  fix tx i s
  assume "fs_sent tx i s" "i \<le> fs_tip s"
  then show "is_ok (fst (sb_calendar_proof (fixture_wallet L) tx s))"
    by (simp add: fs_sent_def fs_calendar_proof_def not_less)
qed

lemma fixture_never_confirms:
  assumes "fs_broadcast_height s \<noteq> None" and "fs_included_height s = None" and "h \<le> fs_tip s"
  shows "\<exists>s'. poll_loop (fixture_wallet L) tx required n h (p, s) = (Inr False, p, s')"
  using assms
proof (induction n arbitrary: h s)
  case (Suc n)
  let ?t = "u64_saturating_add (fs_tip s) 1"
  have "fs_tip s \<le> ?t"
    using unsigned_less [of "fs_tip s", where ?'a = nat] by (simp add: word_le_nat_alt unat_u64_saturating_add)
  then have "\<not> ?t < h" using Suc.prems(3) by simp
  with Suc.IH [of "s\<lparr>fs_tip := ?t\<rparr>" ?t] Suc.prems show ?case by (simp add: fs_poll_def Let_def)
qed simp

lemma pl_start_Inr: "pl_start L targets = Inr p \<Longrightarrow> pl_targets p = targets \<and> pl_state p = PlPending"
  by (auto simp: pl_start_def result_simps)

lemma pl_start_ok: "targets \<noteq> [] \<Longrightarrow> \<exists>p. pl_start L targets = Inr p \<and> pl_targets p = targets \<and> pl_state p = PlPending"
  by (simp add: pl_start_def aggregate_def)

lemma submitted_ok: "pl_state p = PlPending \<Longrightarrow> pl_submitted tx h p = (Inr (), p\<lparr>pl_state := PlSubmitted tx h\<rparr>)"
  by (simp add: pl_submitted_def)

text \<open>The last leg of the contract, from a pipeline that reached its depth.\<close>

lemma finalize_deep:
  assumes "libs_ok L" and "pl_state p = PlConfirmed tx b d" and "required \<le> d"
  shows "fst (pl_finalize L (anchor_policy_new required) ev t p) =
    Inr (map (receipt_for tx t (sha256 L (preimage L (anchor_policy_env L (anchor_policy_new required))))) (pl_targets p))"
  using assms(2,3) by (simp add: pl_finalize_eq [OF assms(1)] anchor_policy_new_def not_less [symmetric])

text \<open>The contract from the answers of the wallet.\<close>

lemma anchor_contract_run:
  assumes "pl_start L targets = Inr p" and "sb_broadcast S (pl_root p) s = (Inr \<lparr>bc_tx_ref = tx, bc_submitted_height = h\<rparr>, s1)"
    and "tx \<noteq> []" and "poll_loop S tx required (unat budget) h (p\<lparr>pl_state := PlSubmitted tx h\<rparr>, s1) = (Inr reached, p1, s2)"
  shows "verify_anchor_submitter_contract L S targets required budget t s =
    (if reached then and_then_st (wrapped submitter_error_text (sb_calendar_proof S tx s2)) (\<lambda>evidence s.
       (and_then (map_err (\<lambda>e. Underlying (pipeline_error_text e))
            (fst (pl_finalize L (anchor_policy_new required) evidence t p1))) (\<lambda>receipts.
        and_then (verify_receipt_coverage (length targets) receipts) (\<lambda>_. Inr receipts)), s))
     else (Inl (AnchorNeverConfirmed required budget), s2))"
  using assms by (simp add: verify_anchor_submitter_contract_def submitted_ok [OF conjunct2 [OF pl_start_Inr [OF assms(1)]]])

lemma anchor_contract_steps:
  assumes "verify_anchor_submitter_contract L S targets required budget t s = (Inr receipts, s')"
  obtains p br s1 p1 s2 ev where "pl_start L targets = Inr p" "sb_broadcast S (pl_root p) s = (Inr br, s1)" "bc_tx_ref br \<noteq> []"
    "poll_loop S (bc_tx_ref br) required (unat budget) (bc_submitted_height br)
      (p\<lparr>pl_state := PlSubmitted (bc_tx_ref br) (bc_submitted_height br)\<rparr>, s1) = (Inr True, p1, s2)"
    "fst (pl_finalize L (anchor_policy_new required) ev t p1) = Inr receipts"
proof -
  from assms obtain p br s1 where start: "pl_start L targets = Inr p" "sb_broadcast S (pl_root p) s = (Inr br, s1)"
    and ne: "bc_tx_ref br \<noteq> []"
    and rest: "(case pl_submitted (bc_tx_ref br) (bc_submitted_height br) p of
         (Inl e, p) \<Rightarrow> (Inl (Underlying (pipeline_error_text e)), s1)
       | (Inr _, p) \<Rightarrow>
           (case poll_loop S (bc_tx_ref br) required (unat budget) (bc_submitted_height br) (p, s1) of
              (Inl e, p, s) \<Rightarrow> (Inl e, s)
            | (Inr reached_depth, p, s) \<Rightarrow>
                if \<not> reached_depth then (Inl (AnchorNeverConfirmed required budget), s)
                else
                  and_then_st (wrapped submitter_error_text (sb_calendar_proof S (bc_tx_ref br) s)) (\<lambda>evidence s.
                    (and_then (map_err (\<lambda>e. Underlying (pipeline_error_text e))
                         (fst (pl_finalize L (anchor_policy_new required) evidence t p))) (\<lambda>receipts.
                     and_then (verify_receipt_coverage (length targets) receipts) (\<lambda>_. Inr receipts)), s)))) = (Inr receipts, s')"
    unfolding verify_anchor_submitter_contract_def and_then_st_Inr wrapped_Inr by (auto split: if_splits)
  note p = pl_start_Inr [OF start(1)]
  from rest obtain p1 s2 ev where
    "poll_loop S (bc_tx_ref br) required (unat budget) (bc_submitted_height br)
      (p\<lparr>pl_state := PlSubmitted (bc_tx_ref br) (bc_submitted_height br)\<rparr>, s1) = (Inr True, p1, s2)"
    "fst (pl_finalize L (anchor_policy_new required) ev t p1) = Inr receipts"
    unfolding submitted_ok [OF conjunct2 [OF p]]
    by (auto simp: and_then_st_Inr wrapped_Inr result_simps split: prod.splits sum.splits if_splits)
  with start ne that show thesis by blast
qed

context live_wallet
begin

lemma contract_passes:
  assumes "libs_ok L" and "targets \<noteq> []" and "idle i s" and "0 < unat budget" and "unat (tip s) + 1 < 2 ^ 64"
    and "unat i \<le> unat (tip s) + unat budget" and "unat i + unat required \<le> unat (tip s) + unat budget + 1"
    and "unat i + unat required \<le> 2 ^ 64"
  shows "\<exists>receipts s'. verify_anchor_submitter_contract L S targets required budget t s = (Inr receipts, s') \<and>
    map ar_tree_head receipts = map at_tree_head targets"
proof -
  obtain p where p: "pl_start L targets = Inr p" "pl_targets p = targets"
    using pl_start_ok [OF assms(2)] by blast
  obtain tx s1 where bc: "sb_broadcast S (pl_root p) s = (Inr \<lparr>bc_tx_ref = tx, bc_submitted_height = tip s\<rparr>, s1)"
    and tx: "tx \<noteq> []" and s1: "sent tx i s1" "tip s1 = tip s"
    using broadcast_sent [OF assms(3)] by blast
  let ?p = "p\<lparr>pl_state := PlSubmitted tx (tip s)\<rparr>"
  have await: "awaits ?p tx" by (simp add: awaits_def)
  obtain p' s2 where loop: "poll_loop S tx required (unat budget) (tip s) (?p, s1) = (Inr True, p', s2)"
    and s2: "sent tx i s2" "i \<le> tip s2"
    using poll_loop_deep [OF s1(1) await, of "tip s" "unat budget" required] assms(4-8) s1(2) by auto
  obtain c d where d: "pl_state p' = PlConfirmed tx c d" "required \<le> d" "pl_targets p' = targets"
    using poll_loop_reached [OF loop await] p(2) by auto
  obtain ev s3 where "sb_calendar_proof S tx s2 = (Inr ev, s3)"
    using proof_ready [OF s2] by (cases "sb_calendar_proof S tx s2") (auto simp: is_ok_iff)
  then show ?thesis
    unfolding anchor_contract_run [OF p(1) bc tx loop]
    by (simp add: verify_receipt_coverage_def finalize_deep [OF assms(1) d(1,2)] d(3) receipt_for_def comp_def)
qed

end

lemma fixture_contract_passes:
  assumes "libs_ok L" and "targets \<noteq> []" and "0 < budget" and "unat start + unat budget < 2 ^ 64"
    and "unat blocks \<le> unat budget" and "unat blocks + unat required \<le> unat budget + 1"
  shows "\<exists>receipts s'. verify_anchor_submitter_contract L (fixture_wallet L) targets required budget t (fs_new start blocks) =
      (Inr receipts, s') \<and> map ar_tree_head receipts = map at_tree_head targets"
proof -
  have "0 < unat budget" using assms(3) by (simp add: word_less_nat_alt)
  moreover have "unat (u64_saturating_add start blocks) = unat start + unat blocks"
    using assms(4,5) by (simp add: unat_u64_saturating_add)
  moreover have "fs_idle (u64_saturating_add start blocks) (fs_new start blocks)" "fs_tip (fs_new start blocks) = start"
    by (simp_all add: fs_idle_def fs_new_def)
  ultimately show ?thesis
    using assms by (intro fixture_live.contract_passes [where i = "u64_saturating_add start blocks"]) simp_all
qed

lemma fixture_reports_unconfirmed:
  assumes "targets \<noteq> []"
  shows "fst (verify_anchor_submitter_contract L (fixture_wallet L) targets required n t (fs_never_confirming start)) =
      Inl (AnchorNeverConfirmed required n)"
proof -
  obtain p where p: "pl_start L targets = Inr p" using pl_start_ok [OF assms] by blast
  define tx where "tx = ''fixture-tx-'' @ show_nat (unat (u64_saturating_add 0 1))"
  have tx: "tx \<noteq> []" by (simp add: tx_def)
  let ?p = "p\<lparr>pl_state := PlSubmitted tx start\<rparr>"
  let ?n = "(fs_never_confirming start)\<lparr>fs_seq := u64_saturating_add 0 1, fs_broadcast_height := Some start, fs_included_height := None\<rparr>"
  have bc: "sb_broadcast (fixture_wallet L) (pl_root p) (fs_never_confirming start) =
      (Inr \<lparr>bc_tx_ref = tx, bc_submitted_height = start\<rparr>, ?n)"
    by (simp add: fs_broadcast_def fs_never_confirming_def fs_new_def Let_def tx_def)
  obtain s' where "poll_loop (fixture_wallet L) tx required (unat n) start (?p, ?n) = (Inr False, ?p, s')"
    using fixture_never_confirms [of ?n start L tx required "unat n" ?p] by (auto simp: fs_never_confirming_def fs_new_def)
  from anchor_contract_run [OF p bc tx this, of t] show ?thesis by simp
qed

subsection \<open>Properties\<close>

text \<open>What a passing wallet has shown: whatever the wallet, when the anchoring contract passes, it
  broadcast under a reference that is not empty, some poll of it showed that transaction at least as deep as
  required, and the receipts are one per target, in order, for its head and entry count, all naming that
  transaction, the given time and the hash of the policy that asks for the required depth.\<close>

theorem anchor_contract_sound:
  assumes "libs_ok L" and "verify_anchor_submitter_contract L S targets required budget t s = (Inr receipts, s')"
  shows "\<exists>p br s1 ph. pl_start L targets = Inr p \<and> sb_broadcast S (pl_root p) s = (Inr br, s1) \<and> bc_tx_ref br \<noteq> [] \<and>
    deep_poll S (bc_tx_ref br) required \<and> anchor_policy_hash L (anchor_policy_new required) = Inr ph \<and>
    receipts = map (\<lambda>g. \<lparr>ar_tree_head = at_tree_head g, ar_entry_count = at_entry_count g,
      ar_method = PublicChain ''bitcoin'' (bc_tx_ref br), ar_anchored_at = t, ar_confirmation_policy = ph\<rparr>) targets"
  using assms(2)
proof (cases rule: anchor_contract_steps)
  case (1 p br s1 p1 s2 ev)
  let ?ph = "sha256 L (preimage L (anchor_policy_env L (anchor_policy_new required)))"
  have "awaits (p\<lparr>pl_state := PlSubmitted (bc_tx_ref br) (bc_submitted_height br)\<rparr>) (bc_tx_ref br)" by (simp add: awaits_def)
  from poll_loop_reached [OF 1(4) this] obtain b d where reached: "pl_targets p1 = targets"
    "pl_state p1 = PlConfirmed (bc_tx_ref br) b d" "required \<le> d" "deep_poll S (bc_tx_ref br) required"
    using pl_start_Inr [OF 1(1)] by auto
  have "receipts = map (receipt_for (bc_tx_ref br) t ?ph) targets"
    using finalize_deep [OF assms(1) reached(2,3)] 1(5) reached(1) by simp
  moreover have "anchor_policy_hash L (anchor_policy_new required) = Inr ?ph"
    unfolding anchor_policy_hash_def by (rule anchor_policy_identity.hash_total [OF assms(1) TrueI])
  ultimately show ?thesis using 1(1-3) reached(4) unfolding receipt_for_def by blast
qed

theorem anchor_contract_sound_witness:
  "\<exists>receipts s'. verify_anchor_submitter_contract (demo_libs (\<lambda>_. hash_of_byte (CHR 0x05)))
     (fixture_wallet (demo_libs (\<lambda>_. hash_of_byte (CHR 0x05)))) [\<lparr>at_tree_head = hash_of_byte (CHR 0x01), at_entry_count = 3\<rparr>]
     2 5 99 (fs_new 100 1) = (Inr receipts, s') \<and> map ar_entry_count receipts = [3]"
proof -
  let ?L = "demo_libs (\<lambda>_. hash_of_byte (CHR 0x05))" and ?targets = "[\<lparr>at_tree_head = hash_of_byte (CHR 0x01), at_entry_count = 3\<rparr>]"
  obtain receipts s' where run: "verify_anchor_submitter_contract ?L (fixture_wallet ?L) ?targets 2 5 99 (fs_new 100 1) = (Inr receipts, s')"
    using fixture_contract_passes [of ?L ?targets 5 100 1 2 99] by auto
  from anchor_contract_sound [OF demo_libs_ok run] have "map ar_entry_count receipts = [3]" by auto
  with run show ?thesis by auto
qed

text \<open>C36: The fixture wallet is live: for any targets, a budget of polls that covers the blocks to inclusion
  and the required depth, with heights that stay in range, makes the contract pass with a receipt for
  every target, and a wallet that never confirms exhausts any budget and is reported, never left pending.\<close>

theorem fixture_wallet_conforms:
  assumes "libs_ok L" and "targets \<noteq> []" and "0 < budget" and "unat tip + unat budget < 2 ^ 64"
    and "unat blocks \<le> unat budget" and "unat blocks + unat required \<le> unat budget + 1"
  shows "(\<exists>receipts s'. verify_anchor_submitter_contract L (fixture_wallet L) targets required budget t (fs_new tip blocks) =
      (Inr receipts, s') \<and> map ar_tree_head receipts = map at_tree_head targets) \<and>
    fst (verify_anchor_submitter_contract L (fixture_wallet L) targets required n t (fs_never_confirming tip')) =
      Inl (AnchorNeverConfirmed required n)"
  using fixture_contract_passes [OF assms] fixture_reports_unconfirmed [OF assms(2)] by blast

theorem fixture_wallet_conforms_witness:
  "\<exists>receipts s'. verify_anchor_submitter_contract (demo_libs (\<lambda>_. hash_of_byte (CHR 0x05)))
     (fixture_wallet (demo_libs (\<lambda>_. hash_of_byte (CHR 0x05)))) [\<lparr>at_tree_head = hash_of_byte (CHR 0x01), at_entry_count = 3\<rparr>]
     6 8 99 (fs_new 100 3) = (Inr receipts, s') \<and> map ar_tree_head receipts = [hash_of_byte (CHR 0x01)]"
  using fixture_wallet_conforms [of "demo_libs (\<lambda>_. hash_of_byte (CHR 0x05))"
      "[\<lparr>at_tree_head = hash_of_byte (CHR 0x01), at_entry_count = 3\<rparr>]" 8 100 3 6 99]
  by simp

text \<open>What a passing chain source has shown: it serves the expected chain under a name that is not empty and,
  unless SHA-256 collides on the two envelopes, its answer at the high tip contains the same movements up to the
  height settled at the low tip as its answer at the low tip.\<close>

theorem chain_contract_sound:
  assumes "libs_ok L" and "verify_chain_source_contract L source expected policy address low high w = (Inr (), w')"
  shows "cs_chain source = expected \<and> cs_source_id source \<noteq> [] \<and>
    (\<exists>w1 at_low w2 at_high. cs_address_history source address low w1 = (Inr at_low, w2) \<and>
      cs_address_history source address high w2 = (Inr at_high, w') \<and>
      (no_collision L {preimage L (history_env L (clamp (settled_height policy low) at_low)),
         preimage L (history_env L (clamp (settled_height policy low) at_high))} \<longrightarrow>
       settled_at (settled_height policy low) at_low = settled_at (settled_height policy low) at_high))"
proof -
  let ?c = "clamp (settled_height policy low)"
  from assms(2) obtain h w1 where ident: "verify_identity source expected = Inr ()"
    and stable: "verify_settled_history_stable L source policy address low high w1 = (Inr (), w')"
    by (auto simp: verify_chain_source_contract_def and_then_st_Inr)
  obtain at_low w2 at_high where answers: "cs_address_history source address low w1 = (Inr at_low, w2)"
    "cs_address_history source address high w2 = (Inr at_high, w')" and eq: "history_hash L (?c at_low) = history_hash L (?c at_high)"
    using settled_stable_Inr [OF assms(1) stable] by blast
  have "settled_at (settled_height policy low) at_low = settled_at (settled_height policy low) at_high"
    if "no_collision L {preimage L (history_env L (?c at_low)), preimage L (history_env L (?c at_high))}"
    using history_hash_eq_iff [OF assms(1) that] eq by (simp add: history_env_eq_iff flip: settled_movements_clamp)
  with ident answers show ?thesis unfolding verify_identity_Inr by blast
qed

theorem chain_contract_sound_witness:
  "verify_chain_source_contract (demo_libs (\<lambda>_. hash_of_byte (CHR 0x07))) (demo_source ''core'' [demo_movement ''t1'' 5 90])
     Bitcoin demo_finality ''bc1q'' 100 110 () = (Inr (), ()) \<and>
   cs_source_id (demo_source ''core'' [demo_movement ''t1'' 5 90]) \<noteq> []"
proof -
  have run: "verify_chain_source_contract (demo_libs (\<lambda>_. hash_of_byte (CHR 0x07))) (demo_source ''core'' [demo_movement ''t1'' 5 90])
     Bitcoin demo_finality ''bc1q'' 100 110 () = (Inr (), ())"
    using fixture_source_passes [OF demo_libs_ok, of "fx_with_history (demo_history [demo_movement ''t1'' 5 90]) (fx_new Bitcoin ''core'')"
      demo_finality _ "''bc1q''" 100 110 "()"]
    by (simp add: demo_source_def fx_with_history_def fx_new_def prod_eq_iff)
  from chain_contract_sound [OF demo_libs_ok run] run show ?thesis by blast
qed

text \<open>The repository's fixtures pass their contracts: a named fixture source of the policy's chain passes
  the source contract for every address and every two tips, and an untouched fixture ledger passes the
  adapter contract for every batch prepared and approved by two people.\<close>

theorem fixtures_conform:
  assumes "libs_ok L" and "fx_chain s = fp_chain policy" and "fx_source_id s \<noteq> []" and "preparer \<noteq> approver"
  shows "fst (verify_chain_source_contract L (fixture_chain_source s) (fx_chain s) policy address low high w) = Inr () \<and>
    fst (verify_gl_adapter_contract L (fixture_adapter L) batch preparer approver fg_new) = Inr ()"
  by (intro conjI fixture_source_passes [OF assms(1-3)] fixture_gl_conforms [OF assms(1,4)])

theorem fixtures_conform_witness:
  "fst (verify_gl_adapter_contract demo_posting_libs (fixture_adapter demo_posting_libs) demo_batch ''alice'' ''bob'' fg_new) = Inr ()"
  by (rule fixtures_conform [where s = "fx_new Bitcoin ''core''" and policy = demo_finality, THEN conjunct2])
    (simp_all add: fx_new_def)

text \<open>A double posting passes: an adapter that books all entries of the batch again on every submission of the
  same key, always answering with one reference, passes the whole contract, and ends with every entry booked
  four times.\<close>

theorem double_posting_conforms:
  assumes "libs_ok L" and "preparer \<noteq> approver"
  shows "verify_gl_adapter_contract L (doubling_adapter L) batch preparer approver [] =
    (Inr (), concat (replicate 4 (map (entry_digest L) (pb_entries batch))))"
  using assms by (rule doubling_conforms)

theorem double_posting_conforms_witness:
  "fst (verify_gl_adapter_contract demo_posting_libs (doubling_adapter demo_posting_libs) demo_batch ''alice'' ''bob'' []) = Inr ()"
  by (subst double_posting_conforms) simp_all

end
