(* ===== verification/Drafts.thy ===== *)
theory Drafts
  imports Queues Scope Chainsource Gaap Ledger
begin

section \<open>Drafts and the ledger that takes them\<close>

text \<open>
  What the drafts of the components share: their layer fits their provenance, they correct nothing and their
  payload is canonical. A ledger accepts every such draft at a knowledge time after the last of its stream, so a
  sequence of drafts at increasing times enters whole and in order.
\<close>

definition admissible :: "event_draft \<Rightarrow> bool" where
  "admissible d \<longleftrightarrow> ev_layer d = prov_layer (ev_provenance d) \<and> ev_supersedes d = None \<and> payload_ok (ev_payload d)"

text \<open>The drafts the components build for the ledger, each by the function that builds it.\<close>

inductive drafted :: "libs \<Rightarrow> event_draft \<Rightarrow> bool" for L where
  drafted_entry: "draft_policy_output L entry tenant t inputs = Inr d \<Longrightarrow> drafted L d"
| drafted_auto_net: "draft_auto_net L p tenant t = Inr d \<Longrightarrow> drafted L d"
| drafted_resolution: "draft_resolution L p s tenant t = Inr d \<Longrightarrow> drafted L d"
| drafted_designation: "draft_designation L g state tenant t = Inr d \<Longrightarrow> drafted L d"
| drafted_scope: "draft_scope_judgment L a dstate t = Inr d \<Longrightarrow> drafted L d"
| drafted_observation: "draft_history_observation L r tenant source evidence t = Inr d \<Longrightarrow> drafted L d"

lemma json_ok_payload: "(\<And>k. json_ok (Suc (Suc (Suc (Suc (Suc (Suc k)))))) v) \<Longrightarrow> payload_ok v"
proof -
  assume "\<And>k. json_ok (Suc (Suc (Suc (Suc (Suc (Suc k)))))) v"
  from this [of 121] show "payload_ok v" by (simp add: payload_ok_def)
qed

lemma drafted_admissible:
  assumes "drafted L d"
  shows "admissible d"
  using assms
proof cases
  case (drafted_entry entry tenant t inputs)
  then show ?thesis by (auto simp: admissible_def draft_policy_output_def result_simps intro!: json_ok_payload)
next
  case (drafted_auto_net p tenant t)
  then show ?thesis by (auto simp: admissible_def draft_auto_net_def result_simps split: if_splits intro!: json_ok_payload)
next
  case (drafted_resolution p s tenant t)
  then show ?thesis by (cases s) (auto simp: admissible_def draft_resolution_def result_simps intro!: json_ok_payload)
next
  case (drafted_designation g state tenant t)
  then show ?thesis by (auto simp: admissible_def draft_designation_def result_simps split: designation_state.splits intro!: json_ok_payload)
next
  case (drafted_scope a dstate t)
  then show ?thesis by (auto simp: admissible_def draft_scope_judgment_def result_simps split: dual_control_state.splits intro!: json_ok_payload)
next
  case (drafted_observation r tenant source evidence t)
  then show ?thesis by (auto simp: admissible_def draft_history_observation_def split: reconciliation.splits intro!: json_ok_payload)
qed

lemma admissible_accepted:
  assumes "libs_ok L" and "admissible d"
    and "lg_stream lg (ev_tenant d) = [] \<or> se_knowledge_time (last (lg_stream lg (ev_tenant d))) < t"
  obtains e where "lg_append L d t lg = (Inr (se_event_id e), lg_push e lg)" "se_draft e = d" "se_knowledge_time e = t"
    "se_event_id e = sha256 L (event_preimage L (lg_prev L lg (ev_tenant d)) t d)"
proof -
  note d = assms(2) [unfolded admissible_def]
  note cid = compute_id_sha [OF assms(1), of d "lg_prev L lg (ev_tenant d)" t]
  with d assms(3) obtain e where e: "lg_admit L d t lg = Inr e"
    by (auto simp: lg_admit_Inr lg_check_time_Inr lg_check_supersedes_Inr)
  then have "se_draft e = d" "se_knowledge_time e = t"
    "se_event_id e = sha256 L (event_preimage L (lg_prev L lg (ev_tenant d)) t d)"
    using cid d by (auto simp: lg_admit_Inr)
  with e that show thesis by (auto simp: lg_append_def)
qed

text \<open>A batch of drafts of one tenant, at strictly increasing knowledge times after the stream's last.\<close>

fun times_follow :: "timestamp_ns option \<Rightarrow> timestamp_ns list \<Rightarrow> bool" where
  "times_follow l [] = True"
| "times_follow l (t # ts) = ((case l of None \<Rightarrow> True | Some u \<Rightarrow> u < t) \<and> times_follow (Some t) ts)"

definition last_time :: "ledger \<Rightarrow> tenant_id \<Rightarrow> timestamp_ns option" where
  "last_time lg tenant = (if lg_stream lg tenant = [] then None else Some (se_knowledge_time (last (lg_stream lg tenant))))"

lemma drafted_batch_accepted:
  assumes "libs_ok L" and "list_all (\<lambda>(d, t). drafted L d \<and> ev_tenant d = tenant) ops" and "times_follow (last_time lg tenant) (map snd ops)"
  shows "\<exists>es. lg_stream (lg_run L ops lg) tenant = lg_stream lg tenant @ es \<and>
    map (\<lambda>e. (se_draft e, se_knowledge_time e)) es = ops"
  using assms(2,3)
proof (induction ops arbitrary: lg)
  case (Cons op ops)
  obtain d t where op: "op = (d, t)" by (cases op)
  have time: "lg_stream lg (ev_tenant d) = [] \<or> se_knowledge_time (last (lg_stream lg (ev_tenant d))) < t"
    using Cons.prems by (auto simp: op last_time_def split: if_splits)
  have "drafted L d" using Cons.prems(1) by (simp add: op)
  then obtain e where e: "lg_append L d t lg = (Inr (se_event_id e), lg_push e lg)" "se_draft e = d" "se_knowledge_time e = t"
    using admissible_accepted [OF assms(1) drafted_admissible time] by blast
  have stream: "lg_stream (lg_push e lg) tenant = lg_stream lg tenant @ [e]"
    using Cons.prems(1) e(2) by (simp add: lg_stream_push op)
  then have "last_time (lg_push e lg) tenant = Some t" by (simp add: last_time_def e(3))
  with Cons.IH [of "lg_push e lg"] Cons.prems obtain es where
    "lg_stream (lg_run L ops (lg_push e lg)) tenant = lg_stream (lg_push e lg) tenant @ es"
    "map (\<lambda>e. (se_draft e, se_knowledge_time e)) es = ops"
    by (auto simp: op)
  then show ?case using stream e by (intro exI [of _ "e # es"]) (simp add: op)
qed simp

end
