(* ===== verification/Ledger_Spec.thy ===== *)
theory Ledger_Spec
  imports Ledger
begin

section \<open>What the ledger promises\<close>

text \<open>
  The specification behind \<open>treasury-ledger/ledger.rs\<close>: one journal, the list of all sealed events in the order of their
  appends. A tenant's stream is what the journal holds of the tenant, and a supersession looks for its target in the journal
  itself. The ledger of the code keeps three structures instead (streams by tenant, an index from ids to positions, a set of
  superseded ids). The simulation relation ties them to the journal, every append keeps it, and the theorem is that no
  sequence of appends and queries can tell the two apart, errors included.
\<close>

type_synonym journal = "sealed_event list"

definition jn_stream :: "journal \<Rightarrow> tenant_id \<Rightarrow> sealed_event list" where
  "jn_stream j tenant = filter (\<lambda>e. ev_tenant (se_draft e) = tenant) j"

definition jn_lookup :: "journal \<Rightarrow> event_id \<Rightarrow> sealed_event option" where
  "jn_lookup j x = List.find (\<lambda>e. se_event_id e = x) (rev j)"

definition jn_admit :: "libs \<Rightarrow> event_draft \<Rightarrow> timestamp_ns \<Rightarrow> journal \<Rightarrow> (ledger_error, sealed_event) result" where
  "jn_admit L d t j =
     (let s = jn_stream j (ev_tenant d);
          prev = (if s = [] then genesis_hash L (ev_tenant d) else se_event_id (last s)) in
      if ev_layer d \<noteq> prov_layer (ev_provenance d) then Inl (LayerProvenanceMismatch (ev_layer d) (prov_layer (ev_provenance d)))
      else if s \<noteq> [] \<and> t \<le> se_knowledge_time (last s) then Inl (NonMonotonicKnowledgeTime (se_knowledge_time (last s)) t)
      else and_then
        (case ev_supersedes d of
           None \<Rightarrow> Inr ()
         | Some x \<Rightarrow>
             (case jn_lookup j x of
                None \<Rightarrow> Inl (SupersedeTargetMissing x)
              | Some e \<Rightarrow>
                  if ev_tenant (se_draft e) \<noteq> ev_tenant d then Inl (SupersedeCrossTenant x)
                  else if ev_layer (se_draft e) \<noteq> ev_layer d then Inl (SupersedeCrossLayer (ev_layer (se_draft e)) (ev_layer d))
                  else if x \<in> set (targets j) then Inl (AlreadySuperseded x) else Inr ()))
        (\<lambda>_. and_then (map_err LedgerCanon (compute_id L prev t d)) (\<lambda>x.
          Inr \<lparr>se_event_id = x, se_prev = prev, se_knowledge_time = t, se_draft = d\<rparr>)))"

definition jn_append :: "libs \<Rightarrow> event_draft \<Rightarrow> timestamp_ns \<Rightarrow> journal \<Rightarrow> (ledger_error, event_id) result \<times> journal" where
  "jn_append L d t j = (case jn_admit L d t j of Inl e \<Rightarrow> (Inl e, j) | Inr e \<Rightarrow> (Inr (se_event_id e), j @ [e]))"

subsection \<open>The simulation\<close>

text \<open>The index holds, for every id, the position of its latest event.\<close>

definition index_sim :: "ledger \<Rightarrow> journal \<Rightarrow> bool" where
  "index_sim lg j \<longleftrightarrow> (\<forall>x. case jn_lookup j x of
     None \<Rightarrow> hm_get (lg_by_id lg) x = None
   | Some e \<Rightarrow> \<exists>i. hm_get (lg_by_id lg) x = Some (ev_tenant (se_draft e), i) \<and>
       slice_get (lg_stream lg (ev_tenant (se_draft e))) i = Some e)"

definition simulates :: "ledger \<Rightarrow> journal \<Rightarrow> bool" where
  "simulates lg j \<longleftrightarrow> (\<forall>tenant. lg_stream lg tenant = jn_stream j tenant) \<and> index_sim lg j \<and> lg_superseded lg = set (targets j)"

lemma simulates_new: "simulates lg_new []"
  by (simp add: simulates_def index_sim_def jn_stream_def jn_lookup_def) (simp add: lg_new_def)

lemma jn_lookup_snoc: "jn_lookup (j @ [e]) x = (if se_event_id e = x then Some e else jn_lookup j x)"
  by (simp add: jn_lookup_def)

lemma jn_stream_snoc: "jn_stream (j @ [e]) tenant = jn_stream j tenant @ (if ev_tenant (se_draft e) = tenant then [e] else [])"
  by (simp add: jn_stream_def)

lemma slice_get_append: "slice_get xs i = Some x \<Longrightarrow> slice_get (xs @ ys) i = Some x"
  by (auto simp: slice_get_def nth_append split: if_splits)

lemma index_sim_push:
  assumes "index_sim lg j"
  shows "index_sim (lg_push e lg) (j @ [e])"
  unfolding index_sim_def
proof
  fix x
  let ?tn = "ev_tenant (se_draft e)"
  have idx: "hm_get (lg_by_id (lg_push e lg)) x = (if x = se_event_id e then Some (?tn, length (lg_stream lg ?tn)) else hm_get (lg_by_id lg) x)"
    by (simp add: lg_push_def Let_def)
  have stream: "lg_stream (lg_push e lg) u = lg_stream lg u @ (if u = ?tn then [e] else [])" for u
    by (simp add: lg_stream_push)
  show "case jn_lookup (j @ [e]) x of
     None \<Rightarrow> hm_get (lg_by_id (lg_push e lg)) x = None
   | Some f \<Rightarrow> \<exists>i. hm_get (lg_by_id (lg_push e lg)) x = Some (ev_tenant (se_draft f), i) \<and>
       slice_get (lg_stream (lg_push e lg) (ev_tenant (se_draft f))) i = Some f"
    using assms [unfolded index_sim_def, rule_format, of x]
    by (auto simp: idx stream jn_lookup_snoc slice_get_append split: option.splits) (simp_all add: slice_get_def)
qed

lemma simulates_push: "simulates lg j \<Longrightarrow> simulates (lg_push e lg) (j @ [e])"
  by (auto simp: simulates_def index_sim_push jn_stream_snoc lg_stream_push lg_superseded_push split: option.splits)

lemma admit_sim:
  assumes "simulates lg j"
  shows "lg_admit L d t lg = jn_admit L d t j"
proof -
  let ?s = "jn_stream j (ev_tenant d)"
  have s: "lg_stream lg tenant = jn_stream j tenant" for tenant using assms by (simp add: simulates_def)
  have prev: "lg_prev L lg (ev_tenant d) = (if ?s = [] then genesis_hash L (ev_tenant d) else se_event_id (last ?s))"
    by (simp add: lg_prev_stream s)
  have time: "lg_check_time d t lg = (if ?s \<noteq> [] \<and> t \<le> se_knowledge_time (last ?s)
      then Inl (NonMonotonicKnowledgeTime (se_knowledge_time (last ?s)) t) else Inr ())"
    by (simp add: lg_check_time_def last_of_stream last_event_def s)
  have "lg_check_supersedes d lg = (case ev_supersedes d of
      None \<Rightarrow> Inr ()
    | Some x \<Rightarrow> (case jn_lookup j x of
        None \<Rightarrow> Inl (SupersedeTargetMissing x)
      | Some e \<Rightarrow> if ev_tenant (se_draft e) \<noteq> ev_tenant d then Inl (SupersedeCrossTenant x)
          else if ev_layer (se_draft e) \<noteq> ev_layer d then Inl (SupersedeCrossLayer (ev_layer (se_draft e)) (ev_layer d))
          else if x \<in> set (targets j) then Inl (AlreadySuperseded x) else Inr ()))"
  proof (cases "ev_supersedes d")
    case (Some x)
    have sup: "lg_superseded lg = set (targets j)" using assms by (simp add: simulates_def)
    show ?thesis
    proof (cases "jn_lookup j x")
      case None
      then have "hm_get (lg_by_id lg) x = None" using assms by (auto simp: simulates_def index_sim_def dest!: spec [of _ x])
      then show ?thesis using Some None by (simp add: lg_check_supersedes_def)
    next
      case found: (Some e)
      then obtain i where i: "hm_get (lg_by_id lg) x = Some (ev_tenant (se_draft e), i)"
        "slice_get (lg_stream lg (ev_tenant (se_draft e))) i = Some e"
        using assms by (auto simp: simulates_def index_sim_def dest!: spec [of _ x])
      have "Option.bind (hm_get (lg_streams lg) (ev_tenant (se_draft e))) (\<lambda>s. slice_get s i) = Some e"
        using i(2) by (auto simp: lg_stream_def slice_get_def split: option.splits if_splits)
      then show ?thesis using Some found i(1)
        by (cases "ev_tenant (se_draft e) = ev_tenant d") (simp_all add: lg_check_supersedes_def sup)
    qed
  qed (simp add: lg_check_supersedes_def)
  then show ?thesis by (auto simp: lg_admit_def jn_admit_def Let_def prev time)
qed

lemma append_sim:
  assumes "simulates lg j"
  shows "fst (lg_append L d t lg) = fst (jn_append L d t j) \<and> simulates (snd (lg_append L d t lg)) (snd (jn_append L d t j))"
  using assms simulates_push [OF assms]
  by (cases "jn_admit L d t j") (simp_all add: lg_append_def jn_append_def admit_sim [OF assms])

subsection \<open>Whole runs\<close>

text \<open>The answers of a sequence of appends, and the state they leave.\<close>

fun answers_of :: "(event_draft \<Rightarrow> timestamp_ns \<Rightarrow> 's \<Rightarrow> (ledger_error, event_id) result \<times> 's) \<Rightarrow> (event_draft \<times> timestamp_ns) list
  \<Rightarrow> 's \<Rightarrow> (ledger_error, event_id) result list \<times> 's" where
  "answers_of app [] s = ([], s)"
| "answers_of app ((d, t) # ops) s = (let (r, s1) = app d t s; (rs, s2) = answers_of app ops s1 in (r # rs, s2))"

lemma runs_sim:
  assumes "simulates lg j"
  shows "fst (answers_of (lg_append L) ops lg) = fst (answers_of (jn_append L) ops j) \<and>
    simulates (snd (answers_of (lg_append L) ops lg)) (snd (answers_of (jn_append L) ops j))"
  using assms
proof (induction ops arbitrary: lg j)
  case (Cons op ops)
  obtain d t where op: "op = (d, t)" by (cases op)
  show ?case using append_sim [OF Cons.prems, of L d t] Cons.IH [of "snd (lg_append L d t lg)" "snd (jn_append L d t j)"]
    by (auto simp: op Let_def split: prod.splits)
qed simp

text \<open>C12: The ledger refines its journal: over any sequence of appends, accepted or refused, the ledger with its streams,
  its index and its set of superseded ids answers every call exactly as the plain journal does, the same ids and the
  same errors in the same order; and afterwards every stream is what the journal holds of the tenant, every query as of a
  time shows the journal's events known by then and not superseded by then, and every chain verifies exactly when the
  journal's events of the tenant do.\<close>

theorem ledger_refines_journal:
  "fst (answers_of (lg_append L) ops lg_new) = fst (answers_of (jn_append L) ops []) \<and>
   (let lg = snd (answers_of (lg_append L) ops lg_new); j = snd (answers_of (jn_append L) ops []) in
    \<forall>tenant. lg_stream lg tenant = jn_stream j tenant \<and>
      (\<forall>t. lg_as_of lg tenant t = active_events t (jn_stream j tenant)) \<and>
      lg_verify_chain L lg tenant = verify_from L (genesis_hash L tenant) (jn_stream j tenant))"
proof -
  let ?lg = "snd (answers_of (lg_append L) ops lg_new)" and ?j = "snd (answers_of (jn_append L) ops [])"
  note sim = runs_sim [OF simulates_new, of L ops]
  have "lg_as_of lg tenant t = active_events t (lg_stream lg tenant)"
    "lg_verify_chain L lg tenant = verify_from L (genesis_hash L tenant) (lg_stream lg tenant)" for lg tenant t
    by (simp_all add: lg_as_of_def lg_verify_chain_def lg_stream_def active_events_def split: option.split)
  with sim show ?thesis by (simp add: simulates_def Let_def)
qed

end
