(* ===== verification/Wire.thy ===== *)
theory Wire
  imports Event_Wire Json_Demo Lots Disclosure Corpus
begin

section \<open>Records read back from JSON\<close>

text \<open>
  The derived \<open>Deserialize\<close> of the records that are stored outside the ledger, with the custom readers they use: amounts
  (\<open>treasury-core/amount.rs\<close>), lots with their atoms as decimal text (\<open>treasury-lots/lot.rs\<close>), roll-forward rows
  (\<open>treasury-disclosure/rollforward.rs\<close>) and labelled corpora (\<open>treasury-reconcile/leg.rs\<close>, \<open>corpus.rs\<close>), on the JSON trees of
  \<open>Event_Wire\<close>. Reading undoes writing on every record whose numbers are in range. A reader builds the record from
  its members and checks nothing else: a row that does not roll is read all the same.
\<close>

subsection \<open>Readers\<close>

definition amount_de :: "json \<Rightarrow> asset_amount option" where
  "amount_de v =
     Option.bind (struct_members [''asset'', ''atoms''] v) (\<lambda>m.
     Option.bind (field m ''asset'' string_de) (\<lambda>asset.
     Option.bind (field m ''atoms'' string_de) (\<lambda>atoms.
       result_option (amount_from_wire \<lparr>wire_asset = asset, wire_atoms = atoms\<rparr>))))"

definition atoms_de :: "json \<Rightarrow> int option" where
  "atoms_de v = Option.bind (string_de v) parse_i128"

definition lot_de :: "libs \<Rightarrow> json \<Rightarrow> lot option" where
  "lot_de L v =
     Option.bind (struct_members [''lot_id'', ''tenant'', ''asset'', ''venue'', ''atoms'', ''cost_basis'', ''acquisition_fee'',
       ''acquired_at'', ''source_event'', ''moved_from''] v) (\<lambda>m.
     Option.bind (field m ''lot_id'' (hash_de L)) (\<lambda>i.
     Option.bind (field m ''tenant'' string_de) (\<lambda>tenant.
     Option.bind (field m ''asset'' string_de) (\<lambda>asset.
     Option.bind (field m ''venue'' string_de) (\<lambda>venue.
     Option.bind (field m ''atoms'' atoms_de) (\<lambda>atoms.
     Option.bind (field m ''cost_basis'' amount_de) (\<lambda>cost_basis.
     Option.bind (field m ''acquisition_fee'' amount_de) (\<lambda>acquisition_fee.
     Option.bind (field m ''acquired_at'' time_de) (\<lambda>acquired_at.
     Option.bind (field m ''source_event'' (hash_de L)) (\<lambda>source_event.
     Option.bind (optional_field m ''moved_from'' (hash_de L)) (\<lambda>moved_from.
       Some \<lparr>lot_id = i, lot_tenant = tenant, lot_asset = asset, lot_venue = venue, lot_atoms = atoms,
         lot_cost_basis = cost_basis, lot_acquisition_fee = acquisition_fee, lot_acquired_at = acquired_at,
         lot_source_event = source_event, lot_moved_from = moved_from\<rparr>)))))))))))"

definition row_de :: "libs \<Rightarrow> json \<Rightarrow> roll_row option" where
  "row_de L v =
     Option.bind (struct_members [''asset'', ''opening'', ''additions'', ''disposals'', ''remeasurement'', ''closing'', ''evidence''] v) (\<lambda>m.
     Option.bind (field m ''asset'' string_de) (\<lambda>asset.
     Option.bind (field m ''opening'' amount_de) (\<lambda>opening.
     Option.bind (field m ''additions'' amount_de) (\<lambda>additions.
     Option.bind (field m ''disposals'' amount_de) (\<lambda>disposals.
     Option.bind (field m ''remeasurement'' amount_de) (\<lambda>remeasurement.
     Option.bind (field m ''closing'' amount_de) (\<lambda>closing.
     Option.bind (field m ''evidence'' (vec_de (hash_de L))) (\<lambda>evidence.
       Some \<lparr>rr_asset = asset, rr_opening = opening, rr_additions = additions, rr_disposals = disposals,
         rr_remeasurement = remeasurement, rr_closing = closing, rr_evidence = evidence\<rparr>))))))))"

fun direction_of_name :: "string \<Rightarrow> direction option" where
  "direction_of_name s = (if s = ''outflow'' then Some Outflow else if s = ''inflow'' then Some Inflow else None)"

fun direction_de :: "json \<Rightarrow> direction option" where
  "direction_de (JString s) = direction_of_name s"
| "direction_de (JObject [(s, JNull)]) = direction_of_name s"
| "direction_de _ = None"

definition leg_de :: "libs \<Rightarrow> json \<Rightarrow> transfer_leg option" where
  "leg_de L v =
     Option.bind (struct_members [''leg_id'', ''tenant'', ''venue'', ''direction'', ''amount'', ''fee'', ''tx_hash'', ''address'',
       ''event_time''] v) (\<lambda>m.
     Option.bind (field m ''leg_id'' (hash_de L)) (\<lambda>i.
     Option.bind (field m ''tenant'' string_de) (\<lambda>tenant.
     Option.bind (field m ''venue'' string_de) (\<lambda>venue.
     Option.bind (field m ''direction'' direction_de) (\<lambda>direction.
     Option.bind (field m ''amount'' amount_de) (\<lambda>amount.
     Option.bind (optional_field m ''fee'' amount_de) (\<lambda>fee.
     Option.bind (optional_field m ''tx_hash'' string_de) (\<lambda>tx_hash.
     Option.bind (optional_field m ''address'' string_de) (\<lambda>address.
     Option.bind (field m ''event_time'' time_de) (\<lambda>event_time.
       Some \<lparr>tl_leg_id = i, tl_tenant = tenant, tl_venue = venue, tl_direction = direction, tl_amount = amount, tl_fee = fee,
         tl_tx_hash = tx_hash, tl_address = address, tl_event_time = event_time\<rparr>))))))))))"

definition net_de :: "libs \<Rightarrow> json \<Rightarrow> expected_net option" where
  "net_de L v =
     Option.bind (struct_members [''out_leg'', ''in_leg''] v) (\<lambda>m.
     Option.bind (field m ''out_leg'' (hash_de L)) (\<lambda>out_leg.
     Option.bind (field m ''in_leg'' (hash_de L)) (\<lambda>in_leg.
       Some \<lparr>en_out_leg = out_leg, en_in_leg = in_leg\<rparr>)))"

definition case_de :: "libs \<Rightarrow> json \<Rightarrow> labeled_case option" where
  "case_de L v =
     Option.bind (struct_members [''name'', ''legs'', ''expected_nets''] v) (\<lambda>m.
     Option.bind (field m ''name'' string_de) (\<lambda>name.
     Option.bind (field m ''legs'' (vec_de (leg_de L))) (\<lambda>legs.
     Option.bind (field m ''expected_nets'' (vec_de (net_de L))) (\<lambda>expected_nets.
       Some \<lparr>lc_name = name, lc_legs = legs, lc_expected_nets = expected_nets\<rparr>))))"

definition corpus_de :: "libs \<Rightarrow> json \<Rightarrow> corpus option" where
  "corpus_de L v =
     Option.bind (struct_members [''cases''] v) (\<lambda>m.
     Option.bind (field m ''cases'' (vec_de (case_de L))) (\<lambda>cases. Some \<lparr>co_cases = cases\<rparr>))"

definition corpus_ser :: "libs \<Rightarrow> corpus \<Rightarrow> json" where
  "corpus_ser L c = json_object [(''cases'', JArray (map (case_json L) (co_cases c)))]"

subsection \<open>Reading undoes writing\<close>

lemma amount_de_json [simp]: "amount_wf a \<Longrightarrow> amount_de (amount_json a) = Some a"
  using amount_wire_roundtrip [of a]
  by (simp add: amount_de_def amount_json_def amount_to_wire_def json_object_def field_def result_option_def)

lemma atoms_de_text [simp]: "in_i128 n \<Longrightarrow> atoms_de (JString (show_int n)) = Some n"
  by (simp add: atoms_de_def)

lemma direction_de_json [simp]: "direction_de (leg_direction_json d) = Some d"
  by (cases d) simp_all

lemma option_de_on:
  "(\<And>x. v = Some x \<Longrightarrow> de (f x) = Some x) \<Longrightarrow> (\<And>x. f x \<noteq> JNull) \<Longrightarrow> option_de de (json_option f v) = Some v"
  by (cases v) (simp_all add: json_option_def option_de_Some)

lemma those_on: "list_all (\<lambda>x. de (f x) = Some x) xs \<Longrightarrow> those (map (de \<circ> f) xs) = Some xs"
  by (induction xs) auto

definition lot_typed :: "lot \<Rightarrow> bool" where
  "lot_typed l \<longleftrightarrow> in_i128 (lot_atoms l) \<and> amount_wf (lot_cost_basis l) \<and> amount_wf (lot_acquisition_fee l) \<and> in_i64 (lot_acquired_at l)"

lemma lot_de_json:
  assumes "libs_ok L" and "lot_typed l"
  shows "lot_de L (lot_json L l) = Some l"
  using assms option_de_json [of "hash_de L" "hash_json L" "lot_moved_from l"]
  by (cases l) (simp add: lot_de_def lot_json_def json_object_def field_def optional_field_def lot_typed_def)

definition row_typed :: "roll_row \<Rightarrow> bool" where
  "row_typed r \<longleftrightarrow> list_all amount_wf [rr_opening r, rr_additions r, rr_disposals r, rr_remeasurement r, rr_closing r]"

lemma row_de_json:
  assumes "libs_ok L" and "row_typed r"
  shows "row_de L (row_json L r) = Some r"
  using assms by (cases r) (simp add: row_de_def row_json_def json_object_def field_def row_typed_def)

definition leg_typed :: "transfer_leg \<Rightarrow> bool" where
  "leg_typed l \<longleftrightarrow> amount_wf (tl_amount l) \<and> (\<forall>f \<in> set_option (tl_fee l). amount_wf f) \<and> in_i64 (tl_event_time l)"

lemma leg_de_json:
  assumes "libs_ok L" and "leg_typed l"
  shows "leg_de L (leg_json L l) = Some l"
proof -
  have "option_de amount_de (json_option amount_json (tl_fee l)) = Some (tl_fee l)"
    using assms(2) by (intro option_de_on) (auto simp: leg_typed_def)
  moreover have "option_de string_de (json_option JString s) = Some s" for s by (rule option_de_json) simp_all
  ultimately show ?thesis
    using assms by (cases l) (simp add: leg_de_def leg_json_def json_object_def field_def optional_field_def leg_typed_def)
qed

lemma net_de_json: "libs_ok L \<Longrightarrow> net_de L (net_json L e) = Some e"
  by (cases e) (simp add: net_de_def net_json_def json_object_def field_def)

lemma case_de_json:
  assumes "libs_ok L" and "list_all leg_typed (lc_legs c)"
  shows "case_de L (case_json L c) = Some c"
proof -
  have "those (map (leg_de L \<circ> leg_json L) (lc_legs c)) = Some (lc_legs c)"
    "those (map (net_de L \<circ> net_json L) (lc_expected_nets c)) = Some (lc_expected_nets c)"
    using assms by (auto intro!: those_on simp: list_all_iff leg_de_json net_de_json)
  then show ?thesis by (cases c) (simp add: case_de_def case_json_def json_object_def field_def)
qed

lemma corpus_de_ser:
  assumes "libs_ok L" and "list_all (\<lambda>c. list_all leg_typed (lc_legs c)) (co_cases c)"
  shows "corpus_de L (corpus_ser L c) = Some c"
proof -
  have "those (map (case_de L \<circ> case_json L) (co_cases c)) = Some (co_cases c)"
    using assms by (auto intro!: those_on simp: list_all_iff case_de_json)
  then show ?thesis by (cases c) (simp add: corpus_de_def corpus_ser_def json_object_def field_def)
qed

subsection \<open>Through the text\<close>

text \<open>A value written as text and read back by a reader.\<close>

definition reload :: "json_text \<Rightarrow> (json \<Rightarrow> 'a option) \<Rightarrow> json \<Rightarrow> 'a option" where
  "reload J de v = Option.bind (jt_write J v) (\<lambda>l. Option.bind (jt_read J l) de)"

lemma depth_nested: "depth_ok k v \<Longrightarrow> nested_within (Suc k) v"
proof (induction v arbitrary: k)
  case (JArray vs)
  show ?case using JArray.IH [of _ "k - 1"] JArray.prems by (cases k) auto
next
  case (JObject m)
  show ?case using JObject.IH [of _ _ "k - 1"] JObject.prems by (cases k) (fastforce simp: snds.simps)+
qed simp_all

lemma reload_value:
  assumes "json_text_ok J" and "\<And>k. json_ok (Suc (Suc (Suc (Suc (Suc (Suc k)))))) v"
  shows "reload J de v = de v"
proof -
  have ok: "json_ok 126 v" using assms(2) [of 120] by (simp add: numeral_eq_Suc)
  then have "numbers_ok v" "nested_within recursion_limit v"
    using depth_nested [of 126 v] numbers_ok_value [of v] by (simp_all add: json_ok_def recursion_limit_def)
  then show ?thesis using assms(1) by (auto simp: json_text_ok_def reload_def)
qed

text \<open>C37: Stored records reload: a lot, a labelled corpus and a roll-forward row whose integers are in range, written as JSON
  text and read back by their derived readers, are the records that were written; and the reader of rows is total on them: it
  reads back every such row, one that the row constructor refuses because it does not roll included.\<close>

theorem stored_records_reload:
  assumes "libs_ok L" and "json_text_ok J" and "lot_typed l" and "list_all (\<lambda>c. list_all leg_typed (lc_legs c)) (co_cases c)"
    and "row_typed r"
  shows "reload J (lot_de L) (lot_json L l) = Some l \<and> reload J (corpus_de L) (corpus_ser L c) = Some c \<and>
    reload J (row_de L) (row_json L r) = Some r"
  using lot_de_json [OF assms(1,3)] corpus_de_ser [OF assms(1,4)] row_de_json [OF assms(1,5)]
  by (simp add: reload_value [OF assms(2)] corpus_ser_def)

text \<open>A row that opens at nothing, adds nothing and closes at 5.\<close>

definition unrolled_row :: roll_row where
  "unrolled_row = \<lparr>rr_asset = ''BTC'', rr_opening = amount_new ''USD'' 0, rr_additions = amount_new ''USD'' 0,
     rr_disposals = amount_new ''USD'' 0, rr_remeasurement = amount_new ''USD'' 0, rr_closing = amount_new ''USD'' 5, rr_evidence = []\<rparr>"

theorem stored_records_reload_witness:
  "row_new (rr_asset unrolled_row) (rr_opening unrolled_row) (rr_additions unrolled_row) (rr_disposals unrolled_row)
     (rr_remeasurement unrolled_row) (rr_closing unrolled_row) [] = Inl (DoesNotRoll 0 5) \<and>
   reload demo_text (row_de (const_libs (CHR 0x07))) (row_json (const_libs (CHR 0x07)) unrolled_row) = Some unrolled_row \<and>
   reload demo_text (corpus_de (const_libs (CHR 0x07))) (corpus_ser (const_libs (CHR 0x07)) synthetic_baseline) = Some synthetic_baseline"
proof -
  have "row_typed unrolled_row" by (simp add: row_typed_def unrolled_row_def amount_wf_def in_i128_def)
  moreover have "lot_typed (demo_lot (CHR 0x01) 7 40 4)"
    by (simp add: lot_typed_def demo_lot_def amount_wf_def in_i128_def in_i64_def)
  moreover have "list_all (\<lambda>c. list_all leg_typed (lc_legs c)) (co_cases synthetic_baseline)"
    by (simp add: synthetic_baseline_def leg_typed_def syn_leg_def btc_def amount_wf_def in_i128_def in_i64_def)
  moreover have "libs_ok (const_libs (CHR 0x07))" by (simp add: const_libs_def)
  ultimately show ?thesis
    using stored_records_reload [of "const_libs (CHR 0x07)" demo_text "demo_lot (CHR 0x01) 7 40 4" synthetic_baseline unrolled_row] demo_text_ok
    by (simp add: row_new_def unrolled_row_def i128_ops i128_opt_def in_i128_def)
qed

end
