(* ===== verification/Golden_Close.thy ===== *)
theory Golden_Close
  imports Drafts Lots Fairvalue Posting Close Anchor Disclosure Policy Evidence_Store "HOL-Library.Monad_Syntax"
begin

section \<open>The golden close\<close>

text \<open>
  The end-to-end test of the suite, \<open>crates/treasury-e2e/tests/golden_close.rs\<close>, which takes one quarter through
  every crate: policies, ingestion, reconciliation, designation, the scope gate, lots, valuation, journal entries, the
  posting protocol, the checkpoint, the anchor and the disclosure pack. \<open>run_close\<close> is the test's function of that name,
  one definition per stage, in the option monad: the macro \<open>ok!\<close>, the assertions and the unreachable branches panic, and a
  panic is \<^term>\<open>None\<close>. The lemmas take the stages one by one; the theorem is that the close runs to its end for every
  choice of the libraries, so long as SHA-256 does not collide on the envelopes of the ingested observations.
\<close>

subsection \<open>Panics\<close>

definition unwrap :: "('e, 'a) result \<Rightarrow> 'a option" where
  "unwrap r = (case r of Inl _ \<Rightarrow> None | Inr x \<Rightarrow> Some x)"

definition unwrap_st :: "('e, 'a) result \<times> 's \<Rightarrow> ('a \<times> 's) option" where
  "unwrap_st rs = (case rs of (Inl _, _) \<Rightarrow> None | (Inr x, s) \<Rightarrow> Some (x, s))"

definition check_that :: "bool \<Rightarrow> unit option" where
  "check_that b = (if b then Some () else None)"

subsection \<open>Constants of the quarter\<close>

definition gc_tenant :: tenant_id where
  "gc_tenant = ''acme''"

definition gc_btc :: asset_id where
  "gc_btc = ''BTC''"

definition gc_usd :: "int \<Rightarrow> asset_amount" where
  "gc_usd minor = amount_new ''USD'' minor"

definition gc_exchange :: venue_id where
  "gc_exchange = ''exchange''"

definition gc_cold :: venue_id where
  "gc_cold = ''cold''"

subsection \<open>Policies\<close>

definition pm_kind :: policy_kind where
  "pm_kind = ''principal-market/v1''"

definition pm_artifact :: policy_artifact where
  "pm_artifact = \<lparr>pa_kind = pm_kind,
     pa_body = json_object [(''asset'', JString ''BTC''), (''venues'', JArray [JString ''exchange'']),
       (''tie_break'', JString ''volume'')],
     pa_approvers = [''cfo'', ''controller''], pa_effective_from = 0\<rparr>"

definition designation_artifact :: policy_artifact where
  "designation_artifact = \<lparr>pa_kind = ''designation/v1'',
     pa_body = json_object [(''staking_reward'', JString ''recognize at fair value on receipt'')],
     pa_approvers = [''cfo'', ''controller''], pa_effective_from = 0\<rparr>"

definition gc_policies :: "libs \<Rightarrow> (content_hash \<times> policy_registry) option" where
  "gc_policies L = do {
     (pm, r1) \<leftarrow> unwrap_st (reg_register L pm_artifact reg_new);
     (_, r2) \<leftarrow> unwrap_st (reg_activate gc_tenant pm_kind pm 1 r1);
     unwrap_st (reg_register L designation_artifact r2)
   }"

subsection \<open>Booking\<close>

text \<open>The ledger with the clock of the closure \<open>next_kt\<close>, which every append advances.\<close>

type_synonym books = "ledger \<times> timestamp_ns"

definition gc_book :: "libs \<Rightarrow> event_draft \<Rightarrow> books \<Rightarrow> (event_id \<times> books) option" where
  "gc_book L draft bk = (case bk of (lg, kt) \<Rightarrow>
     let kt' = i64_saturating_add kt 10 in do {
       (x, lg') \<leftarrow> unwrap_st (lg_append L draft kt' lg);
       Some (x, lg', kt')
     })"

definition gc_observation :: "json \<Rightarrow> timestamp_ns \<Rightarrow> content_hash \<Rightarrow> event_draft" where
  "gc_observation payload event_time evidence =
     \<lparr>ev_tenant = gc_tenant, ev_layer = Observation, ev_time = event_time, ev_supersedes = None,
      ev_provenance = ProvObservation ''venue-api'' evidence, ev_payload = payload\<rparr>"

text \<open>\<open>ledger.append(observation(store, raw, payload, t), next_kt())\<close>.\<close>

definition gc_observe :: "libs \<Rightarrow> string \<Rightarrow> json \<Rightarrow> timestamp_ns \<Rightarrow> evidence_mem \<times> books
  \<Rightarrow> (event_id \<times> evidence_mem \<times> books) option" where
  "gc_observe L raw payload event_time sb = (case sb of (store, bk) \<Rightarrow> do {
     (evidence, store') \<leftarrow> unwrap_st (es_put L raw store);
     (x, bk') \<leftarrow> gc_book L (gc_observation payload event_time evidence) bk;
     Some (x, store', bk')
   })"

record ingested =
  in_purchase :: event_id
  in_withdrawal :: event_id
  in_deposit :: event_id
  in_staking :: event_id

definition purchase_payload :: json where
  "purchase_payload = json_object [(''kind'', JString ''buy''), (''atoms'', JString ''7''),
     (''cost_minor'', JString ''70''), (''fee_minor'', JString ''1'')]"

definition withdrawal_payload :: json where
  "withdrawal_payload = json_object [(''kind'', JString ''withdraw''), (''atoms'', JString ''7''), (''tx'', JString ''t-1'')]"

definition deposit_payload :: json where
  "deposit_payload = json_object [(''kind'', JString ''deposit''), (''atoms'', JString ''7''), (''tx'', JString ''t-1'')]"

definition staking_payload :: json where
  "staking_payload = json_object [(''kind'', JString ''deposit''), (''atoms'', JString ''1'')]"

definition gc_ingest :: "libs \<Rightarrow> (ingested \<times> evidence_mem \<times> books) option" where
  "gc_ingest L = do {
     (purchase, s1) \<leftarrow> gc_observe L ''raw-purchase'' purchase_payload 10 (es_new, lg_new, 0);
     (withdrawal, s2) \<leftarrow> gc_observe L ''raw-withdrawal'' withdrawal_payload 20 s1;
     (deposit, s3) \<leftarrow> gc_observe L ''raw-deposit'' deposit_payload 30 s2;
     (staking, s4) \<leftarrow> gc_observe L ''raw-staking-reward'' staking_payload 40 s3;
     Some (\<lparr>in_purchase = purchase, in_withdrawal = withdrawal, in_deposit = deposit, in_staking = staking\<rparr>, s4)
   }"

subsection \<open>Reconciliation\<close>

definition gc_leg :: "content_hash \<Rightarrow> direction \<Rightarrow> venue_id \<Rightarrow> int \<Rightarrow> timestamp_ns \<Rightarrow> transfer_leg" where
  "gc_leg i dir venue atoms t = \<lparr>tl_leg_id = i, tl_tenant = gc_tenant, tl_venue = venue, tl_direction = dir,
     tl_amount = amount_new gc_btc atoms, tl_fee = None, tl_tx_hash = Some ''t-1'', tl_address = None, tl_event_time = t\<rparr>"

definition gc_legs :: "ingested \<Rightarrow> transfer_leg list" where
  "gc_legs x = [gc_leg (in_withdrawal x) Outflow gc_exchange 7 20, gc_leg (in_deposit x) Inflow gc_cold 7 30,
     (gc_leg (in_staking x) Inflow gc_cold 1 40)\<lparr>tl_tx_hash := None\<rparr>]"

definition gc_config :: matcher_config where
  "gc_config = \<lparr>mc_time_window_ns = 1000, mc_materiality_atoms = bt_insert gc_btc 1000000 []\<rparr>"

definition gc_reconcile :: "libs \<Rightarrow> ingested \<Rightarrow> books \<Rightarrow> (event_id \<times> match_outcome \<times> books) option" where
  "gc_reconcile L x bk = do {
     outcome \<leftarrow> unwrap (match_legs L (gc_legs x) gc_config);
     check_that (length (mo_proposals outcome) = 1);
     draft \<leftarrow> unwrap (draft_auto_net L (hd (mo_proposals outcome)) gc_tenant 30);
     (auto_net, bk') \<leftarrow> gc_book L draft bk;
     check_that (cb_unmatched_legs (mo_blockers outcome) = [in_staking x]);
     Some (auto_net, outcome, bk')
   }"

subsection \<open>Designation and scope\<close>

definition gc_proposal :: "ingested \<Rightarrow> content_hash \<Rightarrow> designation_proposal" where
  "gc_proposal x policy = \<lparr>dg_leg = in_staking x, dg_classification = NonPurchaseAcquisition StakingReward,
     dg_policy_hash = policy\<rparr>"

definition gc_designate :: "libs \<Rightarrow> ingested \<Rightarrow> content_hash \<Rightarrow> match_outcome \<Rightarrow> books \<Rightarrow> (event_id \<times> books) option" where
  "gc_designate L x policy outcome bk = do {
     (item, q1) \<leftarrow> unwrap_st (dq_propose L (gc_proposal x policy) ''preparer'' dq_new);
     (_, q2) \<leftarrow> unwrap_st (dq_confirm item ''approver'' q1);
     state \<leftarrow> dq_state q2 item;
     draft \<leftarrow> unwrap (draft_designation L (gc_proposal x policy) state gc_tenant 40);
     (designation_event, bk') \<leftarrow> gc_book L draft bk;
     check_that (list_all (\<lambda>l. l \<in> set (designated_legs q2)) (cb_unmatched_legs (mo_blockers outcome)) \<and>
       cb_queued_decisions (mo_blockers outcome) = []);
     Some (designation_event, bk')
   }"

definition gc_assessment :: "content_hash \<Rightarrow> scope_assessment" where
  "gc_assessment policy = \<lparr>sa_tenant = gc_tenant, sa_asset = gc_btc,
     sa_criteria = \<lparr>ca_intangible_asset = Met, ca_no_enforceable_claim = Met, ca_on_distributed_ledger = Met,
       ca_cryptographically_secured = Met, ca_fungible = Met, ca_not_self_issued = Met\<rparr>,
     sa_policy_hash = policy\<rparr>"

definition gc_scope :: "libs \<Rightarrow> content_hash \<Rightarrow> books \<Rightarrow> books option" where
  "gc_scope L policy bk = do {
     (scope_item, g1) \<leftarrow> unwrap_st (sg_propose L (gc_assessment policy) ''preparer'' sg_new);
     (_, g2) \<leftarrow> unwrap_st (sg_confirm scope_item ''approver'' g1);
     scope_state \<leftarrow> sg_state g2 scope_item;
     draft \<leftarrow> unwrap (draft_scope_judgment L (gc_assessment policy) scope_state 45);
     (_, bk') \<leftarrow> gc_book L draft bk;
     check_that (case sg_check g2 gc_tenant gc_btc of Proceed _ \<Rightarrow> True | _ \<Rightarrow> False);
     Some bk'
   }"

subsection \<open>Lots and valuation\<close>

definition gc_lots :: "libs \<Rightarrow> ingested \<Rightarrow> event_id \<Rightarrow> event_id \<Rightarrow> lot_book option" where
  "gc_lots L x auto_net designation_event = do {
     (_, b1) \<leftarrow> unwrap_st (acquire L gc_btc gc_exchange 7 (gc_usd 70) (gc_usd 1) 10 (in_purchase x) (lb_new gc_tenant));
     (_, b2) \<leftarrow> unwrap_st (transfer L gc_btc gc_exchange gc_cold 7 auto_net b1);
     (_, b3) \<leftarrow> unwrap_st (acquire L gc_btc gc_cold 1 (gc_usd 5) (gc_usd 0) 40 designation_event b2);
     Some b3
   }"

definition gc_snapshot :: price_snapshot where
  "gc_snapshot = \<lparr>ps_currency = ''USD'', ps_as_of = 1000,
     ps_prices = bt_insert gc_btc \<lparr>pr_minor_per_unit = 100, pr_atoms_per_unit = 8\<rparr> []\<rparr>"

definition gc_value :: "libs \<Rightarrow> policy_registry \<Rightarrow> lot_book \<Rightarrow> (content_hash \<times> valuation \<times> content_hash) option" where
  "gc_value L registry book = do {
     active_pm \<leftarrow> reg_active_at registry gc_tenant pm_kind 1000;
     valuation \<leftarrow> unwrap (value_book L book gc_snapshot active_pm);
     check_that (vl_total_fair_value valuation = gc_usd 100);
     check_that (vl_total_unrealized valuation = gc_usd 25);
     h \<leftarrow> unwrap (valuation_hash L valuation);
     Some (active_pm, valuation, h)
   }"

subsection \<open>Entries and posting\<close>

definition gc_book_entry :: "libs \<Rightarrow> journal_entry \<times> event_id \<Rightarrow> books \<Rightarrow> books option" where
  "gc_book_entry L ei bk = do {
     draft \<leftarrow> unwrap (draft_policy_output L (fst ei) gc_tenant 50 [snd ei]);
     (_, bk') \<leftarrow> gc_book L draft bk;
     Some bk'
   }"

fun gc_book_entries :: "libs \<Rightarrow> (journal_entry \<times> event_id) list \<Rightarrow> books \<Rightarrow> books option" where
  "gc_book_entries L [] bk = Some bk"
| "gc_book_entries L (ei # rest) bk = gc_book_entry L ei bk \<bind> gc_book_entries L rest"

definition gc_gaap :: "libs \<Rightarrow> ingested \<Rightarrow> event_id \<Rightarrow> content_hash \<Rightarrow> books
  \<Rightarrow> (journal_entry \<times> journal_entry \<times> journal_entry \<times> books) option" where
  "gc_gaap L x designation_event active_pm bk = do {
     e_buy \<leftarrow> unwrap (acquisition_entry (gc_usd 70) (gc_usd 1) Expense active_pm);
     e_reward \<leftarrow> unwrap (acquisition_entry (gc_usd 5) (gc_usd 0) Expense active_pm);
     mark \<leftarrow> unwrap (remeasurement_entry (gc_usd 75) (gc_usd 100) active_pm);
     e_mark \<leftarrow> mark;
     bk' \<leftarrow> gc_book_entries L [(e_buy, in_purchase x), (e_reward, designation_event)] bk;
     bk'' \<leftarrow> gc_book_entry L (e_mark, in_purchase x) bk';
     Some (e_buy, e_reward, e_mark, bk'')
   }"

definition gc_batch :: "journal_entry list \<Rightarrow> posting_batch" where
  "gc_batch entries = \<lparr>pb_tenant = gc_tenant, pb_target_gl = ''netsuite:prod'', pb_period = ''2026Q2'', pb_entries = entries\<rparr>"

definition gc_post :: "libs \<Rightarrow> journal_entry list \<Rightarrow> evidence_mem \<Rightarrow> evidence_mem option" where
  "gc_post L entries store = do {
     (bid, p1) \<leftarrow> unwrap_st (pp_register L (gc_batch entries) ''preparer'' pp_new);
     (_, p2) \<leftarrow> unwrap_st (pp_release bid ''approver'' p1);
     (_, p3) \<leftarrow> unwrap_st (pp_begin_submit bid p2);
     (response, store1) \<leftarrow> unwrap_st (es_put L ''raw-gl-response'' store);
     (_, p4) \<leftarrow> unwrap_st (pp_confirm_posted bid ''JE-1'' response p3);
     (readback, store2) \<leftarrow> unwrap_st (es_put L ''raw-gl-readback'' store1);
     fingerprint \<leftarrow> unwrap (entry_fingerprint L (gc_batch entries));
     (_, p5) \<leftarrow> unwrap_st (pp_verify L bid fingerprint readback p4);
     check_that (case pp_state p5 bid of Some (Verified _ _) \<Rightarrow> True | _ \<Rightarrow> False);
     Some store2
   }"

subsection \<open>Checkpoint, anchor and disclosure\<close>

definition gc_checkpoint :: "libs \<Rightarrow> ledger \<Rightarrow> content_hash option" where
  "gc_checkpoint L lg = do {
     root \<leftarrow> unwrap (state_root L (lg_as_of lg gc_tenant 1000));
     (checkpoint, _) \<leftarrow> unwrap_st (dag_seal L
       \<lparr>cd_tenant = gc_tenant, cd_period = ''2026Q2'', cd_as_of = 1000, cd_state_root = root, cd_supersedes = None,
        cd_reason = None, cd_materiality_memo = None\<rparr> 1000 dag_new);
     Some checkpoint
   }"

definition gc_anchor :: "libs \<Rightarrow> evidence_mem \<Rightarrow> content_hash option" where
  "gc_anchor L store = do {
     policy \<leftarrow> unwrap (anchor_policy_hash L (anchor_policy_new 6));
     let receipt = \<lparr>ar_tree_head = es_tree_head L store, ar_entry_count = of_nat (es_len store),
       ar_method = Rfc3161Tsa ''tsa.example'' (hash_of_byte (CHR 0xA1)), ar_anchored_at = 1100,
       ar_confirmation_policy = policy\<rparr>;
     h \<leftarrow> unwrap (receipt_hash L receipt);
     (_, log) \<leftarrow> unwrap_st (al_append receipt al_new);
     unwrap (al_verify_against (es_tree_head_at L store) (es_len store) log);
     Some h
   }"

definition gc_disclose :: "libs \<Rightarrow> content_hash \<Rightarrow> content_hash \<Rightarrow> content_hash \<Rightarrow> content_hash \<Rightarrow> valuation
  \<Rightarrow> journal_entry \<Rightarrow> journal_entry \<Rightarrow> journal_entry \<Rightarrow> disclosure_pack option" where
  "gc_disclose L checkpoint vh active_pm rh valuation e_buy e_reward e_mark = do {
     h_buy \<leftarrow> unwrap (entry_hash L e_buy);
     h_reward \<leftarrow> unwrap (entry_hash L e_reward);
     h_mark \<leftarrow> unwrap (entry_hash L e_mark);
     row \<leftarrow> unwrap (row_new gc_btc (gc_usd 0) (gc_usd 75) (gc_usd 0) (gc_usd 25) (gc_usd 100)
       [vh, h_buy, h_reward, h_mark]);
     let pack = \<lparr>dp_tenant = gc_tenant, dp_period = ''2026Q2'', dp_checkpoint = checkpoint, dp_valuation = vh,
       dp_policies = [(''principal-market/v1'', active_pm)], dp_anchor_receipt = Some rh, dp_rows = [row]\<rparr>;
     check_that (tie_to_valuation pack valuation = []);
     check_that (list_all (\<lambda>h. h \<in> set (manifest pack)) [checkpoint, vh, active_pm, rh]);
     Some pack
   }"

subsection \<open>The whole close\<close>

record close_artifacts =
  ga_pack_hash :: content_hash
  ga_checkpoint :: content_hash
  ga_valuation_hash :: content_hash
  ga_receipt_hash :: content_hash

definition run_close :: "libs \<Rightarrow> close_artifacts option" where
  "run_close L = do {
     (policy, registry) \<leftarrow> gc_policies L;
     (x, store, bk1) \<leftarrow> gc_ingest L;
     (auto_net, outcome, bk2) \<leftarrow> gc_reconcile L x bk1;
     (designation_event, bk3) \<leftarrow> gc_designate L x policy outcome bk2;
     bk4 \<leftarrow> gc_scope L policy bk3;
     book \<leftarrow> gc_lots L x auto_net designation_event;
     (active_pm, valuation, vh) \<leftarrow> gc_value L registry book;
     (e_buy, e_reward, e_mark, bk5) \<leftarrow> gc_gaap L x designation_event active_pm bk4;
     store' \<leftarrow> gc_post L [e_buy, e_reward, e_mark] store;
     checkpoint \<leftarrow> gc_checkpoint L (fst bk5);
     rh \<leftarrow> gc_anchor L store';
     pack \<leftarrow> gc_disclose L checkpoint vh active_pm rh valuation e_buy e_reward e_mark;
     check_that (lg_verify_chain L (fst bk5) gc_tenant = Inr ());
     ph \<leftarrow> unwrap (pack_hash L pack);
     Some \<lparr>ga_pack_hash = ph, ga_checkpoint = checkpoint, ga_valuation_hash = vh, ga_receipt_hash = rh\<rparr>
   }"

subsection \<open>Stages that do not touch the ledger\<close>

lemma unwrap_simps [simp]:
  "unwrap (Inr x) = Some x" "unwrap (Inl e) = None" "unwrap_st (Inr x, s) = Some (x, s)" "unwrap_st (Inl e, s) = None"
  "check_that True = Some ()" "check_that False = None"
  by (simp_all add: unwrap_def unwrap_st_def check_that_def)

lemmas gc_constants = gc_tenant_def gc_btc_def gc_usd_def gc_exchange_def gc_cold_def

lemma gc_policies_run:
  assumes "libs_ok L"
  obtains policy registry pm where "gc_policies L = Some (policy, registry)" "reg_active_at registry gc_tenant pm_kind 1000 = Some pm"
proof -
  have ok: "json_ok 127 (pa_body pm_artifact)" "json_ok 127 (pa_body designation_artifact)"
    using json_ok_mono [of 2 _ 127] by (simp_all add: pm_artifact_def designation_artifact_def numeral_2_eq_2)
  show thesis
    using that ok policy_identity.hash_total [OF assms, of pm_artifact] policy_identity.hash_total [OF assms, of designation_artifact]
    by (simp add: gc_policies_def reg_register_def policy_hash_def reg_activate_def reg_new_def reg_timeline_def
        reg_active_at_def Let_def pm_artifact_def designation_artifact_def)
qed

lemma gc_lots_run:
  assumes "libs_ok L"
  obtains book i j where "gc_lots L x auto_net designation_event = Some book" "lb_lots book =
    [\<lparr>lot_id = i, lot_tenant = gc_tenant, lot_asset = gc_btc, lot_venue = gc_cold, lot_atoms = 7, lot_cost_basis = gc_usd 70,
      lot_acquisition_fee = gc_usd 1, lot_acquired_at = 10, lot_source_event = auto_net,
      lot_moved_from = Some (sha256 L (preimage L (lot_env L \<lparr>lot_id = hash_of_byte (CHR 0x00), lot_tenant = gc_tenant,
        lot_asset = gc_btc, lot_venue = gc_exchange, lot_atoms = 7, lot_cost_basis = gc_usd 70, lot_acquisition_fee = gc_usd 1,
        lot_acquired_at = 10, lot_source_event = in_purchase x, lot_moved_from = None\<rparr>)))\<rparr>,
     \<lparr>lot_id = j, lot_tenant = gc_tenant, lot_asset = gc_btc, lot_venue = gc_cold, lot_atoms = 1, lot_cost_basis = gc_usd 5,
      lot_acquisition_fee = gc_usd 0, lot_acquired_at = 40, lot_source_event = designation_event, lot_moved_from = None\<rparr>]"
  using that
  by (simp add: gc_lots_def acquire_def open_lot_def compute_lot_id_total [OF assms] lb_new_def transfer_def plan_relief_def
      candidates_def at_position_def lot_key_def i128_ops i128_opt_def in_i128_def find_lot_def apply_relief_def relieve_lot_def
      pro_rata_def sdiv_nonneg Let_def gc_constants)

lemma gc_value_run:
  assumes "libs_ok L" and "gc_lots L x auto_net designation_event = Some book"
    and "reg_active_at registry gc_tenant pm_kind 1000 = Some pm"
  obtains v vh where "gc_value L registry book = Some (pm, v, vh)" "map pos_asset (vl_positions v) = [gc_btc]"
    "map pos_fair_value (vl_positions v) = [gc_usd 100]"
proof -
  obtain i j m where lots: "lb_lots book =
    [\<lparr>lot_id = i, lot_tenant = gc_tenant, lot_asset = gc_btc, lot_venue = gc_cold, lot_atoms = 7, lot_cost_basis = gc_usd 70,
      lot_acquisition_fee = gc_usd 1, lot_acquired_at = 10, lot_source_event = auto_net, lot_moved_from = m\<rparr>,
     \<lparr>lot_id = j, lot_tenant = gc_tenant, lot_asset = gc_btc, lot_venue = gc_cold, lot_atoms = 1, lot_cost_basis = gc_usd 5,
      lot_acquisition_fee = gc_usd 0, lot_acquired_at = 40, lot_source_event = designation_event, lot_moved_from = None\<rparr>]"
    using gc_lots_run [OF assms(1), of x auto_net designation_event] assms(2) by (metis option.inject)
  have "snapshot_wf gc_snapshot" by (simp add: snapshot_wf_def gc_snapshot_def)
  then obtain sh where sh: "snapshot_hash L gc_snapshot = Inr sh"
    using snapshot_identity.hash_total [OF assms(1)] by (simp add: snapshot_hash_def)
  obtain lh where lh: "lots_hash L book = Inr lh"
    using lots_state.hash_total [OF assms(1)] by (simp add: lots_hash_state)
  have kh: "\<exists>h. key_hash L k = Inr h" for k
    using valuation_key_identity.hash_total [OF assms(1)] by (simp add: key_hash_def)
  have open_book: "open_lots book = lb_lots book" by (simp add: open_lots_def lots lot_key_def)
  have snap: "ps_currency gc_snapshot = ''USD''" "ps_prices gc_snapshot = [(gc_btc, \<lparr>pr_minor_per_unit = 100, pr_atoms_per_unit = 8\<rparr>)]"
    by (simp_all add: gc_snapshot_def)
  obtain v where v: "value_book L book gc_snapshot pm = Inr v" "map pos_asset (vl_positions v) = [gc_btc]"
    "map pos_fair_value (vl_positions v) = [gc_usd 100]" "vl_total_fair_value v = gc_usd 100" "vl_total_unrealized v = gc_usd 25"
    using kh [of "\<lparr>vk_lots_hash = lh, vk_price_snapshot_hash = sh, vk_policy_hash = pm\<rparr>"]
    by (auto simp: value_book_def lh sh snap open_book lots i128_ops i128_opt_def in_i128_def checked_add_def checked_sub_def
        sdiv_nonneg Let_def gc_constants)
  obtain vh where "valuation_hash L v = Inr vh"
    using content_id_eq [OF assms(1) json_ok_shallow, of "valuation_env L v"] by (auto simp: valuation_hash_def valuation_env_def)
  with v assms(3) that show thesis by (simp add: gc_value_def)
qed

lemma gc_post_run:
  assumes "libs_ok L"
  obtains store' where "gc_post L entries store = Some store'" "store' = es_run L [''raw-gl-response'', ''raw-gl-readback''] store"
proof -
  show thesis
    using that batch_id_Inr [OF assms, of "gc_batch entries"] entry_fingerprint_Inr [OF assms, of "gc_batch entries"]
    by (simp add: gc_post_def pp_defs pp_new_def dc_new_def dc_propose_def dc_confirm_def dc_payload_def pp_state_def
        set_difference_def es_put_def Let_def)
qed

lemma gc_checkpoint_run:
  assumes "libs_ok L"
  obtains cp where "gc_checkpoint L lg = Some cp"
  using that state_identity.hash_total [OF assms] checkpoint_identity.hash_total [OF assms]
  by (simp add: gc_checkpoint_def state_root_def dag_seal_def dag_admit_def dag_check_time_def dag_check_supersedes_def
      checkpoint_compute_id_def dag_new_def)

lemma gc_anchor_run:
  assumes "libs_ok L" and "es_len store < 2 ^ 64"
  obtains rh where "gc_anchor L store = Some rh"
  using that assms(2) anchor_policy_identity.hash_total [OF assms(1)] receipt_identity.hash_total [OF assms(1)]
  by (simp add: gc_anchor_def anchor_policy_hash_def receipt_hash_def al_append_def al_new_def es_tree_head_at_def
      es_tree_head_def es_len_def of_nat_inverse Let_def)

lemma gc_disclose_run:
  assumes "libs_ok L" and "map pos_asset (vl_positions v) = [gc_btc]" and "map pos_fair_value (vl_positions v) = [gc_usd 100]"
  obtains pack where "gc_disclose L checkpoint vh pm rh v e_buy e_reward e_mark = Some pack"
proof -
  obtain q where q: "vl_positions v = [q]" "pos_asset q = gc_btc" "pos_fair_value q = gc_usd 100"
    using assms(2,3) by (auto simp: map_eq_Cons_conv)
  obtain h1 h2 h3 where h: "entry_hash L e_buy = Inr h1" "entry_hash L e_reward = Inr h2" "entry_hash L e_mark = Inr h3"
    using entry_hash_total [OF assms(1)] by metis
  obtain row where row: "row_new gc_btc (gc_usd 0) (gc_usd 75) (gc_usd 0) (gc_usd 25) (gc_usd 100) [vh, h1, h2, h3] = Inr row"
    "rr_asset row = gc_btc" "rr_closing row = gc_usd 100"
    by (simp add: row_new_def i128_ops i128_opt_def in_i128_def gc_constants)
  have "tie_to_valuation d v = []" if "dp_rows d = [row]" for d
    using that q row(2,3) by (simp add: tie_Nil)
  with h row(1) that show thesis by (simp add: gc_disclose_def manifest_def)
qed

subsection \<open>Stages that book\<close>

text \<open>The books after \<open>n\<close> appends: the ledger is sound and its last event is not later than the clock.\<close>

definition booked :: "libs \<Rightarrow> nat \<Rightarrow> books \<Rightarrow> bool" where
  "booked L n bk \<longleftrightarrow> lg_inv L (fst bk) \<and> snd bk = 10 * int n \<and>
     (lg_stream (fst bk) gc_tenant = [] \<or> se_knowledge_time (last (lg_stream (fst bk) gc_tenant)) \<le> snd bk)"

lemma gc_book_run:
  assumes "libs_ok L" and "booked L n bk" and "n < 1000" and "admissible d" and "ev_tenant d = gc_tenant"
  obtains e bk' where "gc_book L d bk = Some (se_event_id e, bk')" "booked L (Suc n) bk'"
    "lg_stream (fst bk') gc_tenant = lg_stream (fst bk) gc_tenant @ [e]" "se_draft e = d"
proof -
  obtain lg where bk: "bk = (lg, 10 * int n)" and inv: "lg_inv L lg"
    and time: "lg_stream lg gc_tenant = [] \<or> se_knowledge_time (last (lg_stream lg gc_tenant)) \<le> 10 * int n"
    using assms(2) by (cases bk) (auto simp: booked_def)
  let ?t = "10 * int n + 10"
  have tick: "i64_saturating_add (10 * int n) 10 = ?t" using assms(3) by (simp add: i64_saturating_add_def)
  have "lg_stream lg (ev_tenant d) = [] \<or> se_knowledge_time (last (lg_stream lg (ev_tenant d))) < ?t"
    using time assms(5) by auto
  then obtain e where e: "lg_append L d ?t lg = (Inr (se_event_id e), lg_push e lg)" "se_draft e = d" "se_knowledge_time e = ?t"
    using admissible_accepted [OF assms(1,4)] by metis
  have stream: "lg_stream (lg_push e lg) gc_tenant = lg_stream lg gc_tenant @ [e]"
    using e(2) assms(5) by (simp add: lg_stream_push)
  have "lg_inv L (lg_push e lg)" using lg_append_inv [OF inv, of d ?t] e(1) by simp
  then have "booked L (Suc n) (lg_push e lg, ?t)" using stream e(3) by (simp add: booked_def)
  with that [of e "(lg_push e lg, ?t)"] e stream show thesis by (simp add: gc_book_def bk tick Let_def)
qed

lemma gc_observe_run:
  assumes "libs_ok L" and "booked L n bk" and "n < 1000" and "payload_ok payload"
  shows "\<exists>e bk'. gc_observe L raw payload t (store, bk) = Some (se_event_id e, snd (es_put L raw store), bk') \<and>
    booked L (Suc n) bk' \<and> lg_stream (fst bk') gc_tenant = lg_stream (fst bk) gc_tenant @ [e] \<and>
    ev_payload (se_draft e) = payload \<and> ev_time (se_draft e) = t"
proof -
  let ?d = "gc_observation payload t (sha256 L raw)"
  have d: "admissible ?d" "ev_tenant ?d = gc_tenant" using assms(4) by (simp_all add: admissible_def gc_observation_def)
  obtain e bk' where "gc_book L ?d bk = Some (se_event_id e, bk')" "booked L (Suc n) bk'"
    "lg_stream (fst bk') gc_tenant = lg_stream (fst bk) gc_tenant @ [e]" "se_draft e = ?d"
    using gc_book_run [OF assms(1-3) d] by metis
  moreover have "unwrap_st (es_put L raw store) = Some (sha256 L raw, snd (es_put L raw store))" by (simp add: es_put_def Let_def)
  ultimately show ?thesis by (intro exI [of _ e] exI [of _ bk']) (simp add: gc_observe_def gc_observation_def)
qed

lemma gc_payloads_ok:
  "payload_ok purchase_payload" "payload_ok withdrawal_payload" "payload_ok deposit_payload" "payload_ok staking_payload"
  by (rule json_ok_payload, simp add: purchase_payload_def withdrawal_payload_def deposit_payload_def staking_payload_def)+

lemma gc_payloads_distinct: "staking_payload \<noteq> withdrawal_payload" "staking_payload \<noteq> deposit_payload"
  by (simp_all add: staking_payload_def withdrawal_payload_def deposit_payload_def json_object_def)

text \<open>The strings hashed for the ids of the ingested observations.\<close>

definition ingest_preimages :: "libs \<Rightarrow> string set" where
  "ingest_preimages L =
     (case gc_ingest L of None \<Rightarrow> {} | Some (x, store, lg, kt) \<Rightarrow> stream_preimages L (lg_stream lg gc_tenant))"

abbreviation gc_raws :: "string list" where
  "gc_raws \<equiv> [''raw-purchase'', ''raw-withdrawal'', ''raw-deposit'', ''raw-staking-reward'']"

lemma gc_ingest_stream:
  assumes "libs_ok L"
  obtains e1 e2 e3 e4 bk where "gc_ingest L =
      Some (\<lparr>in_purchase = se_event_id e1, in_withdrawal = se_event_id e2, in_deposit = se_event_id e3, in_staking = se_event_id e4\<rparr>,
        es_run L gc_raws es_new, bk)"
    "booked L 4 bk" "lg_stream (fst bk) gc_tenant = [e1, e2, e3, e4]"
    "map (\<lambda>e. ev_payload (se_draft e)) [e1, e2, e3, e4] = [purchase_payload, withdrawal_payload, deposit_payload, staking_payload]"
    "map (\<lambda>e. ev_time (se_draft e)) [e1, e2, e3, e4] = [10, 20, 30, 40]"
proof -
  let ?s1 = "snd (es_put L ''raw-purchase'' es_new)"
  let ?s2 = "snd (es_put L ''raw-withdrawal'' ?s1)"
  let ?s3 = "snd (es_put L ''raw-deposit'' ?s2)"
  note observe = gc_observe_run [OF assms]
  have lt: "0 < (1000 :: nat)" "Suc 0 < 1000" "Suc (Suc 0) < 1000" "Suc (Suc (Suc 0)) < 1000" by simp_all
  have 0: "booked L 0 (lg_new, 0)" by (simp add: booked_def lg_inv_new)
  obtain e1 b1 where 1: "gc_observe L ''raw-purchase'' purchase_payload 10 (es_new, lg_new, 0) = Some (se_event_id e1, ?s1, b1)"
    "booked L (Suc 0) b1" "lg_stream (fst b1) gc_tenant = lg_stream lg_new gc_tenant @ [e1]"
    "ev_payload (se_draft e1) = purchase_payload" "ev_time (se_draft e1) = 10"
    using observe [OF 0 lt(1) gc_payloads_ok(1), of "''raw-purchase''" 10 es_new, unfolded fst_conv] by blast
  obtain e2 b2 where 2: "gc_observe L ''raw-withdrawal'' withdrawal_payload 20 (?s1, b1) = Some (se_event_id e2, ?s2, b2)"
    "booked L (Suc (Suc 0)) b2" "lg_stream (fst b2) gc_tenant = lg_stream (fst b1) gc_tenant @ [e2]"
    "ev_payload (se_draft e2) = withdrawal_payload" "ev_time (se_draft e2) = 20"
    using observe [OF 1(2) lt(2) gc_payloads_ok(2), of "''raw-withdrawal''" 20 ?s1] by blast
  obtain e3 b3 where 3: "gc_observe L ''raw-deposit'' deposit_payload 30 (?s2, b2) = Some (se_event_id e3, ?s3, b3)"
    "booked L (Suc (Suc (Suc 0))) b3" "lg_stream (fst b3) gc_tenant = lg_stream (fst b2) gc_tenant @ [e3]"
    "ev_payload (se_draft e3) = deposit_payload" "ev_time (se_draft e3) = 30"
    using observe [OF 2(2) lt(3) gc_payloads_ok(3), of "''raw-deposit''" 30 ?s2] by blast
  obtain e4 b4 where 4: "gc_observe L ''raw-staking-reward'' staking_payload 40 (?s3, b3) =
      Some (se_event_id e4, snd (es_put L ''raw-staking-reward'' ?s3), b4)"
    "booked L (Suc (Suc (Suc (Suc 0)))) b4" "lg_stream (fst b4) gc_tenant = lg_stream (fst b3) gc_tenant @ [e4]"
    "ev_payload (se_draft e4) = staking_payload" "ev_time (se_draft e4) = 40"
    using observe [OF 3(2) lt(4) gc_payloads_ok(4), of "''raw-staking-reward''" 40 ?s3] by blast
  show thesis
    using 1 2 3 4 by (intro that [of e1 e2 e3 e4 b4]) (simp_all add: gc_ingest_def numeral_eq_Suc)
qed

lemma gc_ingest_run:
  assumes "libs_ok L" and "no_collision L (ingest_preimages L)"
  obtains x bk where "gc_ingest L = Some (x, es_run L gc_raws es_new, bk)"
    "booked L 4 bk" "in_staking x \<noteq> in_withdrawal x" "in_staking x \<noteq> in_deposit x"
proof -
  obtain e1 e2 e3 e4 bk where run: "gc_ingest L =
      Some (\<lparr>in_purchase = se_event_id e1, in_withdrawal = se_event_id e2, in_deposit = se_event_id e3, in_staking = se_event_id e4\<rparr>,
        es_run L gc_raws es_new, bk)"
    and bk: "booked L 4 bk" and stream: "lg_stream (fst bk) gc_tenant = [e1, e2, e3, e4]"
    and payloads: "map (\<lambda>e. ev_payload (se_draft e)) [e1, e2, e3, e4] = [purchase_payload, withdrawal_payload, deposit_payload, staking_payload]"
    by (rule gc_ingest_stream [OF assms(1)])
  have nc: "no_collision L (stream_preimages L (lg_stream (fst bk) gc_tenant))"
    using assms(2) by (simp add: ingest_preimages_def run split: prod.splits)
  have inv: "lg_inv L (fst bk)" using bk by (simp add: booked_def)
  note determines = event_id_determines [OF assms(1) inv nc, unfolded stream]
  have "se_event_id e4 \<noteq> se_event_id e2" "se_event_id e4 \<noteq> se_event_id e3"
    using determines [of e4 e2] determines [of e4 e3] payloads gc_payloads_ok gc_payloads_distinct by auto
  with that [OF run bk] show thesis by simp
qed

lemma gc_drafted_run:
  assumes "libs_ok L" and "booked L n bk" and "n < 1000" and "drafted L d" and "ev_tenant d = gc_tenant"
  shows "\<exists>x bk'. gc_book L d bk = Some (x, bk') \<and> booked L (Suc n) bk'"
  by (rule gc_book_run [OF assms(1-3) drafted_admissible [OF assms(4)] assms(5)]) blast

lemma gc_config_hash: "libs_ok L \<Longrightarrow> config_hash L gc_config = Inr (sha256 L (preimage L (config_env L gc_config)))"
  using config_identity.hash_total [of L gc_config] by (simp add: config_hash_def config_wf_def gc_config_def)

text \<open>The withdrawal nets with the deposit by its transaction hash, and only the staking reward is left.\<close>

lemma gc_match:
  assumes "libs_ok L" and "in_staking x \<noteq> in_withdrawal x" and "in_staking x \<noteq> in_deposit x"
  shows "match_legs L (gc_legs x) gc_config = Inr
    \<lparr>mo_proposals = [\<lparr>mp_out_leg = in_withdrawal x, mp_in_leg = in_deposit x, mp_tier = Deterministic, mp_disposition = AutoNet,
       mp_config_hash = sha256 L (preimage L (config_env L gc_config))\<rparr>],
     mo_blockers = \<lparr>cb_unmatched_legs = [in_staking x], cb_queued_decisions = []\<rparr>\<rparr>"
  using assms(2,3)
  by (simp add: match_legs_def gc_config_hash [OF assms(1)] gc_legs_def gc_leg_def side_legs_def leg_key_def tier0_partner_def
      proposed_legs_def gc_constants Let_def)

lemma gc_reconcile_run:
  assumes "libs_ok L" and "booked L n bk" and "n < 1000" and "in_staking x \<noteq> in_withdrawal x" and "in_staking x \<noteq> in_deposit x"
  shows "\<exists>auto_net outcome bk'. gc_reconcile L x bk = Some (auto_net, outcome, bk') \<and> booked L (Suc n) bk' \<and>
    mo_blockers outcome = \<lparr>cb_unmatched_legs = [in_staking x], cb_queued_decisions = []\<rparr>"
proof -
  let ?p = "\<lparr>mp_out_leg = in_withdrawal x, mp_in_leg = in_deposit x, mp_tier = Deterministic, mp_disposition = AutoNet,
       mp_config_hash = sha256 L (preimage L (config_env L gc_config))\<rparr>"
  obtain d where d: "draft_auto_net L ?p gc_tenant 30 = Inr d" "ev_tenant d = gc_tenant"
    using decision_identity.hash_total [OF assms(1), of ?p] by (simp add: draft_auto_net_def decision_hash_def)
  obtain y bk' where "gc_book L d bk = Some (y, bk')" "booked L (Suc n) bk'"
    using gc_drafted_run [OF assms(1-3) drafted_auto_net [OF d(1)] d(2)] by blast
  then show ?thesis using d(1) gc_match [OF assms(1,4,5)] by (simp add: gc_reconcile_def)
qed

lemma gc_designate_run:
  assumes "libs_ok L" and "booked L n bk" and "n < 1000"
    and "mo_blockers outcome = \<lparr>cb_unmatched_legs = [in_staking x], cb_queued_decisions = []\<rparr>"
  shows "\<exists>designation_event bk'. gc_designate L x policy outcome bk = Some (designation_event, bk') \<and> booked L (Suc n) bk'"
proof -
  let ?p = "gc_proposal x policy"
  obtain item where item: "proposal_hash L ?p = Inr item"
    using designation_identity.hash_total [OF assms(1), of ?p] by (simp add: proposal_hash_def gc_proposal_def)
  obtain d where d: "draft_designation L ?p (DG_Confirmed ''preparer'' ''approver'') gc_tenant 40 = Inr d" "ev_tenant d = gc_tenant"
    using item by (simp add: draft_designation_def)
  obtain y bk' where "gc_book L d bk = Some (y, bk')" "booked L (Suc n) bk'"
    using gc_drafted_run [OF assms(1-3) drafted_designation [OF d(1)] d(2)] by blast
  then show ?thesis using item d(1) assms(4)
    by (simp add: gc_designate_def dq_propose_def dq_new_def dq_confirm_def dq_state_def designated_legs_def hm_or_insert_def
        hm_insert_def in_set_map_filter gc_proposal_def)
qed

lemma gc_scope_run:
  assumes "libs_ok L" and "booked L n bk" and "n < 1000"
  shows "\<exists>bk'. gc_scope L policy bk = Some bk' \<and> booked L (Suc n) bk'"
proof -
  let ?a = "gc_assessment policy"
  obtain item where item: "assessment_hash L ?a = Inr item"
    using assessment_identity.hash_total [OF assms(1), of ?a] by (simp add: assessment_hash_def)
  obtain d where d: "draft_scope_judgment L ?a (DC_Confirmed ''preparer'' ''approver'') 45 = Inr d" "ev_tenant d = gc_tenant"
    using item by (simp add: draft_scope_judgment_def gc_assessment_def)
  obtain y bk' where "gc_book L d bk = Some (y, bk')" "booked L (Suc n) bk'"
    using gc_drafted_run [OF assms(1-3) drafted_scope [OF d(1)] d(2)] by blast
  moreover have "verdict ?a = InScope" by (simp add: verdict_in_scope gc_assessment_def criteria_entries_def)
  ultimately show ?thesis using item d(1)
    by (simp add: gc_scope_def sg_propose_def sg_new_def sg_confirm_def sg_state_def sg_check_def dc_new_def dc_propose_def
        dc_confirm_def dc_payload_def dc_state_def gc_assessment_def)
qed

lemma gc_book_entry_run:
  assumes "libs_ok L" and "booked L n bk" and "n < 1000"
  shows "\<exists>bk'. gc_book_entry L (entry, input) bk = Some bk' \<and> booked L (Suc n) bk'"
proof -
  obtain d where d: "draft_policy_output L entry gc_tenant 50 [input] = Inr d" "ev_tenant d = gc_tenant"
    using entry_hash_total [OF assms(1), of entry] by (auto simp: draft_policy_output_def)
  obtain y bk' where "gc_book L d bk = Some (y, bk')" "booked L (Suc n) bk'"
    using gc_drafted_run [OF assms(1-3) drafted_entry [OF d(1)] d(2)] by blast
  then show ?thesis using d(1) by (simp add: gc_book_entry_def)
qed

lemma gc_gaap_run:
  assumes "libs_ok L" and "booked L n bk" and "n < 900"
  shows "\<exists>e_buy e_reward e_mark bk'. gc_gaap L x designation_event pm bk = Some (e_buy, e_reward, e_mark, bk') \<and>
    booked L (Suc (Suc (Suc n))) bk'"
proof -
  obtain e_buy where buy: "acquisition_entry (gc_usd 70) (gc_usd 1) Expense pm = Inr e_buy"
    using acquisition_total [of "gc_usd 70" "gc_usd 1" Expense pm] by (auto simp: gc_usd_def in_i128_def)
  obtain e_reward where reward: "acquisition_entry (gc_usd 5) (gc_usd 0) Expense pm = Inr e_reward"
    using acquisition_total [of "gc_usd 5" "gc_usd 0" Expense pm] by (auto simp: gc_usd_def in_i128_def)
  obtain e_mark where mark: "remeasurement_entry (gc_usd 75) (gc_usd 100) pm = Inr (Some e_mark)"
    by (simp add: remeasurement_entry_def i128_ops i128_opt_def in_i128_def je_new_def gc_usd_def Let_def)
  obtain b1 where 1: "gc_book_entry L (e_buy, in_purchase x) bk = Some b1" "booked L (Suc n) b1"
    using gc_book_entry_run [OF assms(1,2), of e_buy "in_purchase x"] assms(3) by auto
  obtain b2 where 2: "gc_book_entry L (e_reward, designation_event) b1 = Some b2" "booked L (Suc (Suc n)) b2"
    using gc_book_entry_run [OF assms(1) 1(2), of e_reward designation_event] assms(3) by auto
  obtain b3 where "gc_book_entry L (e_mark, in_purchase x) b2 = Some b3" "booked L (Suc (Suc (Suc n))) b3"
    using gc_book_entry_run [OF assms(1) 2(2), of e_mark "in_purchase x"] assms(3) by auto
  then show ?thesis using buy reward mark 1(1) 2(1) by (simp add: gc_gaap_def)
qed

subsection \<open>The close runs\<close>

lemma gc_evidence_run:
  assumes "libs_ok L"
  obtains store rh where "gc_post L entries (es_run L gc_raws es_new) = Some store" "gc_anchor L store = Some rh"
proof -
  obtain store where post: "gc_post L entries (es_run L gc_raws es_new) = Some store"
    "store = es_run L [''raw-gl-response'', ''raw-gl-readback''] (es_run L gc_raws es_new)"
    by (rule gc_post_run [OF assms])
  have "es_len store < 2 ^ 64"
    using es_run_len [of L "[''raw-gl-response'', ''raw-gl-readback'']" "es_run L gc_raws es_new"] es_run_len [of L gc_raws es_new]
      post(2) by (simp add: es_len_def es_new_def)
  with post(1) that show thesis using gc_anchor_run [OF assms] by blast
qed

text \<open>C13: The golden close runs to its end, whatever the libraries below it are: for every hash that does not collide on
  the envelopes of the ingested observations, every string encoder and every hex text that keep their laws, no stage of
  the quarter fails and every assertion holds: the withdrawal nets with the deposit, the staking reward is left over and
  then designated by two people, the asset is in scope, the lots are worth 100 with 25 unrealized, the entries balance, the
  batch is verified by its read-back, the checkpoint seals, the receipt verifies against the store, the pack ties to
  the valuation and closes over its references, and the chain of the ledger still verifies.\<close>

theorem golden_close_runs:
  assumes "libs_ok L" and "no_collision L (ingest_preimages L)"
  shows "\<exists>artifacts. run_close L = Some artifacts"
proof -
  obtain policy registry pm where policies: "gc_policies L = Some (policy, registry)"
    "reg_active_at registry gc_tenant pm_kind 1000 = Some pm"
    using gc_policies_run [OF assms(1)] by blast
  obtain x b1 where ingest: "gc_ingest L = Some (x, es_run L gc_raws es_new, b1)" "booked L 4 b1"
    "in_staking x \<noteq> in_withdrawal x" "in_staking x \<noteq> in_deposit x"
    using gc_ingest_run [OF assms] by blast
  obtain auto_net outcome b2 where net: "gc_reconcile L x b1 = Some (auto_net, outcome, b2)" "booked L 5 b2"
    "mo_blockers outcome = \<lparr>cb_unmatched_legs = [in_staking x], cb_queued_decisions = []\<rparr>"
    using gc_reconcile_run [OF assms(1) ingest(2) _ ingest(3,4)] by auto
  obtain designation b3 where designate: "gc_designate L x policy outcome b2 = Some (designation, b3)" "booked L 6 b3"
    using gc_designate_run [OF assms(1) net(2) _ net(3), of policy] by auto
  obtain b4 where scope: "gc_scope L policy b3 = Some b4" "booked L 7 b4"
    using gc_scope_run [OF assms(1) designate(2), of policy] by auto
  obtain book where lots: "gc_lots L x auto_net designation = Some book" using gc_lots_run [OF assms(1)] by blast
  obtain v vh where val: "gc_value L registry book = Some (pm, v, vh)" "map pos_asset (vl_positions v) = [gc_btc]"
    "map pos_fair_value (vl_positions v) = [gc_usd 100]"
    using gc_value_run [OF assms(1) lots policies(2)] by blast
  obtain e_buy e_reward e_mark b5 where gaap: "gc_gaap L x designation pm b4 = Some (e_buy, e_reward, e_mark, b5)" "booked L 10 b5"
    using gc_gaap_run [OF assms(1) scope(2), of x designation pm] by auto
  obtain store rh where evidence: "gc_post L [e_buy, e_reward, e_mark] (es_run L gc_raws es_new) = Some store" "gc_anchor L store = Some rh"
    by (rule gc_evidence_run [OF assms(1)])
  obtain cp where checkpoint: "gc_checkpoint L (fst b5) = Some cp" using gc_checkpoint_run [OF assms(1)] by blast
  obtain pack where disclose: "gc_disclose L cp vh pm rh v e_buy e_reward e_mark = Some pack"
    using gc_disclose_run [OF assms(1) val(2,3)] by blast
  have "lg_verify_chain L (fst b5) gc_tenant = Inr ()"
    using mem_ledger.chained gaap(2) by (simp add: booked_def)
  moreover obtain ph where "pack_hash L pack = Inr ph"
    using pack_identity.hash_total [OF assms(1), of pack] by (simp add: pack_hash_def)
  ultimately show ?thesis
    using policies(1) ingest(1) net(1) designate(1) scope(1) lots val(1) gaap(1) evidence checkpoint disclose
    by (simp add: run_close_def)
qed

text \<open>A hash that reads the first digit of the event time, which opens the envelope of an event.\<close>

definition tick_hash :: "string \<Rightarrow> content_hash" where
  "tick_hash s = hash_of_byte (case drop 15 s of [] \<Rightarrow> CHR 0x00 | c # _ \<Rightarrow> c)"

lemma event_preimage_time:
  assumes "payload_ok (ev_payload d)"
  shows "\<exists>r. event_preimage (demo_libs h) prev kt d =
    ''{'' @ quote_string ''event_time'' @ '':'' @ quote_string (show_int (ev_time d)) @ r"
proof -
  have "json_ok max_depth (event_env (demo_libs h) (prev, kt, d))"
    using assms by (simp add: event_env_ok payload_ok_def)
  then obtain b where b: "canonical_bytes (demo_libs h) (event_env (demo_libs h) (prev, kt, d)) = Inr b"
    using canonical_bytes_ok [OF demo_libs_ok] by (auto simp: json_ok_def is_ok_iff)
  then show ?thesis
    by (auto simp: event_preimage_def preimage_def canonical_bytes_def event_env_def json_object_def guard_depth_def
        result_simps time_json_def write_string_def demo_libs_def max_depth_def)
qed

lemma tick_hash_event:
  assumes "payload_ok (ev_payload d)" and "show_int (ev_time d) = [c, CHR ''0'']" and "quote_char c = [c]"
  shows "tick_hash (event_preimage (demo_libs h) prev kt d) = hash_of_byte c"
proof -
  obtain r where "event_preimage (demo_libs h) prev kt d =
      ''{'' @ quote_string ''event_time'' @ '':'' @ quote_string (show_int (ev_time d)) @ r"
    using event_preimage_time [OF assms(1)] by blast
  then show ?thesis using assms(2,3) by (simp add: tick_hash_def quote_string_def quote_char_def)
qed

lemma show_tens: "show_int 10 = ''10''" "show_int 20 = ''20''" "show_int 30 = ''30''" "show_int 40 = ''40''"
  by code_simp+

theorem golden_close_runs_witness: "\<exists>artifacts. run_close (demo_libs tick_hash) = Some artifacts"
proof (rule golden_close_runs [OF demo_libs_ok])
  let ?L = "demo_libs tick_hash"
  obtain e1 e2 e3 e4 bk where run: "gc_ingest ?L =
      Some (\<lparr>in_purchase = se_event_id e1, in_withdrawal = se_event_id e2, in_deposit = se_event_id e3, in_staking = se_event_id e4\<rparr>,
        es_run ?L gc_raws es_new, bk)"
    and stream: "lg_stream (fst bk) gc_tenant = [e1, e2, e3, e4]"
    and payloads: "map (\<lambda>e. ev_payload (se_draft e)) [e1, e2, e3, e4] = [purchase_payload, withdrawal_payload, deposit_payload, staking_payload]"
    and times: "map (\<lambda>e. ev_time (se_draft e)) [e1, e2, e3, e4] = [10, 20, 30, 40]"
    by (rule gc_ingest_stream [OF demo_libs_ok])
  have "map (\<lambda>e. tick_hash (event_preimage ?L (se_prev e) (se_knowledge_time e) (se_draft e))) [e1, e2, e3, e4] =
      map hash_of_byte ''1234''"
    using payloads times gc_payloads_ok tick_hash_event [of "se_draft e1" "CHR ''1''"] tick_hash_event [of "se_draft e2" "CHR ''2''"]
      tick_hash_event [of "se_draft e3" "CHR ''3''"] tick_hash_event [of "se_draft e4" "CHR ''4''"]
    by (simp add: show_tens quote_char_def)
  then show "no_collision ?L (ingest_preimages ?L)"
    using stream by (auto simp: ingest_preimages_def run no_collision_def inj_on_def stream_preimages_def split: prod.splits)
qed

end
