(* ===== verification/Negative_Close.thy ===== *)
theory Negative_Close
  imports Chainsource Scope Fairvalue Gaap
begin

section \<open>The negative closes\<close>

text \<open>
  The five tests of \<open>crates/treasury-e2e/tests/negative_close.rs\<close>: each makes one thing go wrong and asserts that the
  pipeline refuses for that reason. A test is a truth value, true when its assertions hold and no unreachable branch is
  taken. The theorem is that they pass for every choice of the libraries whose hash does not collide on the histories
  the sources answer with.
\<close>

definition nc_policy :: finality_policy where
  "nc_policy = \<lparr>fp_chain = Bitcoin, fp_rule = ConfirmationDepth 6\<rparr>"

definition nc_movement :: "int \<Rightarrow> chain_movement" where
  "nc_movement atoms = \<lparr>cm_tx_ref = ''t1'', cm_direction = ChainInflow, cm_amount = amount_new ''BTC'' atoms, cm_block_height = 10\<rparr>"

definition nc_history :: "chain_movement list \<Rightarrow> address_history" where
  "nc_history movements = \<lparr>ah_chain = Bitcoin, ah_address = ''bc1q-acme'', ah_settled_to_height = 0, ah_movements = movements\<rparr>"

definition nc_source :: "string \<Rightarrow> chain_movement list \<Rightarrow> unit chain_source" where
  "nc_source sid movements = fixture_chain_source (fx_with_history (nc_history movements) (fx_new Bitcoin sid))"

text \<open>A source that answers differently on consecutive calls; its cell is the state of the world.\<close>

definition flaky_source :: "bool chain_source" where
  "flaky_source = \<lparr>cs_chain = Bitcoin, cs_source_id = ''flaky'',
     cs_address_history = (\<lambda>_ _ first. (Inr (nc_history [nc_movement (if first then 500 else 999)]), \<not> first))\<rparr>"

definition chain_divergence_blocks :: "libs \<Rightarrow> bool" where
  "chain_divergence_blocks L =
     (case reconcile_sources L (nc_source ''core+electrs'' [nc_movement 500]) (nc_source ''core+fulcrum'' [])
         nc_policy ''bc1q-acme'' 100 () () of
        Inl _ \<Rightarrow> False
      | Inr r \<Rightarrow> \<not> recon_agreed r \<and>
          draft_history_observation L r ''acme'' ''core+electrs|core+fulcrum'' (hash_of_byte (CHR 0x07)) 10 = Inl ObservationDiverged)"

definition non_deterministic_source_rejected :: "libs \<Rightarrow> bool" where
  "non_deterministic_source_rejected L =
     (case fst (reproducibility_gate L flaky_source nc_policy ''bc1q-acme'' 100 True) of
        Inl (NotReproducible _ _ _) \<Rightarrow> True | _ \<Rightarrow> False)"

definition missing_price_fails :: "libs \<Rightarrow> bool" where
  "missing_price_fails L =
     (case acquire L ''BTC'' ''exchange'' 7 (amount_new ''USD'' 70) (amount_new ''USD'' 1) 10 (hash_of_byte (CHR 0x01)) (lb_new ''acme'') of
        (Inl _, _) \<Rightarrow> False
      | (Inr _, book) \<Rightarrow>
          value_book L book \<lparr>ps_currency = ''USD'', ps_as_of = 1000, ps_prices = []\<rparr> (hash_of_byte (CHR 0x02)) = Inl (MissingPrice ''BTC''))"

definition nc_assessment :: scope_assessment where
  "nc_assessment = \<lparr>sa_tenant = ''acme'', sa_asset = ''BTC'',
     sa_criteria = \<lparr>ca_intangible_asset = Met, ca_no_enforceable_claim = NotMet, ca_on_distributed_ledger = Met,
       ca_cryptographically_secured = Met, ca_fungible = Met, ca_not_self_issued = Met\<rparr>,
     sa_policy_hash = hash_of_byte (CHR 0x02)\<rparr>"

definition out_of_scope_blocks :: "libs \<Rightarrow> bool" where
  "out_of_scope_blocks L =
     (case sg_propose L nc_assessment ''preparer'' sg_new of
        (Inl _, _) \<Rightarrow> False
      | (Inr item, gate) \<Rightarrow>
          (case sg_confirm item ''approver'' gate of
             (Inl _, _) \<Rightarrow> False
           | (Inr _, gate) \<Rightarrow>
               (case sg_check gate ''acme'' ''BTC'' of BlockedOutOfScope _ _ \<Rightarrow> True | _ \<Rightarrow> False)))"

definition unbalanced_entry_refused :: bool where
  "unbalanced_entry_refused \<longleftrightarrow>
     je_new ''manual''
       [\<lparr>jl_side = Debit, jl_line = CryptoAssets, jl_amount = amount_new ''USD'' 100\<rparr>,
        \<lparr>jl_side = Credit, jl_line = UnrealizedCryptoGainLoss, jl_amount = amount_new ''USD'' 50\<rparr>]
       (hash_of_byte (CHR 0x03)) = Inl (Unbalanced 100 50)"

subsection \<open>They refuse\<close>

text \<open>The strings hashed for the settled histories of the sources.\<close>

definition nc_preimages :: "libs \<Rightarrow> string set" where
  "nc_preimages L = (\<lambda>ms. preimage L (history_env L (clamp 94 (nc_history ms)))) ` {[nc_movement 500], [nc_movement 999], []}"

lemma nc_settled_height: "settled_height nc_policy 100 = 94"
  by (simp add: settled_height_def nc_policy_def u64_saturating_sub_def)

lemma nc_source_answer:
  "cs_chain (nc_source sid ms) = Bitcoin" "fst (cs_address_history (nc_source sid ms) ''bc1q-acme'' height w) = Inr (nc_history ms)"
  by (simp_all add: nc_source_def fixture_chain_source_def fx_with_history_def fx_new_def fx_address_history_def nc_history_def)

lemma nc_envs_distinct:
  "history_env L (clamp 94 (nc_history [nc_movement m])) = history_env L (clamp 94 (nc_history [nc_movement n])) \<longleftrightarrow> m = n"
  "history_env L (clamp 94 (nc_history [nc_movement m])) \<noteq> history_env L (clamp 94 (nc_history []))"
  by (simp_all add: history_env_eq_iff nc_history_def nc_movement_def settled_movements_def ordered_movements_def)

lemma nc_hashes_distinct:
  assumes "libs_ok L" and "no_collision L (nc_preimages L)"
  shows "history_hash L (clamp 94 (nc_history [nc_movement 500])) \<noteq> history_hash L (clamp 94 (nc_history [nc_movement 999]))"
    "history_hash L (clamp 94 (nc_history [nc_movement 500])) \<noteq> history_hash L (clamp 94 (nc_history []))"
proof -
  have "no_collision L {preimage L (history_env L (clamp 94 (nc_history [nc_movement 500]))),
      preimage L (history_env L (clamp 94 (nc_history ms)))}" if "ms = [] \<or> ms = [nc_movement 999]" for ms
    using that by (intro no_collision_mono [OF assms(2)]) (auto simp: nc_preimages_def)
  then show "history_hash L (clamp 94 (nc_history [nc_movement 500])) \<noteq> history_hash L (clamp 94 (nc_history [nc_movement 999]))"
    "history_hash L (clamp 94 (nc_history [nc_movement 500])) \<noteq> history_hash L (clamp 94 (nc_history []))"
    using nc_envs_distinct by (simp_all add: history_hash_eq_iff [OF assms(1)])
qed

lemma divergence_blocks:
  assumes "libs_ok L" and "no_collision L (nc_preimages L)"
  shows "chain_divergence_blocks L"
  using nc_hashes_distinct(2) [OF assms] settled_view_answer [OF nc_source_answer(2)]
  by (auto simp: chain_divergence_blocks_def reconcile_sources_def nc_source_answer nc_settled_height
      history_hash_total [OF assms(1)] draft_history_observation_def Let_def) (simp_all add: nc_policy_def)

lemma flaky_rejected:
  assumes "libs_ok L" and "no_collision L (nc_preimages L)"
  shows "non_deterministic_source_rejected L"
  using nc_hashes_distinct(1) [OF assms]
  by (auto simp: non_deterministic_source_rejected_def reproducibility_gate_def flaky_source_def settled_view_def nc_settled_height
      history_hash_total [OF assms(1)] Let_def) (simp_all add: nc_policy_def)

lemma unpriced_fails:
  assumes "libs_ok L"
  shows "missing_price_fails L"
proof -
  have "snapshot_wf \<lparr>ps_currency = ''USD'', ps_as_of = 1000, ps_prices = []\<rparr>" by (simp add: snapshot_wf_def)
  note totals = snapshot_identity.hash_total [OF assms this] lots_state.hash_total [OF assms] valuation_key_identity.hash_total [OF assms]
  show ?thesis
    by (simp add: missing_price_fails_def acquire_def open_lot_def compute_lot_id_total [OF assms] lb_new_def value_book_def
        lots_hash_state snapshot_hash_def key_hash_def totals open_lots_def Let_def)
qed

lemma out_of_scope_refused: "libs_ok L \<Longrightarrow> out_of_scope_blocks L"
  using assessment_identity.hash_total [of L nc_assessment]
  by (simp add: out_of_scope_blocks_def sg_propose_def assessment_hash_def sg_new_def sg_confirm_def sg_check_def dc_new_def
      dc_propose_def dc_confirm_def dc_payload_def verdict_def criteria_entries_def)
    (simp add: nc_assessment_def)

text \<open>C15: Every negative close refuses for its own reason: two sources that differ in a settled movement diverge and
  nothing of them can be booked; a source whose answers change fails the reproducibility gate; a held asset with no
  price fails the valuation by name; an asset that misses a criterion is blocked as out of scope even when two people
  confirmed its assessment; and an entry that does not balance cannot be built, whatever the hash, the string encoder
  and the hex text are, so long as the hash does not collide on the answered histories.\<close>

theorem negative_closes_refuse:
  assumes "libs_ok L" and "no_collision L (nc_preimages L)"
  shows "chain_divergence_blocks L \<and> non_deterministic_source_rejected L \<and> missing_price_fails L \<and>
    out_of_scope_blocks L \<and> unbalanced_entry_refused"
  using divergence_blocks [OF assms] flaky_rejected [OF assms] unpriced_fails [OF assms(1)] out_of_scope_refused [OF assms(1)]
  by (simp add: unbalanced_entry_refused_def je_new_def i128_ops i128_opt_def in_i128_def)

text \<open>The canonical text does not depend on the hash, so a hash may be chosen that tells the three histories apart.\<close>

definition nc_text :: "chain_movement list \<Rightarrow> string" where
  "nc_text ms = preimage (const_libs (CHR 0x00)) (history_env (const_libs (CHR 0x00)) (clamp 94 (nc_history ms)))"

definition apart_hash :: "string \<Rightarrow> content_hash" where
  "apart_hash s = hash_of_byte (if s = nc_text [nc_movement 500] then CHR 0x01 else if s = nc_text [nc_movement 999] then CHR 0x02 else CHR 0x03)"

theorem negative_closes_refuse_witness: "chain_divergence_blocks (demo_libs apart_hash) \<and> unbalanced_entry_refused"
proof -
  have "preimage (demo_libs apart_hash) (history_env (demo_libs apart_hash) (clamp 94 (nc_history ms))) = nc_text ms" for ms
    by (simp add: nc_text_def const_libs_def history_env_def preimage_demo [of apart_hash _ "\<lambda>_. hash_of_byte (CHR 0x00)"])
  then have "no_collision (demo_libs apart_hash) (nc_preimages (demo_libs apart_hash))"
    by (auto simp: no_collision_def inj_on_def nc_preimages_def apart_hash_def split: if_splits)
  from negative_closes_refuse [OF demo_libs_ok this] show ?thesis by blast
qed

end
