(* ===== verification/Spec2Isabelle.thy ===== *)
theory Spec2Isabelle
  imports Dual_Control Aggregation Evidence_File Ledger_File Lots_Runs Close Anchor Policy Gaap Posting Gl Scope
    Fairvalue Disclosure Quarter_Close Matcher Queues Chainsource Ingest Corpus Conformance Drafts
    Ledger_Spec Wire Golden_Close Negative_Close
begin

text \<open>
  A verification library for presidio-hardened-treasury, a Rust workspace (\<open>src/crates/\<close>) that keeps the
  books of a corporate treasury of digital assets: evidence and events are content-addressed and
  append-only, judgments need two people, and every number is an exact integer. This header maps the
  program to the theories.

  \<^bold>\<open>How the parts interact.\<close> Raw payloads go into the evidence store; observations, derived facts,
  judgments and policy outputs go as drafts into the per-tenant hash chain of the ledger. Chain sources and
  the transfer matcher produce drafts; human queues turn ambiguous matches, leg classifications and scope
  assessments into judgments; the lot book carries quantities and basis, fair value marks it under a price
  snapshot, the entry builders turn its movements into balanced journal entries, and the posting protocol
  takes batches of entries to a general ledger. Closed periods are checkpoints in a supersession DAG, and
  tree heads of the evidence store are aggregated and anchored to a public chain.

  \<^bold>\<open>Theories, in the order of the code.\<close>
  \<^item> \<open>Prelude\<close>: results (\<open>and_then\<close>, \<open>map_err\<close>, the \<open>?\<close> operator with state as \<open>and_then_st\<close>), hash and
    B-tree maps as association lists, \<open>i128\<close>/\<open>i64\<close>/\<open>u64\<close>/\<open>usize\<close> arithmetic (checked, saturating), decimal
    text; the collection \<open>result_simps\<close>.
  \<^item> \<open>Core\<close>, \<open>Amount\<close>: \<open>treasury-core\<close> \<open>ids.rs\<close>, \<open>hash.rs\<close>, \<open>time.rs\<close>, \<open>amount.rs\<close>. The libraries below the
    program (SHA-256, the JSON string encoder, hex) are the record \<open>libs\<close>, an argument of every definition that
    uses them; \<open>libs_ok\<close> states what is relied on (the string encoder is prefix-free and injective, hex round-trips), and
    \<open>no_collision L S\<close> that SHA-256 does not collide on the particular strings \<open>S\<close>.
  \<^item> \<open>Dual_Control\<close>: \<open>treasury-core/dual_control.rs\<close>, and the locale \<open>two_person\<close>, the contract of every
    approval queue, interpreted on this queue, on the confirmation queue and on the designation queue.
  \<^item> \<open>Canon\<close>: \<open>treasury-evidence/canon.rs\<close>; the encoder accepts exactly float-free values at most 128 deep and is
    injective. The locale \<open>artifact\<close> (an envelope that is canonical and determines its record) turns this into
    the facts every hashed record shares; it is interpreted on the envelopes of the hashed records.
  \<^item> \<open>Merkle\<close>, \<open>Aggregation\<close>: \<open>evidence/merkle.rs\<close>, \<open>anchor/aggregation.rs\<close>; heads determine leaves, proofs are
    complete, a proof that verifies is for one of the heads, and for the head at its index when the tree size it claims, which the
    code does not check, is the real one, and the search for the split point halts over the whole machine range. The crate of the
    aggregation has its own copy of the prefixes and of the split, shown equal to the store's.
  \<^item> \<open>Evidence_Store\<close>, \<open>Evidence_File\<close>, \<open>Jsonl\<close>: \<open>evidence/store.rs\<close> and \<open>file.rs\<close>. The locale \<open>evidence_store\<close>
    is the trait, with both backends as interpretations; \<open>durable_log\<close> is the shape of both JSON-lines
    backends (what was written by successful calls reloads to the same state, torn tails are refused or dropped, and a complete
    line the loader refuses makes the whole file refused). A file is read into a string, so the model checks that its bytes are
    UTF-8 before it looks at them: a tail torn inside a character makes the file unreadable, for the recovery too.
  \<^item> \<open>Event\<close>, \<open>Event_Wire\<close>, \<open>Ledger\<close>, \<open>Ledger_File\<close>: \<open>treasury-ledger\<close>. \<open>Event_Wire\<close> has the derived writers and readers of
    events on JSON trees, with reading the inverse of writing; \<open>Json_Demo\<close> gives a concrete text of trees, which shows
    that what is assumed of \<open>serde_json\<close> can hold. The locale \<open>ledger_backend\<close> is the trait, interpreted on both
    ledgers: chains verify, times increase, the books as of a reached time never change. \<open>Ledger_Spec\<close> is the ledger as its
    readers see it, a journal of what was said and when; the code refines it, for every sequence of appends.
  \<^item> \<open>Lots\<close>, \<open>Lots_Runs\<close>: \<open>treasury-lots\<close>; acquisition, FIFO and specific-lot disposal, transfer; quantity, basis and fees are
    conserved exactly; \<open>Lots_Runs\<close> follows the book through failing operations too, and through books in which a lot
    acquired twice has put one id on two lots.
  \<^item> \<open>Close\<close>: \<open>treasury-close\<close>; checkpoints, linear lineages, state roots. \<open>Policy\<close>: \<open>treasury-policy\<close>; artifacts, the
    activation registry, valuation keys.
  \<^item> \<open>Gaap\<close>: \<open>treasury-gaap\<close>; balanced entries and the builders. \<open>Posting\<close>, \<open>Gl\<close>: \<open>treasury-posting\<close> and
    \<open>treasury-gl\<close>; the posting state machine, the orchestration against an adapter, the locale \<open>gl_contract\<close>
    interpreted on the fixture ledger.
  \<^item> \<open>Scope\<close>, \<open>Fairvalue\<close>, \<open>Disclosure\<close>: \<open>treasury-scope\<close>, \<open>treasury-fairvalue\<close>, \<open>treasury-disclosure\<close>; the scope
    gate, valuations (the division truncates towards zero as the code's does; rounding down is proved for the prices that
    are not negative), roll-forwards and the tie-out.
  \<^item> \<open>Anchor\<close>: \<open>treasury-anchor\<close>; receipts, the anchor log, the pipeline state machine and the fixture wallet.
  \<^item> \<open>Matcher\<close>, \<open>Queues\<close>, \<open>Corpus\<close>: \<open>treasury-reconcile\<close>; the three-tier matcher, the two human queues and the
    booking drafts, the labelled corpora with their service levels.
  \<^item> \<open>Chainsource\<close>: \<open>treasury-chainsource\<close>; histories, finality, the comparison of two sources; the locales
    \<open>steady_source\<close> and \<open>frozen_source\<close> are what a source promises, interpreted on the fixture source.
  \<^item> \<open>Ingest\<close>: \<open>treasury-ingest\<close>; egress allowlists and key scopes.
  \<^item> \<open>Conformance\<close>: \<open>treasury-conformance\<close>; the contract checks for live sources, ledgers and wallets; the
    locale \<open>live_wallet\<close> is what makes a wallet pass within its budget of polls, interpreted on the fixture wallet.
  \<^item> \<open>Wire\<close>: the derived readers of amounts, lots, roll-forward rows and corpora, inverse to their writers on JSON trees.
  \<^item> \<open>Quarter_Close\<close>, \<open>Golden_Close\<close>, \<open>Negative_Close\<close>: \<open>treasury-e2e\<close>. \<open>Quarter_Close\<close> is a harness rather than a
    translation: it runs the functions the test calls from the valuation to the tied pack over every position of an arbitrary book; \<open>Golden_Close\<close> is the whole of \<open>run_close\<close>, stage by
    stage over all the crates, and shows that it runs to its end with no panic under every hash that keeps the
    few strings of the run apart; \<open>Negative_Close\<close> shows that each of the five closes that must not happen is refused.
  \<^item> \<open>Drafts\<close>: which drafts the suite builds, and that a batch of them is accepted by the ledger.
  \<^item> this theory: every draft of every component enters the ledger, and no leg is booked twice.

  \<^bold>\<open>State and effects.\<close> A struct is a record, an enum a datatype, a method that mutates returns its result and
  the new state. \<open>HashMap\<close> and \<open>BTreeMap\<close> are association lists, iterated only where the code's result does not
  depend on the order or sorts it. Files, the operating system and remote systems are arguments: the outcome of each write, and
  for chain sources, ledgers and wallets a record of functions over a state of the outside world, so that two
  equal queries may answer differently. A panic of the tests (\<open>ok!\<close>, \<open>assert!\<close>, \<open>unreachable!\<close>) is \<open>None\<close> in the
  option monad. State machines have an inductive step relation (\<open>dc_step\<close>, \<open>pp_step\<close>,
  \<open>pl_step\<close>, \<open>sg_step\<close>, \<open>cq_step\<close>, \<open>dq_step\<close>) over whose reachable states the invariants are proved.

  \<^bold>\<open>Bounds and termination.\<close> Every function is total; there is no fuel. Loops are structural except the
  doubling and the tree recursion of \<open>Merkle\<close> and \<open>Aggregation\<close>, which have measures. Amounts are \<open>int\<close> with the
  \<open>i128\<close> range check of each checked operation written out; heights, counts and budgets are words or naturals with the
  code's saturation.

  \<^bold>\<open>Not modelled.\<close> The crate roots (module declarations and re-exports) and the unit tests inside the modules; the text of
  JSON, which is \<open>serde_json\<close>'s and enters the durable backends as a parameter with the round trip and the recursion limit it
  documents (\<open>Json_Demo\<close> gives an instance); \<open>Deserialize\<close> of the types that are hashed and kept but that no code
  of the workspace reads back (all but amounts, hashes, timestamps, sealed events, lots, roll-forward rows and corpora);
  \<open>Debug\<close> output. Strings are byte lists, as UTF-8 encodes them; bytes
  that come from a file are checked to be UTF-8 where the code reads them into a string.
\<close>

section \<open>Composition\<close>

subsection \<open>Every draft of the suite enters the ledger\<close>

text \<open>Every draft any component of the suite builds is fit for the ledger: its layer matches its provenance, it
  corrects nothing, its payload is canonical, and a batch of such drafts of one tenant, appended at
  strictly increasing knowledge times after the stream's last, is accepted whole and in order.\<close>

theorem drafts_enter_ledger:
  assumes "libs_ok L" and "list_all (\<lambda>(d, t). drafted L d \<and> ev_tenant d = tenant) ops"
    and "times_follow (last_time lg tenant) (map snd ops)"
  shows "list_all (\<lambda>(d, t). ev_layer d = prov_layer (ev_provenance d) \<and> ev_supersedes d = None \<and> payload_ok (ev_payload d)) ops \<and>
    (\<exists>es. lg_stream (lg_run L ops lg) tenant = lg_stream lg tenant @ es \<and>
      map (\<lambda>e. (se_draft e, se_knowledge_time e)) es = ops)"
  using drafted_batch_accepted [OF assms] drafted_admissible assms(2) by (fastforce simp: list_all_iff admissible_def)

theorem drafts_enter_ledger_witness:
  "\<exists>d e. draft_history_observation (demo_libs (\<lambda>_. hash_of_byte (CHR 0x07))) (Agreed (demo_history []) (hash_of_byte (CHR 0x01)))
       ''acme'' ''core'' (hash_of_byte (CHR 0x02)) 5 = Inr d \<and>
     lg_stream (lg_run (demo_libs (\<lambda>_. hash_of_byte (CHR 0x07))) [(d, 10), (d, 20)] lg_new) ''acme'' = e \<and> map se_draft e = [d, d]"
proof -
  let ?L = "demo_libs (\<lambda>_. hash_of_byte (CHR 0x07))"
  obtain d where d: "draft_history_observation ?L (Agreed (demo_history []) (hash_of_byte (CHR 0x01)))
       ''acme'' ''core'' (hash_of_byte (CHR 0x02)) 5 = Inr d" "ev_tenant d = ''acme''"
    by (simp add: draft_history_observation_def)
  have new: "lg_stream lg_new ''acme'' = []" by (simp add: lg_stream_def lg_new_def)
  have ops: "list_all (\<lambda>(d, t). drafted ?L d \<and> ev_tenant d = ''acme'') [(d, 10), (d, 20)]"
    using d drafted_observation by auto
  have "times_follow (last_time lg_new ''acme'') (map snd [(d, 10), (d, 20)])" by (simp add: last_time_def new)
  from drafts_enter_ledger [OF demo_libs_ok ops this] obtain es where
    "lg_stream (lg_run ?L [(d, 10), (d, 20)] lg_new) ''acme'' = es" "map (\<lambda>e. (se_draft e, se_knowledge_time e)) es = [(d, 10), (d, 20)]"
    by (auto simp: new)
  then show ?thesis using d(1) by (intro exI [of _ d] exI [of _ es]) auto
qed

subsection \<open>From the matcher to the books\<close>

text \<open>The drafts of the automatic nets of a run, and the legs they name as inputs.\<close>

definition net_drafts :: "libs \<Rightarrow> tenant_id \<Rightarrow> timestamp_ns \<Rightarrow> match_outcome \<Rightarrow> (book_error, event_draft) result list" where
  "net_drafts L tenant t outcome = map (\<lambda>p. draft_auto_net L p tenant t) (filter (\<lambda>p. mp_disposition p = AutoNet) (mo_proposals outcome))"

fun draft_inputs :: "provenance \<Rightarrow> leg_id list" where
  "draft_inputs (ProvDerived h inputs) = inputs"
| "draft_inputs _ = []"

lemma autonet_consuming:
  assumes "sound_outcome config legs ps"
  shows "filter (\<lambda>p. mp_disposition p = AutoNet) ps = filter (\<lambda>p. mp_disposition p = AutoNet) (consuming ps)"
proof -
  have "mp_tier p \<noteq> Probabilistic" if "p \<in> set ps" "mp_disposition p = AutoNet" for p
    using assms that unfolding sound_outcome_def list_all_iff by (fastforce simp: proposal_ok_def split: tier.splits)
  then show ?thesis unfolding consuming_def filter_filter by (intro filter_cong) auto
qed

lemma legs_of_filter: "set (legs_of (filter P ps)) \<subseteq> set (legs_of ps)" "distinct (legs_of ps) \<Longrightarrow> distinct (legs_of (filter P ps))"
proof -
  show sub: "set (legs_of (filter P ps)) \<subseteq> set (legs_of ps)" for ps by (induction ps) auto
  show "distinct (legs_of ps) \<Longrightarrow> distinct (legs_of (filter P ps))"
    by (induction ps) (use sub in auto)
qed

lemma draft_auto_net_ok:
  assumes "libs_ok L" and "mp_disposition p = AutoNet"
  obtains d where "draft_auto_net L p tenant t = Inr d" "draft_inputs (ev_provenance d) = [mp_out_leg p, mp_in_leg p]" "ev_tenant d = tenant"
  using assms decision_identity.hash_total [OF assms(1), of p]
  by (simp add: draft_auto_net_def decision_hash_def)

lemma net_drafts_list:
  assumes "libs_ok L" and "list_all (\<lambda>p. mp_disposition p = AutoNet) ps"
  shows "\<exists>ds. map (\<lambda>p. draft_auto_net L p tenant t) ps = map Inr ds \<and>
    concat (map (\<lambda>d. draft_inputs (ev_provenance d)) ds) = legs_of ps \<and>
    list_all (\<lambda>d. drafted L d \<and> ev_tenant d = tenant) ds"
  using assms(2)
proof (induction ps)
  case (Cons p ps)
  then obtain ds where ds: "map (\<lambda>p. draft_auto_net L p tenant t) ps = map Inr ds"
    "concat (map (\<lambda>d. draft_inputs (ev_provenance d)) ds) = legs_of ps"
    "list_all (\<lambda>d. drafted L d \<and> ev_tenant d = tenant) ds" by auto
  obtain d where d: "draft_auto_net L p tenant t = Inr d" "draft_inputs (ev_provenance d) = [mp_out_leg p, mp_in_leg p]" "ev_tenant d = tenant"
    using draft_auto_net_ok [OF assms(1), of p tenant t] Cons.prems by auto
  with ds show ?case by (intro exI [of _ "d # ds"]) (auto intro: drafted_auto_net)
qed simp

text \<open>C23: No leg is booked twice: all automatic nets of a matcher run over legs with distinct ids can be drafted;
  the drafts name only legs of the run, no leg occurs twice among all their inputs; and appended at
  strictly increasing knowledge times they all enter the tenant's stream.\<close>

theorem auto_nets_booked_once:
  assumes "libs_ok L" and "match_legs L legs config = Inr outcome" and "distinct (map tl_leg_id legs)"
  shows "\<exists>ds. net_drafts L tenant t outcome = map Inr ds \<and>
    distinct (concat (map (\<lambda>d. draft_inputs (ev_provenance d)) ds)) \<and>
    set (concat (map (\<lambda>d. draft_inputs (ev_provenance d)) ds)) \<subseteq> tl_leg_id ` set legs \<and>
    (\<forall>ts lg. length ts = length ds \<and> times_follow (last_time lg tenant) ts \<longrightarrow>
      (\<exists>es. lg_stream (lg_run L (zip ds ts) lg) tenant = lg_stream lg tenant @ es \<and> map se_draft es = ds))"
proof -
  let ?ps = "filter (\<lambda>p. mp_disposition p = AutoNet) (mo_proposals outcome)"
  note sound = match_legs_sound [OF assms(2,3)]
  obtain ds where ds: "net_drafts L tenant t outcome = map Inr ds"
    "concat (map (\<lambda>d. draft_inputs (ev_provenance d)) ds) = legs_of ?ps"
    "list_all (\<lambda>d. drafted L d \<and> ev_tenant d = tenant) ds"
    using net_drafts_list [OF assms(1), of ?ps tenant t] by (auto simp: net_drafts_def list_all_iff)
  have "distinct (legs_of ?ps)"
    unfolding autonet_consuming [OF sound] using sound by (intro legs_of_filter(2)) (simp add: sound_outcome_def)
  moreover have "set (legs_of ?ps) \<subseteq> tl_leg_id ` set legs"
    using legs_of_filter(1) [of _ "mo_proposals outcome"] sound_legs_known [OF sound] by (auto simp: set_legs_of)
  moreover have "\<exists>es. lg_stream (lg_run L (zip ds ts) lg) tenant = lg_stream lg tenant @ es \<and> map se_draft es = ds"
    if ts: "length ts = length ds" "times_follow (last_time lg tenant) ts" for ts lg
  proof -
    have "list_all (\<lambda>(d, t). drafted L d \<and> ev_tenant d = tenant) (zip ds ts)"
      using ds(3) by (auto simp: list_all_iff dest: set_zip_leftD)
    from drafted_batch_accepted [OF assms(1) this, of lg] ts obtain es where
      "lg_stream (lg_run L (zip ds ts) lg) tenant = lg_stream lg tenant @ es"
      "map (\<lambda>e. (se_draft e, se_knowledge_time e)) es = zip ds ts" by auto
    moreover have "map se_draft es = map fst (map (\<lambda>e. (se_draft e, se_knowledge_time e)) es)" by simp
    ultimately have "lg_stream (lg_run L (zip ds ts) lg) tenant = lg_stream lg tenant @ es" "map se_draft es = ds"
      using ts(1) by simp_all
    then show ?thesis by blast
  qed
  ultimately show ?thesis using ds(1,2) by (intro exI [of _ ds]) auto
qed

theorem auto_nets_booked_once_witness:
  "\<exists>ds. (\<exists>outcome. match_legs (demo_libs (\<lambda>_. hash_of_byte (CHR 0x00))) demo_legs demo_config = Inr outcome \<and>
       net_drafts (demo_libs (\<lambda>_. hash_of_byte (CHR 0x00))) ''acme'' 7 outcome = map Inr ds) \<and>
     set (concat (map (\<lambda>d. draft_inputs (ev_provenance d)) ds)) \<subseteq> {hash_of_byte (CHR 0x01), hash_of_byte (CHR 0x02)}"
proof -
  let ?L = "demo_libs (\<lambda>_. hash_of_byte (CHR 0x00))"
  obtain outcome where run: "match_legs ?L demo_legs demo_config = Inr outcome" using demo_match by blast
  obtain ds where "net_drafts ?L ''acme'' 7 outcome = map Inr ds"
    "set (concat (map (\<lambda>d. draft_inputs (ev_provenance d)) ds)) \<subseteq> tl_leg_id ` set demo_legs"
    using auto_nets_booked_once [OF demo_libs_ok run demo_legs_distinct, of "''acme''" 7] by blast
  then show ?thesis using run by (intro exI [of _ ds]) (auto simp: demo_legs_def demo_leg_def)
qed

end
